(* ===== verification/Prelude.thy ===== *)
theory Prelude
  imports Complex_Main "HOL-Library.Word" "HOL-Library.Multiset" "HOL-Library.Sublist"
begin

text \<open>
  Shared vocabulary of the development: the Go types every component uses (addresses, byte
  slices, JSON documents, errors), the result type of a fallible call, 64-bit conversions, and
  the list and result lemmas that the component proofs share.

  A Go function that returns \<open>(T, error)\<close> is modelled with the result type \<open>'a res\<close>: \<open>Inl e\<close> for a
  non-nil error, \<open>Inr x\<close> for a value and a nil error. A run-time panic is the error
  \<open>Panicked\<close>; no component recovers from it except the HTTP middleware.
\<close>

named_theorems go_simps \<open>unfolding rules of the small Go helpers\<close>

subsection \<open>Data\<close>

text \<open>
  \<open>common.Address\<close> is an array of 20 bytes: the 160-bit word with these bytes, big-endian.
  The zero address \<open>common.HexToAddress("0x")\<close> is 0.
\<close>

type_synonym address = "160 word"
type_synonym bytes = "8 word list"
type_synonym hash = bytes

text \<open>A value of type \<open>any\<close> decoded by \<open>encoding/json\<close>; numbers are \<open>float64\<close>.\<close>

datatype json =
    JNull
  | JBool bool
  | JNum rat
  | JStr string
  | JArr "json list"
  | JObj "(string \<times> json) list"

type_synonym obj = "string \<rightharpoonup> json"

text \<open>
  Error values. \<open>GoError\<close> is an error with a message only (\<open>errors.New\<close>, \<open>fmt.Errorf\<close> or a
  library error that carries no data), \<open>RPCError\<close> is the struct of \<open>pkg/errors/rpc.go\<close>,
  \<open>DataError\<close> an error of the RPC client that implements \<open>rpc.DataError\<close>, and
  \<open>HexDataError\<close> is \<open>hexDataErrorWrapper\<close> of \<open>pkg/errors/string.go\<close>.
\<close>

datatype err_data = NilData | StrData string | FailedOpData int string | JsonData json

datatype go_error =
    GoError string
  | RPCError int string err_data
  | DataError string json
  | HexDataError string
  | Panicked string

fun Error :: "go_error \<Rightarrow> string" where
  "Error (GoError s) = s"
| "Error (RPCError c s d) = s"
| "Error (DataError s d) = s"
| "Error (HexDataError s) = s"
| "Error (Panicked s) = s"

type_synonym 'a res = "go_error + 'a"

definition bind_res :: "'a res \<Rightarrow> ('a \<Rightarrow> 'b res) \<Rightarrow> 'b res" where
  "bind_res r f = (case r of Inl e \<Rightarrow> Inl e | Inr x \<Rightarrow> f x)"

lemma bind_res_simps [simp]:
  "bind_res (Inl e) f = Inl e"
  "bind_res (Inr x) f = f x"
  by (simp_all add: bind_res_def)

lemma bind_res_eq_Inr:
  "bind_res r f = Inr y \<longleftrightarrow> (\<exists>x. r = Inr x \<and> f x = Inr y)"
  by (cases r) auto

lemma bind_res_eq_Inl:
  "bind_res r f = Inl e \<longleftrightarrow> r = Inl e \<or> (\<exists>x. r = Inr x \<and> f x = Inl e)"
  by (cases r) auto

text \<open>A \<open>for\<close> loop that collects one fallible result per element and returns at the first error.\<close>

fun map_res :: "('a \<Rightarrow> 'b res) \<Rightarrow> 'a list \<Rightarrow> 'b list res" where
  "map_res f [] = Inr []"
| "map_res f (x # xs) =
     (case f x of Inl e \<Rightarrow> Inl e
      | Inr y \<Rightarrow> (case map_res f xs of Inl e \<Rightarrow> Inl e | Inr ys \<Rightarrow> Inr (y # ys)))"

lemma map_res_Inr:
  "map_res f xs = Inr ys \<Longrightarrow> map (Inr :: 'b \<Rightarrow> 'b res) ys = map f xs"
  by (induction xs arbitrary: ys) (auto split: sum.splits)

lemma map_res_total: "(\<And>x. x \<in> set xs \<Longrightarrow> f x = Inr (g x)) \<Longrightarrow> map_res f xs = Inr (map g xs)"
  by (induction xs) auto

lemma map_res_Inl: "map_res f xs = Inl e \<Longrightarrow> \<exists>x \<in> set xs. f x = Inl e"
  by (induction xs) (auto split: sum.splits)

subsection \<open>64-bit values\<close>

text \<open>\<open>big.Int.Int64\<close> and conversions to \<open>int64\<close> keep the low 64 bits, read as two's complement.\<close>

definition wrap64 :: "int \<Rightarrow> int" where
  "wrap64 n = sint (word_of_int n :: 64 word)"

definition uwrap64 :: "int \<Rightarrow> int" where
  "uwrap64 n = uint (word_of_int n :: 64 word)"

lemma wrap64_id: "- (2 ^ 63) \<le> n \<Longrightarrow> n < 2 ^ 63 \<Longrightarrow> wrap64 n = n"
  by (simp add: wrap64_def sint_uint uint_word_of_int_eq signed_take_bit_take_bit
      signed_take_bit_int_eq_self)

lemma uwrap64_id: "0 \<le> n \<Longrightarrow> n < 2 ^ 64 \<Longrightarrow> uwrap64 n = n"
  by (simp add: uwrap64_def uint_word_of_int)

lemma wrap64_range: "- (2 ^ 63) \<le> wrap64 n \<and> wrap64 n < 2 ^ 63"
  using sint_ge [of "word_of_int n :: 64 word"] sint_lt [of "word_of_int n :: 64 word"]
  by (simp add: wrap64_def)

text \<open>\<open>float64\<close> to \<open>int64\<close>: truncation towards zero; a value out of range gives the
  most negative integer (what amd64 computes; the language leaves it to the platform).\<close>

definition rat_trunc :: "rat \<Rightarrow> int" where
  "rat_trunc q = (if 0 \<le> q then \<lfloor>q\<rfloor> else \<lceil>q\<rceil>)"

definition float_to_int64 :: "rat \<Rightarrow> int" where
  "float_to_int64 q =
     (let t = rat_trunc q in if - (2 ^ 63) \<le> t \<and> t < 2 ^ 63 then t else - (2 ^ 63))"

text \<open>Integer division of machine integers (Go's \<open>/\<close>) truncates towards zero.\<close>

definition go_div :: "int \<Rightarrow> int \<Rightarrow> int" where
  "go_div a b = sgn a * sgn b * (\<bar>a\<bar> div \<bar>b\<bar>)"

lemma go_div_nonneg: "0 \<le> a \<Longrightarrow> 0 < b \<Longrightarrow> go_div a b = a div b"
  by (cases "a = 0") (auto simp: go_div_def)

text \<open>\<open>big.Int.Div\<close> is Euclidean division and panics on a zero divisor.\<close>

definition big_Div :: "int \<Rightarrow> int \<Rightarrow> int res" where
  "big_Div a b = (if b = 0 then Inl (Panicked ''division by zero'') else Inr (sgn b * (a div \<bar>b\<bar>)))"

lemma big_Div_pos: "0 < b \<Longrightarrow> big_Div a b = Inr (a div b)"
  by (simp add: big_Div_def)

subsection \<open>Bytes of addresses and integers\<close>

definition address_of_bytes :: "bytes \<Rightarrow> address" where
  "address_of_bytes bs = foldl (\<lambda>a b. a * 256 + ucast b) 0 bs"

definition address_bytes :: "address \<Rightarrow> bytes" where
  "address_bytes a = map (\<lambda>i. ucast (drop_bit (8 * i) a)) (rev [0..<20])"

text \<open>\<open>big.Int.Bytes\<close>: the absolute value, big-endian, without leading zero bytes.\<close>

function nat_bytes :: "nat \<Rightarrow> bytes" where
  "nat_bytes n = (if n = 0 then [] else nat_bytes (n div 256) @ [of_nat (n mod 256)])"
  by pat_completeness auto
termination
  by (relation "measure id") auto

declare nat_bytes.simps [simp del]

definition big_bytes :: "int \<Rightarrow> bytes" where
  "big_bytes n = nat_bytes (nat \<bar>n\<bar>)"

definition LeftPadBytes :: "bytes \<Rightarrow> nat \<Rightarrow> bytes" where
  "LeftPadBytes bs l = (if l \<le> length bs then bs else replicate (l - length bs) 0 @ bs)"

lemma option_eqI: "(\<And>x. f = Some x \<longleftrightarrow> g = Some x) \<Longrightarrow> f = g"
  by (cases f; cases g) auto

subsection \<open>Lists\<close>

definition remove_nth :: "nat \<Rightarrow> 'a list \<Rightarrow> 'a list" where
  "remove_nth i xs = take i xs @ drop (Suc i) xs"

lemma remove_nth_simps [simp]:
  "remove_nth i [] = []"
  "remove_nth 0 (x # xs) = xs"
  "remove_nth (Suc i) (x # xs) = x # remove_nth i xs"
  by (simp_all add: remove_nth_def)

lemma length_remove_nth: "i < length xs \<Longrightarrow> length (remove_nth i xs) = length xs - 1"
  by (simp add: remove_nth_def)

lemma mset_remove_nth: "i < length xs \<Longrightarrow> add_mset (xs ! i) (mset (remove_nth i xs)) = mset xs"
proof (induction xs arbitrary: i)
  case Nil
  then show ?case by simp
next
  case (Cons x xs)
  then show ?case
    by (cases i) (auto simp: add_mset_commute)
qed

lemma remove_nth_append:
  "remove_nth (length xs) (xs @ y # ys) = xs @ ys"
  by (simp add: remove_nth_def)

lemma set_remove_nth: "set (remove_nth i xs) \<subseteq> set xs"
  by (auto simp: remove_nth_def dest: in_set_takeD in_set_dropD)

lemma distinct_count_le: "distinct xs \<longleftrightarrow> (\<forall>x. count (mset xs) x \<le> 1)"
proof (induction xs)
  case (Cons a xs)
  have "a \<in> set xs \<longleftrightarrow> 1 \<le> count (mset xs) a"
    by (metis One_nat_def Suc_le_eq count_greater_zero_iff set_mset_mset)
  with Cons show ?case by (auto simp: le_Suc_eq)
qed simp

lemma distinct_mset_subset: "mset xs \<subseteq># mset ys \<Longrightarrow> distinct ys \<Longrightarrow> distinct xs"
  unfolding distinct_count_le by (meson mset_subset_eq_count order_trans)

end
