(* ===== verification/Go_Strings.thy ===== *)
theory Go_Strings
  imports Prelude
begin

text \<open>
  The parts of Go's \<open>strings\<close>, \<open>strconv\<close>, \<open>encoding/hex\<close> and \<open>math/big\<close> that the source uses,
  with the round trips the components rely on: \<open>Split\<close> after \<open>Join\<close>, \<open>ParseInt\<close> after \<open>Itoa\<close>,
  \<open>hex.DecodeString\<close> after \<open>hex.EncodeToString\<close>. A Go string is a list of bytes (\<open>char\<close>s).
\<close>

subsection \<open>Joining, splitting and searching\<close>

fun Join :: "string list \<Rightarrow> string \<Rightarrow> string" where
  "Join [] sep = ''''"
| "Join [s] sep = s"
| "Join (s # ss) sep = s @ sep @ Join ss sep"

text \<open>\<open>strings.Split\<close> with a separator of one byte.\<close>

fun Split1 :: "string \<Rightarrow> char \<Rightarrow> string list" where
  "Split1 [] c = ['''']"
| "Split1 (x # xs) c =
     (if x = c then '''' # Split1 xs c
      else (case Split1 xs c of [] \<Rightarrow> [[x]] | w # ws \<Rightarrow> (x # w) # ws))"

lemma Split1_nonempty: "Split1 s c \<noteq> []"
  by (cases s) (auto split: list.splits)

lemma Split1_no_sep: "c \<notin> set s \<Longrightarrow> Split1 s c = [s]"
  by (induction s) auto

lemma Split1_sep: "c \<notin> set s \<Longrightarrow> Split1 (s @ c # t) c = s # Split1 t c"
  by (induction s) auto

lemma Split1_Join:
  "ss \<noteq> [] \<Longrightarrow> (\<And>s. s \<in> set ss \<Longrightarrow> c \<notin> set s) \<Longrightarrow> Split1 (Join ss [c]) c = ss"
proof (induction ss "[c]" rule: Join.induct)
  case (3 s t ts)
  then show ?case using Split1_sep [of c s "Join (t # ts) [c]"] by auto
qed (auto simp: Split1_no_sep)

lemma Join_inject:
  assumes "Join ss [c] = Join ts [c]" and "ss \<noteq> []" and "ts \<noteq> []"
    and "\<And>s. s \<in> set ss \<Longrightarrow> c \<notin> set s" and "\<And>s. s \<in> set ts \<Longrightarrow> c \<notin> set s"
  shows "ss = ts"
  using assms Split1_Join by metis

abbreviation HasPrefix :: "string \<Rightarrow> string \<Rightarrow> bool" where
  "HasPrefix s p \<equiv> prefix p s"

text \<open>\<open>strings.TrimSpace\<close> on ASCII.\<close>

definition is_space :: "char \<Rightarrow> bool" where
  "is_space c \<longleftrightarrow> (of_char c :: nat) \<in> {9, 10, 11, 12, 13, 32}"

definition TrimSpace :: "string \<Rightarrow> string" where
  "TrimSpace s = rev (dropWhile is_space (rev (dropWhile is_space s)))"

text \<open>\<open>strings.TrimPrefix\<close> and \<open>strings.TrimSuffix\<close>.\<close>

definition TrimPrefix :: "string \<Rightarrow> string \<Rightarrow> string" where
  "TrimPrefix s p = (if HasPrefix s p then drop (length p) s else s)"

definition TrimSuffix :: "string \<Rightarrow> string \<Rightarrow> string" where
  "TrimSuffix s p = (if suffix p s then take (length s - length p) s else s)"

fun Contains :: "string \<Rightarrow> string \<Rightarrow> bool" where
  "Contains [] sub = (sub = [])"
| "Contains (x # xs) sub = (prefix sub (x # xs) \<or> Contains xs sub)"

lemma Contains_iff: "Contains s sub \<longleftrightarrow> sublist sub s"
  by (induction s) (auto simp: sublist_Cons_right)

text \<open>\<open>strings.ToLower\<close> on ASCII.\<close>

definition lower_char :: "char \<Rightarrow> char" where
  "lower_char c = (if 65 \<le> (of_char c :: nat) \<and> (of_char c :: nat) \<le> 90 then char_of (of_char c + 32 :: nat) else c)"

definition ToLower :: "string \<Rightarrow> string" where
  "ToLower s = map lower_char s"

subsection \<open>Decimal numbers\<close>

definition digit_char :: "nat \<Rightarrow> char" where
  "digit_char d = (if d < 10 then char_of (48 + d) else char_of (87 + d))"

text \<open>The value of a digit or letter (\<open>0\<close>--\<open>9\<close>, \<open>a\<close>--\<open>z\<close>, \<open>A\<close>--\<open>Z\<close>), as the scanners of \<open>strconv\<close> and \<open>math/big\<close> read it.\<close>

definition digit_value :: "char \<Rightarrow> nat option" where
  "digit_value c =
     (let n = of_char c :: nat in
      if 48 \<le> n \<and> n \<le> 57 then Some (n - 48)
      else if 97 \<le> n \<and> n \<le> 122 then Some (n - 87)
      else if 65 \<le> n \<and> n \<le> 90 then Some (n - 55)
      else None)"

lemma digit_value_char: "d < 36 \<Longrightarrow> digit_value (digit_char d) = Some d"
  by (auto simp: digit_value_def digit_char_def of_char_of take_bit_nat_eq_self)

function nat_digits :: "nat \<Rightarrow> nat \<Rightarrow> string" where
  "nat_digits b n =
     (if b \<le> 1 \<or> n < b then [digit_char n] else nat_digits b (n div b) @ [digit_char (n mod b)])"
  by pat_completeness auto
termination
  by (relation "measure snd") auto

declare nat_digits.simps [simp del]

text \<open>\<open>strconv.Itoa\<close>, \<open>fmt.Sprint\<close> of an integer and \<open>big.Int.String\<close>.\<close>

definition Itoa :: "int \<Rightarrow> string" where
  "Itoa n = (if n < 0 then CHR ''-'' # nat_digits 10 (nat (- n)) else nat_digits 10 (nat n))"

text \<open>Reading digits in a base; \<open>None\<close> for an empty string or a character that is no digit of the base.\<close>

fun read_digits :: "nat \<Rightarrow> nat \<Rightarrow> string \<Rightarrow> nat option" where
  "read_digits b acc [] = Some acc"
| "read_digits b acc (c # cs) =
     (case digit_value c of
        None \<Rightarrow> None
      | Some d \<Rightarrow> if d < b then read_digits b (acc * b + d) cs else None)"

definition parse_nat :: "nat \<Rightarrow> string \<Rightarrow> nat option" where
  "parse_nat b s = (if s = [] then None else read_digits b 0 s)"

lemma read_digits_append:
  "read_digits b acc (s @ t)
    = (case read_digits b acc s of None \<Rightarrow> None | Some a \<Rightarrow> read_digits b a t)"
  by (induction s arbitrary: acc) (auto split: option.splits)

lemma read_nat_digits:
  assumes "2 \<le> b" "b \<le> 36"
  shows "read_digits b 0 (nat_digits b n) = Some n"
proof (induction n rule: less_induct)
  case (less n)
  show ?case
  proof (cases "n < b")
    case True
    with assms show ?thesis by (simp add: nat_digits.simps [of b n] digit_value_char)
  next
    case False
    with assms have "read_digits b 0 (nat_digits b (n div b)) = Some (n div b)"
      by (intro less.IH) auto
    moreover have "n mod b < b" "n mod b < 36"
      using assms by (auto intro: less_le_trans [OF mod_less_divisor])
    ultimately show ?thesis
      using False assms
      by (simp add: nat_digits.simps [of b n] read_digits_append digit_value_char)
  qed
qed

lemma nat_digits_nonempty: "nat_digits b n \<noteq> []"
  by (subst nat_digits.simps) simp

lemma parse_nat_digits: "2 \<le> b \<Longrightarrow> b \<le> 36 \<Longrightarrow> parse_nat b (nat_digits b n) = Some n"
  by (simp add: parse_nat_def read_nat_digits nat_digits_nonempty)

lemma nat_digits_chars:
  assumes "2 \<le> b" "b \<le> 36"
  shows "c \<in> set (nat_digits b n) \<Longrightarrow> \<exists>d < b. c = digit_char d"
proof (induction n rule: less_induct)
  case (less n)
  show ?case
  proof (cases "n < b")
    case True
    with less.prems assms show ?thesis by (auto simp: nat_digits.simps [of b n])
  next
    case False
    with less.prems assms have "c \<in> set (nat_digits b (n div b)) \<or> c = digit_char (n mod b)"
      by (auto simp: nat_digits.simps [of b n])
    moreover have "n div b < n" using False assms by auto
    moreover have "n mod b < b" using assms by simp
    ultimately show ?thesis
      using less.IH [of "n div b"] assms by blast
  qed
qed

text \<open>\<open>strconv.ParseInt(s, 10, 64)\<close> and \<open>strconv.Atoi\<close>: an optional sign, decimal digits, a range check.\<close>

definition ParseInt64 :: "string \<Rightarrow> int res" where
  "ParseInt64 s =
     (let (neg, ds) = (case s of
            [] \<Rightarrow> (False, [])
          | c # cs \<Rightarrow> if c = CHR ''-'' then (True, cs) else if c = CHR ''+'' then (False, cs) else (False, s))
      in case parse_nat 10 ds of
           None \<Rightarrow> Inl (GoError ''invalid syntax'')
         | Some n \<Rightarrow>
             (let v = (if neg then - int n else int n) in
              if - (2 ^ 63) \<le> v \<and> v < 2 ^ 63 then Inr v else Inl (GoError ''value out of range'')))"

abbreviation Atoi :: "string \<Rightarrow> int res" where
  "Atoi \<equiv> ParseInt64"

lemma digit_char_simps:
  "d < 36 \<Longrightarrow> digit_char d \<noteq> CHR ''-''" "d < 36 \<Longrightarrow> digit_char d \<noteq> CHR ''+''"
  "d < 36 \<Longrightarrow> digit_char d \<noteq> CHR '':''" "d < 36 \<Longrightarrow> digit_char d \<noteq> CHR ''_''"
  by (auto dest: digit_value_char simp: digit_value_def)

lemma Itoa_chars: "c \<in> set (Itoa n) \<Longrightarrow> c = CHR ''-'' \<or> (\<exists>d < 10. c = digit_char d)"
  using nat_digits_chars [of 10 c] by (auto simp: Itoa_def split: if_splits)

lemma colon_notin_Itoa [simp]: "CHR '':'' \<notin> set (Itoa n)"
proof
  assume "CHR '':'' \<in> set (Itoa n)"
  then obtain d where "d < 10" "CHR '':'' = digit_char d"
    using Itoa_chars [of "CHR '':''" n] by auto
  then show False using digit_char_simps(3) [of d] by simp
qed

lemma ParseInt64_Itoa:
  assumes "- (2 ^ 63) \<le> n" "n < 2 ^ 63"
  shows "ParseInt64 (Itoa n) = Inr n"
proof (cases "n < 0")
  case True
  with assms show ?thesis by (simp add: ParseInt64_def Itoa_def parse_nat_digits)
next
  case False
  obtain c cs where ds: "nat_digits 10 (nat n) = c # cs"
    using nat_digits_nonempty by (metis list.exhaust)
  then have "\<exists>d < 10. c = digit_char d" using nat_digits_chars [of 10 c "nat n"] by simp
  then have "c \<noteq> CHR ''-''" "c \<noteq> CHR ''+''" using digit_char_simps by fastforce+
  with False ds assms parse_nat_digits [of 10 "nat n"] show ?thesis
    by (simp add: ParseInt64_def Itoa_def)
qed

lemma Itoa_inject: "Itoa m = Itoa n \<Longrightarrow> m = n"
proof -
  assume eq: "Itoa m = Itoa n"
  have val: "(case s of [] \<Rightarrow> 0 | c # cs \<Rightarrow> if c = CHR ''-'' then - int (the (parse_nat 10 cs)) else int (the (parse_nat 10 s))) = k"
    if "s = Itoa k" for s k
  proof (cases "k < 0")
    case True
    with that show ?thesis by (simp add: Itoa_def parse_nat_digits)
  next
    case False
    obtain c cs where ds: "nat_digits 10 (nat k) = c # cs"
      using nat_digits_nonempty by (metis list.exhaust)
    then have "\<exists>d < 10. c = digit_char d" using nat_digits_chars [of 10 c "nat k"] by simp
    then have "c \<noteq> CHR ''-''" using digit_char_simps by fastforce
    with False that ds parse_nat_digits [of 10 "nat k"] show ?thesis by (simp add: Itoa_def)
  qed
  show "m = n" using val [OF refl, of m] val [OF eq] by simp
qed

subsection \<open>Hexadecimal byte strings\<close>

definition hex_byte :: "8 word \<Rightarrow> string" where
  "hex_byte b = [digit_char (unat b div 16), digit_char (unat b mod 16)]"

definition hex_Encode :: "bytes \<Rightarrow> string" where
  "hex_Encode bs = concat (map hex_byte bs)"

text \<open>\<open>hex.DecodeString\<close>: two digits per byte, an odd length or another character is an error.\<close>

fun hex_Decode :: "string \<Rightarrow> bytes res" where
  "hex_Decode [] = Inr []"
| "hex_Decode [c] = Inl (GoError ''encoding/hex: odd length hex string'')"
| "hex_Decode (c # d # cs) =
     (case (digit_value c, digit_value d) of
        (Some x, Some y) \<Rightarrow>
          (if x < 16 \<and> y < 16 then
             (case hex_Decode cs of Inl e \<Rightarrow> Inl e | Inr bs \<Rightarrow> Inr (of_nat (16 * x + y) # bs))
           else Inl (GoError ''encoding/hex: invalid byte''))
      | _ \<Rightarrow> Inl (GoError ''encoding/hex: invalid byte''))"

lemma hex_Decode_Encode: "hex_Decode (hex_Encode bs) = Inr bs"
proof (induction bs)
  case Nil
  then show ?case by (simp add: hex_Encode_def)
next
  case (Cons b bs)
  have "unat b < 256" using unsigned_less [of b, where 'a = nat] by simp
  then have "unat b div 16 < 16" by simp
  with Cons show ?case by (simp add: hex_Encode_def hex_byte_def digit_value_char)
qed

subsection \<open>\<open>big.Int.SetString(s, 0)\<close>\<close>

text \<open>
  The scanner of \<open>math/big\<close> with base 0: an optional sign, a prefix that selects the base
  (\<open>0b\<close>, \<open>0o\<close>, \<open>0x\<close>, or a bare \<open>0\<close> for octal), digits and underscores between digits. The
  state of the loop is the previous character class (\<open>prev\<close>: 0 for a digit, 1 for an underscore,
  2 for anything else), whether an underscore was misplaced, the digit count and the value. The
  whole string must be read.
\<close>

fun scan_digits :: "nat \<Rightarrow> nat \<Rightarrow> bool \<Rightarrow> nat \<Rightarrow> nat \<Rightarrow> string \<Rightarrow> (nat \<times> bool \<times> nat \<times> nat \<times> string)" where
  "scan_digits b prev bad cnt acc [] = (prev, bad, cnt, acc, [])"
| "scan_digits b prev bad cnt acc (c # cs) =
     (if c = CHR ''_'' then scan_digits b 1 (bad \<or> prev \<noteq> 0) cnt acc cs
      else (case digit_value c of
              Some d \<Rightarrow> if d < b then scan_digits b 0 bad (cnt + 1) (acc * b + d) cs
                        else (prev, bad, cnt, acc, c # cs)
            | None \<Rightarrow> (prev, bad, cnt, acc, c # cs)))"

definition scan_base :: "string \<Rightarrow> (nat \<times> bool \<times> nat \<times> string)" where
  \<comment> \<open>base, whether the prefix is the bare octal \<open>0\<close>, the initial \<open>prev\<close>, the rest\<close>
  "scan_base s =
     (case s of
        c # cs \<Rightarrow>
          if c = CHR ''0'' then
            (case cs of
               [] \<Rightarrow> (10, False, 0, s)
             | x # xs \<Rightarrow>
                 if x = CHR ''b'' \<or> x = CHR ''B'' then (2, False, 0, xs)
                 else if x = CHR ''o'' \<or> x = CHR ''O'' then (8, False, 0, xs)
                 else if x = CHR ''x'' \<or> x = CHR ''X'' then (16, False, 0, xs)
                 else (8, True, 0, cs))
          else (10, False, 2, s)
      | [] \<Rightarrow> (10, False, 2, s))"

definition scan_nat :: "string \<Rightarrow> nat option" where
  "scan_nat s =
     (let (b, octal, prev0, rest) = scan_base s;
          (prev, bad, cnt, acc, left) = scan_digits b prev0 False 0 0 rest
      in if bad \<or> prev = 1 then None
         else if cnt = 0 then (if octal \<and> left = [] then Some 0 else None)
         else if left = [] then Some acc else None)"

definition SetString :: "string \<Rightarrow> int option" where
  "SetString s =
     (case s of
        [] \<Rightarrow> None
      | c # cs \<Rightarrow>
          if c = CHR ''-'' then map_option (\<lambda>n. - int n) (scan_nat cs)
          else if c = CHR ''+'' then map_option int (scan_nat cs)
          else map_option int (scan_nat s))"

lemma scan_digits_nat:
  "(\<And>c. c \<in> set s \<Longrightarrow> \<exists>d < b. d < 36 \<and> c = digit_char d) \<Longrightarrow> read_digits b acc s = Some v \<Longrightarrow>
    scan_digits b prev bad cnt acc s
      = ((if s = [] then prev else 0), bad, cnt + length s, v, [])"
proof (induction s arbitrary: acc prev cnt)
  case Nil
  then show ?case by simp
next
  case (Cons c s)
  from Cons.prems(1) [of c] obtain d where d: "d < b" "d < 36" "c = digit_char d" by auto
  then have "read_digits b (acc * b + d) s = Some v"
    using Cons.prems(2) by (simp add: digit_value_char)
  with Cons d show ?case by (simp add: digit_char_simps digit_value_char)
qed

text \<open>\<open>"0x"\<close> and hexadecimal digits are read back.\<close>

lemma SetString_hex: "SetString (''0x'' @ nat_digits 16 n) = Some (int n)"
proof -
  have "scan_digits 16 0 False 0 0 (nat_digits 16 n) = (0, False, length (nat_digits 16 n), n, [])"
    using scan_digits_nat [of "nat_digits 16 n" 16 0 n 0 False 0]
      nat_digits_chars [of 16 _ n] read_nat_digits [of 16 n] nat_digits_nonempty [of 16 n]
    by fastforce
  then show ?thesis
    by (simp add: SetString_def scan_nat_def scan_base_def nat_digits_nonempty)
qed

end
