(* ===== verification/Ext.thy ===== *)
theory Ext
  imports Go_Strings "HOL-Library.List_Lexorder" "HOL-Library.Char_ord"
begin

text \<open>
  Packages the source calls and does not contain: \<open>go-ethereum\<close> (addresses, hexadecimal
  encodings, Keccak), the embedded database \<open>badger\<close> and \<open>wangjia184/sortedset\<close>. Each is a
  record of operations, an argument of the definitions that call it. What the code relies on is
  a named predicate on the record that states the package's documentation; the theorems that
  need it have it as a hypothesis. A reference instance of each shows that the predicate can hold
  and serves in the witnesses.
\<close>

subsection \<open>go-ethereum\<close>

record eth_lib =
  HexToAddress :: "string \<Rightarrow> address"
  AddressString :: "address \<Rightarrow> string"
  EncodeBig :: "int \<Rightarrow> string"
  hexutil_Encode :: "bytes \<Rightarrow> string"
  hexutil_Decode :: "string \<Rightarrow> bytes res"
  Keccak256 :: "bytes \<Rightarrow> bytes"

definition eth_lib_ok :: "'x eth_lib_scheme \<Rightarrow> bool" where
  "eth_lib_ok L \<longleftrightarrow>
     (\<forall>a. HexToAddress L (AddressString L a) = a \<and> CHR '':'' \<notin> set (AddressString L a)) \<and>
     (\<forall>n \<ge> 0. SetString (EncodeBig L n) = Some n) \<and>
     (\<forall>bs. hexutil_Encode L bs = ''0x'' @ hex_Encode bs \<and> hexutil_Decode L (hexutil_Encode L bs) = Inr bs) \<and>
     (\<forall>bs. length (Keccak256 L bs) = 32)"

lemma eth_lib_okD:
  assumes "eth_lib_ok L"
  shows "HexToAddress L (AddressString L a) = a" "CHR '':'' \<notin> set (AddressString L a)"
    "0 \<le> n \<Longrightarrow> SetString (EncodeBig L n) = Some n"
    "hexutil_Encode L bs = ''0x'' @ hex_Encode bs"
    "hexutil_Decode L (''0x'' @ hex_Encode bs) = Inr bs"
    "length (Keccak256 L bs) = 32"
  using assms unfolding eth_lib_ok_def by metis+

lemma AddressString_inject: "eth_lib_ok L \<Longrightarrow> AddressString L a = AddressString L b \<longleftrightarrow> a = b"
  by (metis eth_lib_okD(1))

lemma hexutil_Encode_inject: "eth_lib_ok L \<Longrightarrow> hexutil_Encode L a = hexutil_Encode L b \<longleftrightarrow> a = b"
  by (metis eth_lib_okD(4) eth_lib_okD(5) sum.inject(2))

definition ref_decode :: "string \<Rightarrow> bytes res" where
  "ref_decode s = (if prefix ''0x'' s then hex_Decode (drop 2 s) else Inl (GoError ''hex string without 0x prefix''))"

definition eth_ref :: eth_lib where
  "eth_ref = \<lparr>
     HexToAddress = (\<lambda>s. case SetString s of None \<Rightarrow> 0 | Some n \<Rightarrow> word_of_int n),
     AddressString = (\<lambda>a. ''0x'' @ nat_digits 16 (unat a)),
     EncodeBig = (\<lambda>n. (if n < 0 then ''-'' else '''') @ ''0x'' @ nat_digits 16 (nat \<bar>n\<bar>)),
     hexutil_Encode = (\<lambda>bs. ''0x'' @ hex_Encode bs),
     hexutil_Decode = ref_decode,
     Keccak256 = (\<lambda>bs. take 32 (bs @ replicate 32 0))\<rparr>"

lemma eth_ref_ok: "eth_lib_ok eth_ref"
proof -
  have colon: "CHR '':'' \<notin> set (''0x'' @ nat_digits 16 n)" for n
  proof
    assume "CHR '':'' \<in> set (''0x'' @ nat_digits 16 n)"
    then have "CHR '':'' \<in> set (nat_digits 16 n)" by simp
    then obtain d where "d < 16" "CHR '':'' = digit_char d"
      using nat_digits_chars [of 16 "CHR '':''" n] by auto
    then show False using digit_char_simps(3) [of d] by simp
  qed
  have addr: "SetString (''0x'' @ nat_digits 16 (unat (a :: address))) = Some (int (unat a))" for a
    by (rule SetString_hex)
  show ?thesis
    unfolding eth_lib_ok_def eth_ref_def
    using colon addr SetString_hex by (auto simp: ref_decode_def hex_Decode_Encode)
qed

subsection \<open>badger\<close>

text \<open>
  \<open>'d\<close> is the content of the database as a transaction sees it. A value is a JSON document
  (the JSON text written by \<open>json.Marshal\<close>, represented by what it denotes) or plain text.
  Every operation can fail with an error of the storage layer.
\<close>

datatype db_value = DocVal json | TextVal string

record 'd badger =
  txn_Get :: "'d \<Rightarrow> string \<Rightarrow> db_value res"
  txn_Set :: "'d \<Rightarrow> string \<Rightarrow> db_value \<Rightarrow> 'd res"
  txn_Delete :: "'d \<Rightarrow> string \<Rightarrow> 'd res"
  txn_Iterate :: "'d \<Rightarrow> string \<Rightarrow> (string \<times> db_value res) list"
  db_Commit :: "'d \<Rightarrow> go_error option"
  db_DropAll :: "'d \<Rightarrow> 'd res"

definition ErrKeyNotFound :: go_error where
  "ErrKeyNotFound = GoError ''Key not found''"

text \<open>
  \<open>DB.Update\<close>: run the function on the transaction; a non-nil error discards it, otherwise it is
  committed, and a failed commit (a conflict) leaves the database as it was.
\<close>

definition db_Update :: "'d badger \<Rightarrow> ('d \<Rightarrow> 'd res) \<Rightarrow> 'd \<Rightarrow> go_error option \<times> 'd" where
  "db_Update B f d =
     (case f d of
        Inl e \<Rightarrow> (Some e, d)
      | Inr d' \<Rightarrow> (case db_Commit B d' of None \<Rightarrow> (None, d') | Some e \<Rightarrow> (Some e, d)))"

lemma db_Update_None: "db_Update B f d = (None, d') \<longleftrightarrow> f d = Inr d' \<and> db_Commit B d' = None"
  by (auto simp: db_Update_def split: sum.splits option.splits)

lemma db_Update_Some: "db_Update B f d = (Some e, d') \<Longrightarrow> d' = d"
  by (auto simp: db_Update_def split: sum.splits option.splits)

lemma db_Update_cases:
  obtains (error) e where "db_Update B f d = (Some e, d)"
  | (ok) d' where "f d = Inr d'" "db_Update B f d = (None, d')"
proof (cases "f d")
  case (Inl e)
  then show ?thesis by (intro error [of e]) (simp add: db_Update_def)
next
  case (Inr d')
  then show ?thesis
    by (cases "db_Commit B d'") (auto simp: db_Update_def intro: error ok)
qed

definition badger_ok :: "'d badger \<Rightarrow> bool" where
  "badger_ok B \<longleftrightarrow>
     (\<forall>d k v d'. txn_Set B d k v = Inr d' \<longrightarrow>
        txn_Get B d' k = Inr v \<and> (\<forall>k'. k' \<noteq> k \<longrightarrow> txn_Get B d' k' = txn_Get B d k')) \<and>
     (\<forall>d k d'. txn_Delete B d k = Inr d' \<longrightarrow>
        txn_Get B d' k = Inl ErrKeyNotFound \<and> (\<forall>k'. k' \<noteq> k \<longrightarrow> txn_Get B d' k' = txn_Get B d k')) \<and>
     (\<forall>d p k v. (k, Inr v) \<in> set (txn_Iterate B d p) \<longleftrightarrow> prefix p k \<and> txn_Get B d k = Inr v) \<and>
     (\<forall>d p. distinct (map fst (txn_Iterate B d p))) \<and>
     (\<forall>d d'. db_DropAll B d = Inr d' \<longrightarrow> (\<forall>k. txn_Get B d' k = Inl ErrKeyNotFound))"

lemma badger_okD:
  assumes "badger_ok B"
  shows "txn_Set B d k v = Inr d' \<Longrightarrow> txn_Get B d' k = Inr v"
    "txn_Set B d k v = Inr d' \<Longrightarrow> k' \<noteq> k \<Longrightarrow> txn_Get B d' k' = txn_Get B d k'"
    "txn_Delete B d k = Inr d' \<Longrightarrow> txn_Get B d' k = Inl ErrKeyNotFound"
    "txn_Delete B d k = Inr d' \<Longrightarrow> k' \<noteq> k \<Longrightarrow> txn_Get B d' k' = txn_Get B d k'"
    "(k, Inr v) \<in> set (txn_Iterate B d p) \<longleftrightarrow> prefix p k \<and> txn_Get B d k = Inr v"
    "distinct (map fst (txn_Iterate B d p))"
    "db_DropAll B d = Inr d' \<Longrightarrow> txn_Get B d' k = Inl ErrKeyNotFound"
  using assms unfolding badger_ok_def by blast+

text \<open>The reference instance: an association list with distinct keys, and no storage failures.\<close>

definition badger_ref :: "((string \<times> db_value) list) badger" where
  "badger_ref = \<lparr>
     txn_Get = (\<lambda>d k. case map_of d k of None \<Rightarrow> Inl ErrKeyNotFound | Some v \<Rightarrow> Inr v),
     txn_Set = (\<lambda>d k v. Inr ((k, v) # filter (\<lambda>e. fst e \<noteq> k) d)),
     txn_Delete = (\<lambda>d k. Inr (filter (\<lambda>e. fst e \<noteq> k) d)),
     txn_Iterate = (\<lambda>d p. map (\<lambda>k. (k, Inr (the (map_of d k)))) (sorted_list_of_set {k \<in> fst ` set d. prefix p k})),
     db_Commit = (\<lambda>d. None),
     db_DropAll = (\<lambda>d. Inr [])\<rparr>"

lemma map_of_filter_key:
  "map_of (filter (\<lambda>e. fst e \<noteq> k) d) k' = (if k' = k then None else map_of d k')"
  by (induction d) auto

lemma badger_ref_ok: "badger_ok badger_ref"
proof -
  have it: "(k, Inr v) \<in> set (map (\<lambda>k. (k, Inr (the (map_of d k)) :: db_value res))
        (sorted_list_of_set {k \<in> fst ` set d. prefix p k})) \<longleftrightarrow>
      prefix p k \<and> map_of d k = Some v" for d :: "(string \<times> db_value) list" and p k v
  proof -
    have "finite {k \<in> fst ` set d. prefix p k}" by simp
    moreover have "k \<in> fst ` set d \<longleftrightarrow> (\<exists>w. map_of d k = Some w)" for k
      by (metis map_of_eq_None_iff not_None_eq)
    ultimately show ?thesis by auto
  qed
  have get: "(case m of None \<Rightarrow> Inl ErrKeyNotFound | Some v \<Rightarrow> Inr v) = (Inr w :: db_value res) \<longleftrightarrow> m = Some w"
    for m :: "db_value option" and w
    by (cases m) auto
  have dist: "distinct (map fst (map (\<lambda>k. (k, Inr (the (map_of d k)) :: db_value res))
        (sorted_list_of_set {k \<in> fst ` set d. prefix p k})))" for d :: "(string \<times> db_value) list" and p
    by (simp add: comp_def)
  show ?thesis
    unfolding badger_ok_def badger_ref_def badger.simps
    using it dist by (auto simp: map_of_filter_key get)
qed

subsection \<open>sortedset\<close>

text \<open>
  \<open>SortedSet\<close>: nodes with a key, a score and a value, at most one per key, kept in ascending
  order of score with ties broken by the key. \<open>AddOrUpdate\<close> adds a node or replaces the node with
  its key; \<open>GetByRankRange\<close> takes 1-based ranks, negative ranks counted from the highest, and
  returns the nodes in descending order when the first rank is above the second. \<open>nodes\<close> is the
  node list in rank order.
\<close>

record ('s, 'v) sortedset =
  ss_New :: 's
  ss_GetCount :: "'s \<Rightarrow> int"
  ss_AddOrUpdate :: "'s \<Rightarrow> string \<Rightarrow> int \<Rightarrow> 'v \<Rightarrow> 's"
  ss_Remove :: "'s \<Rightarrow> string \<Rightarrow> 's"
  ss_GetByRankRange :: "'s \<Rightarrow> int \<Rightarrow> int \<Rightarrow> 'v list"

type_synonym 'v node = "string \<times> int \<times> 'v"

fun node_less :: "'v node \<Rightarrow> 'v node \<Rightarrow> bool" where
  "node_less (k1, s1, v1) (k2, s2, v2) \<longleftrightarrow> s1 < s2 \<or> s1 = s2 \<and> k1 < k2"

abbreviation node_key :: "'v node \<Rightarrow> string" where "node_key \<equiv> fst"
abbreviation node_score :: "'v node \<Rightarrow> int" where "node_score n \<equiv> fst (snd n)"
abbreviation node_value :: "'v node \<Rightarrow> 'v" where "node_value n \<equiv> snd (snd n)"

definition rank_pos :: "nat \<Rightarrow> int \<Rightarrow> int" where
  "rank_pos n r = (if r < 0 then int n + r + 1 else r)"

definition rank_slice :: "'a list \<Rightarrow> int \<Rightarrow> int \<Rightarrow> 'a list" where
  "rank_slice xs i j = take (nat (j - i + 1)) (drop (nat (i - 1)) xs)"

definition sortedset_ok :: "('s, 'v) sortedset \<Rightarrow> ('s \<Rightarrow> 'v node list) \<Rightarrow> bool" where
  "sortedset_ok S nodes \<longleftrightarrow>
     nodes (ss_New S) = [] \<and>
     (\<forall>s. ss_GetCount S s = int (length (nodes s))) \<and>
     (\<forall>s. sorted_wrt node_less (nodes s) \<and> distinct (map node_key (nodes s))) \<and>
     (\<forall>s k sc v. set (nodes (ss_AddOrUpdate S s k sc v))
        = insert (k, sc, v) {n \<in> set (nodes s). node_key n \<noteq> k}) \<and>
     (\<forall>s k. set (nodes (ss_Remove S s k)) = {n \<in> set (nodes s). node_key n \<noteq> k}) \<and>
     (\<forall>s a b. nodes s = [] \<longrightarrow> ss_GetByRankRange S s a b = []) \<and>
     (\<forall>s a b. let n = length (nodes s); i = rank_pos n a; j = rank_pos n b in
        1 \<le> i \<and> i \<le> int n \<and> 1 \<le> j \<and> j \<le> int n \<longrightarrow>
        ss_GetByRankRange S s a b =
          (if i \<le> j then map node_value (rank_slice (nodes s) i j)
           else rev (map node_value (rank_slice (nodes s) j i))))"

lemma node_less_irrefl: "\<not> node_less n n"
  by (cases n) auto

lemma node_less_trans: "node_less a b \<Longrightarrow> node_less b c \<Longrightarrow> node_less a c"
  by (cases a; cases b; cases c) auto

lemma sorted_wrt_same_set:
  assumes "sorted_wrt node_less xs" "sorted_wrt node_less ys" "set xs = set ys"
  shows "xs = ys"
  using assms
proof (induction xs arbitrary: ys)
  case Nil
  then show ?case by simp
next
  case (Cons x xs)
  then obtain y zs where ys: "ys = y # zs" by (cases ys) auto
  have eq: "x = y"
  proof (rule ccontr)
    assume "x \<noteq> y"
    with Cons.prems ys have "node_less x y" "node_less y x" by auto
    then show False using node_less_trans node_less_irrefl by blast
  qed
  have "x \<notin> set xs" "y \<notin> set zs"
    using Cons.prems(1,2) ys node_less_irrefl by (metis sorted_wrt.simps(2))+
  with Cons.prems ys eq have "set xs = set zs" by auto
  with Cons ys eq show ?case by simp
qed

lemma sortedset_okD:
  assumes "sortedset_ok S nodes"
  shows "nodes (ss_New S) = []"
    "ss_GetCount S s = int (length (nodes s))"
    "sorted_wrt node_less (nodes s)" "distinct (map node_key (nodes s))"
    "set (nodes (ss_AddOrUpdate S s k sc v)) = insert (k, sc, v) {n \<in> set (nodes s). node_key n \<noteq> k}"
    "set (nodes (ss_Remove S s k)) = {n \<in> set (nodes s). node_key n \<noteq> k}"
  using assms by (auto simp: sortedset_ok_def)

text \<open>The two rank ranges the source asks for: all nodes ascending, all nodes descending.\<close>

lemma range_law:
  assumes "sortedset_ok S nodes"
    and "1 \<le> rank_pos (length (nodes s)) a" "rank_pos (length (nodes s)) a \<le> int (length (nodes s))"
    and "1 \<le> rank_pos (length (nodes s)) b" "rank_pos (length (nodes s)) b \<le> int (length (nodes s))"
  shows "ss_GetByRankRange S s a b =
      (if rank_pos (length (nodes s)) a \<le> rank_pos (length (nodes s)) b
       then map node_value (rank_slice (nodes s) (rank_pos (length (nodes s)) a) (rank_pos (length (nodes s)) b))
       else rev (map node_value
         (rank_slice (nodes s) (rank_pos (length (nodes s)) b) (rank_pos (length (nodes s)) a))))"
  using assms unfolding sortedset_ok_def Let_def by blast

lemma range_ascending:
  assumes "sortedset_ok S nodes"
  shows "ss_GetByRankRange S s 1 (-1) = map node_value (nodes s)"
proof (cases "nodes s = []")
  case True
  with assms show ?thesis by (simp add: sortedset_ok_def)
next
  case False
  then have "1 \<le> length (nodes s)" by (cases "nodes s") auto
  then show ?thesis
    using range_law [OF assms, of s 1 "-1"] by (simp add: rank_pos_def rank_slice_def)
qed

lemma range_descending:
  assumes "sortedset_ok S nodes"
  shows "ss_GetByRankRange S s (-1) (- ss_GetCount S s) = rev (map node_value (nodes s))"
proof (cases "nodes s = []")
  case True
  with assms show ?thesis by (simp add: sortedset_ok_def)
next
  case False
  let ?n = "length (nodes s)"
  have n: "1 \<le> ?n" using False by (cases "nodes s") auto
  have pos: "rank_pos ?n (-1) = int ?n" "rank_pos ?n (- int ?n) = 1"
    using n by (auto simp: rank_pos_def)
  have law: "ss_GetByRankRange S s (-1) (- int ?n)
      = (if int ?n \<le> 1 then map node_value (rank_slice (nodes s) (int ?n) 1)
         else rev (map node_value (rank_slice (nodes s) 1 (int ?n))))"
    using range_law [OF assms, of s "-1" "- int ?n"] n unfolding pos by simp
  have "ss_GetByRankRange S s (-1) (- int ?n) = rev (map node_value (nodes s))"
  proof (cases "?n = 1")
    case True
    then obtain x where "nodes s = [x]" by (metis One_nat_def length_0_conv length_Suc_conv)
    with law show ?thesis by (simp add: rank_slice_def)
  next
    case False
    with n law show ?thesis by (simp add: rank_slice_def)
  qed
  then show ?thesis using sortedset_okD(2) [OF assms] by simp
qed

text \<open>
  The reference instance: the history of additions, latest first; \<open>ss_nodes\<close> keeps the latest
  addition per key and orders the nodes.
\<close>

fun insert_node :: "'v node \<Rightarrow> 'v node list \<Rightarrow> 'v node list" where
  "insert_node n [] = [n]"
| "insert_node n (m # ms) = (if node_less n m then n # m # ms else m # insert_node n ms)"

fun ss_nodes :: "'v node list \<Rightarrow> 'v node list" where
  "ss_nodes [] = []"
| "ss_nodes (n # ns) = insert_node n (filter (\<lambda>m. node_key m \<noteq> node_key n) (ss_nodes ns))"

definition ss_ref_range :: "'v node list \<Rightarrow> int \<Rightarrow> int \<Rightarrow> 'v list" where
  "ss_ref_range s a b =
     (let ns = ss_nodes s; i = rank_pos (length ns) a; j = rank_pos (length ns) b in
      if i \<le> j then map node_value (rank_slice ns i j) else rev (map node_value (rank_slice ns j i)))"

definition sortedset_ref :: "('v node list, 'v) sortedset" where
  "sortedset_ref = \<lparr>
     ss_New = [],
     ss_GetCount = (\<lambda>s. int (length (ss_nodes s))),
     ss_AddOrUpdate = (\<lambda>s k sc v. (k, sc, v) # s),
     ss_Remove = (\<lambda>s k. filter (\<lambda>m. node_key m \<noteq> k) s),
     ss_GetByRankRange = ss_ref_range\<rparr>"

lemma set_insert_node [simp]: "set (insert_node n ms) = insert n (set ms)"
  by (induction ms) auto

lemma sorted_insert_node:
  "sorted_wrt node_less ms \<Longrightarrow> node_key n \<notin> node_key ` set ms \<Longrightarrow>
    sorted_wrt node_less (insert_node n ms)"
proof (induction ms)
  case Nil
  then show ?case by simp
next
  case (Cons m ms)
  show ?case
  proof (cases "node_less n m")
    case True
    then have "\<forall>m' \<in> set ms. node_less n m'"
      using Cons.prems(1) node_less_trans [of n m] by (metis sorted_wrt.simps(2))
    with True Cons.prems show ?thesis by simp
  next
    case False
    with Cons.prems(2) have "node_less m n"
      by (cases m; cases n) auto
    with Cons False show ?thesis by auto
  qed
qed

lemma distinct_insert_node:
  "distinct (map node_key ms) \<Longrightarrow> node_key n \<notin> node_key ` set ms \<Longrightarrow>
    distinct (map node_key (insert_node n ms))"
  by (induction ms) auto

lemma ss_nodes_ordered: "sorted_wrt node_less (ss_nodes s) \<and> distinct (map node_key (ss_nodes s))"
proof (induction s)
  case Nil
  then show ?case by simp
next
  case (Cons n s)
  let ?ms = "filter (\<lambda>m. node_key m \<noteq> node_key n) (ss_nodes s)"
  have "sorted_wrt node_less ?ms" "distinct (map node_key ?ms)"
    using Cons by (auto simp: sorted_wrt_filter distinct_map inj_on_def)
  moreover have "node_key n \<notin> node_key ` set ?ms" by auto
  ultimately show ?case
    unfolding ss_nodes.simps by (intro conjI sorted_insert_node distinct_insert_node)
qed

lemma set_ss_nodes_filter:
  "set (ss_nodes (filter (\<lambda>m. node_key m \<noteq> k) s)) = {n \<in> set (ss_nodes s). node_key n \<noteq> k}"
  by (induction s) auto

lemma sortedset_ref_ok: "sortedset_ok sortedset_ref ss_nodes"
proof -
  have "ss_nodes s = [] \<Longrightarrow> ss_ref_range s a b = ([] :: 'v list)" for s :: "'v node list" and a b
    by (simp add: ss_ref_range_def rank_slice_def Let_def)
  then show ?thesis
    unfolding sortedset_ok_def sortedset_ref_def sortedset.simps
    by (intro conjI allI impI) (simp_all add: ss_nodes_ordered set_ss_nodes_filter ss_ref_range_def rank_slice_def Let_def,
      auto?)
qed

end
