(* ===== verification/UserOp.thy ===== *)
theory UserOp
  imports Ext
begin

text \<open>
  \<open>pkg/userop\<close>: the UserOperation object, its derived gas values, its encodings and its
  construction from a decoded JSON map (\<open>object.go\<close>, \<open>parse.go\<close>, \<open>intent.go\<close>).

  The ABI encoder, the struct decoder \<open>mapstructure\<close> and the intent classifier
  \<open>blndgs/model\<close> are parameters (\<open>userop_lib\<close>). \<open>big.Int\<close> fields are integers, byte slices
  lists of bytes.
\<close>

subsection \<open>The object\<close>

record user_op =
  Sender :: address
  Nonce :: int
  InitCode :: bytes
  CallData :: bytes
  CallGasLimit :: int
  VerificationGasLimit :: int
  PreVerificationGas :: int
  MaxFeePerGas :: int
  MaxPriorityFeePerGas :: int
  PaymasterAndData :: bytes
  Signature :: bytes

definition GetPaymaster :: "user_op \<Rightarrow> address" where
  "GetPaymaster op =
     (if length (PaymasterAndData op) < 20 then 0
      else address_of_bytes (take 20 (PaymasterAndData op)))"

definition GetFactory :: "user_op \<Rightarrow> address" where
  "GetFactory op =
     (if length (InitCode op) < 20 then 0 else address_of_bytes (take 20 (InitCode op)))"

definition GetMaxGasAvailable :: "user_op \<Rightarrow> int" where
  "GetMaxGasAvailable op =
     (let mul = (if GetPaymaster op \<noteq> 0 then 3 else 1)
      in VerificationGasLimit op * mul + (PreVerificationGas op + CallGasLimit op))"

definition GetMaxPrefund :: "user_op \<Rightarrow> int" where
  "GetMaxPrefund op = GetMaxGasAvailable op * MaxFeePerGas op"

text \<open>A nil \<open>*big.Int\<close> is \<open>None\<close>.\<close>

definition GetDynamicGasPrice :: "user_op \<Rightarrow> int option \<Rightarrow> int" where
  "GetDynamicGasPrice op basefee =
     (let bf = (case basefee of None \<Rightarrow> 0 | Some b \<Rightarrow> b);
          gp = bf + MaxPriorityFeePerGas op
      in if gp > MaxFeePerGas op then MaxFeePerGas op else gp)"

subsection \<open>Encodings\<close>

text \<open>
  The status \<open>model.UserOperation.Validate\<close> returns: the two the source compares with, and any
  other one. \<open>abi_pack_op\<close> is the ABI encoding of the tuple, \<open>abi_pack_sig\<close> the encoding of the
  ten static values of \<open>PackForSignature\<close>. \<open>ms_address\<close>, \<open>ms_big\<close> and \<open>ms_bytes\<close> are what
  \<open>mapstructure\<close> decodes a value to that the hook left alone, \<open>ms_join\<close> the message of its
  combined error.
\<close>

datatype op_status = UnsolvedUserOp | SolvedUserOp | OtherUserOp

record userop_lib = eth_lib +
  abi_pack_op :: "user_op \<Rightarrow> bytes"
  abi_pack_sig :: "address \<Rightarrow> int \<Rightarrow> hash \<Rightarrow> hash \<Rightarrow> int list \<Rightarrow> hash \<Rightarrow> bytes"
  ms_address :: "json \<Rightarrow> address res"
  ms_big :: "json \<Rightarrow> int option res"
  ms_bytes :: "json \<Rightarrow> bytes option res"
  ms_join :: "string list \<Rightarrow> string"
  model_HasIntent :: "user_op \<Rightarrow> bool"
  model_Validate :: "user_op \<Rightarrow> op_status res"

text \<open>The tail of the encoding after its first 32 bytes, through the hexadecimal text.\<close>

definition Pack :: "'y userop_lib_scheme \<Rightarrow> user_op \<Rightarrow> bytes res" where
  "Pack L op =
     (let enc = hexutil_Encode L (abi_pack_op L op) in
      if length enc < 66 then Inl (Panicked ''slice bounds out of range'')
      else (case hexutil_Decode L (''0x'' @ drop 66 enc) of
              Inl e \<Rightarrow> Inl (Panicked (Error e))
            | Inr bs \<Rightarrow> Inr bs))"

definition PackForSignature :: "'y userop_lib_scheme \<Rightarrow> user_op \<Rightarrow> bytes" where
  "PackForSignature L op =
     abi_pack_sig L (Sender op) (Nonce op)
       (Keccak256 L (InitCode op)) (Keccak256 L (CallData op))
       [CallGasLimit op, VerificationGasLimit op, PreVerificationGas op,
        MaxFeePerGas op, MaxPriorityFeePerGas op]
       (Keccak256 L (PaymasterAndData op))"

definition GetUserOpHash :: "'y userop_lib_scheme \<Rightarrow> user_op \<Rightarrow> address \<Rightarrow> int \<Rightarrow> hash" where
  "GetUserOpHash L op entryPoint chainID =
     Keccak256 L
       (Keccak256 L (PackForSignature L op) @
        LeftPadBytes (address_bytes entryPoint) 32 @
        LeftPadBytes (big_bytes chainID) 32)"

text \<open>
  \<open>MarshalJSON\<close> writes an object of eleven strings; \<open>ToMap\<close> reads the text back into a map.
  The strings hold no character that JSON escapes, so the map is the object.
\<close>

definition MarshalJSON :: "'y userop_lib_scheme \<Rightarrow> user_op \<Rightarrow> (string \<times> json) list" where
  "MarshalJSON L op =
    [(''sender'', JStr (AddressString L (Sender op))),
     (''nonce'', JStr (EncodeBig L (Nonce op))),
     (''initCode'', JStr (hexutil_Encode L (InitCode op))),
     (''callData'', JStr (hexutil_Encode L (CallData op))),
     (''callGasLimit'', JStr (EncodeBig L (CallGasLimit op))),
     (''verificationGasLimit'', JStr (EncodeBig L (VerificationGasLimit op))),
     (''preVerificationGas'', JStr (EncodeBig L (PreVerificationGas op))),
     (''maxFeePerGas'', JStr (EncodeBig L (MaxFeePerGas op))),
     (''maxPriorityFeePerGas'', JStr (EncodeBig L (MaxPriorityFeePerGas op))),
     (''paymasterAndData'', JStr (hexutil_Encode L (PaymasterAndData op))),
     (''signature'', JStr (hexutil_Encode L (Signature op)))]"

definition ToMap :: "'y userop_lib_scheme \<Rightarrow> user_op \<Rightarrow> obj" where
  "ToMap L op = map_of (MarshalJSON L op)"

subsection \<open>Parsing\<close>

text \<open>The kinds of \<open>reflect\<close> that the decode hook tests, and what it returns.\<close>

datatype kind = KString | KFloat64 | KArray | KStruct | KSlice | KOther

datatype hook_value = HAddress address | HBig int | HBytes bytes | HData json

fun json_kind :: "json \<Rightarrow> kind" where
  "json_kind (JStr s) = KString"
| "json_kind (JNum q) = KFloat64"
| "json_kind (JArr xs) = KSlice"
| "json_kind _ = KOther"

text \<open>\<open>exactFieldMatch\<close>: a map key names a field only if it is equal to its tag.\<close>

definition exactFieldMatch :: "string \<Rightarrow> string \<Rightarrow> bool" where
  "exactFieldMatch mapKey fieldName \<longleftrightarrow> mapKey = fieldName"

definition decodeOpTypes :: "'x eth_lib_scheme \<Rightarrow> kind \<Rightarrow> kind \<Rightarrow> json \<Rightarrow> hook_value res" where
  "decodeOpTypes L f t data =
     (if f = KString \<and> t = KArray then
        (case data of JStr s \<Rightarrow> Inr (HAddress (HexToAddress L s)) | _ \<Rightarrow> Inl (Panicked ''interface conversion''))
      else if f = KString \<and> t = KStruct then
        (case data of
           JStr s \<Rightarrow> (case SetString s of
                        None \<Rightarrow> Inl (GoError ''bigInt conversion failed'')
                      | Some n \<Rightarrow> Inr (HBig n))
         | _ \<Rightarrow> Inl (Panicked ''interface conversion''))
      else if f = KFloat64 \<and> t = KStruct then
        (case data of
           JNum q \<Rightarrow> Inr (HBig (float_to_int64 q))
         | _ \<Rightarrow> Inl (GoError ''bigInt conversion failed''))
      else if f = KString \<and> t = KSlice then
        (case data of
           JStr s \<Rightarrow>
             (if length s < 2 \<or> take 2 s \<noteq> ''0x'' then Inl (GoError ''not byte string'')
              else (case hex_Decode (drop 2 s) of Inl e \<Rightarrow> Inl e | Inr b \<Rightarrow> Inr (HBytes b)))
         | _ \<Rightarrow> Inl (Panicked ''interface conversion''))
      else Inr (HData data))"

text \<open>
  The decoder reads each field of the struct from the map (a missing key is an error, since
  \<open>ErrorUnset\<close> is set; other keys are ignored), through the hook; a nil pointer or slice is
  \<open>None\<close>. It collects the errors of all fields.
\<close>

definition field_value :: "obj \<Rightarrow> string \<Rightarrow> (json \<Rightarrow> 'a res) \<Rightarrow> 'a res" where
  "field_value data key dec =
     (case data key of None \<Rightarrow> Inl (GoError (''unset field: '' @ key)) | Some v \<Rightarrow> dec v)"

definition decode_address :: "'y userop_lib_scheme \<Rightarrow> json \<Rightarrow> address res" where
  "decode_address L v =
     (case decodeOpTypes L (json_kind v) KArray v of
        Inl e \<Rightarrow> Inl e
      | Inr h \<Rightarrow> (case h of HAddress a \<Rightarrow> Inr a | HData d \<Rightarrow> ms_address L d
                  | _ \<Rightarrow> Inl (GoError ''type mismatch'')))"

definition decode_big :: "'y userop_lib_scheme \<Rightarrow> json \<Rightarrow> int option res" where
  "decode_big L v =
     (case decodeOpTypes L (json_kind v) KStruct v of
        Inl e \<Rightarrow> Inl e
      | Inr h \<Rightarrow> (case h of HBig n \<Rightarrow> Inr (Some n) | HData d \<Rightarrow> ms_big L d
                  | _ \<Rightarrow> Inl (GoError ''type mismatch'')))"

definition decode_bytes :: "'y userop_lib_scheme \<Rightarrow> json \<Rightarrow> bytes option res" where
  "decode_bytes L v =
     (case decodeOpTypes L (json_kind v) KSlice v of
        Inl e \<Rightarrow> Inl e
      | Inr h \<Rightarrow> (case h of HBytes b \<Rightarrow> Inr (Some b) | HData d \<Rightarrow> ms_bytes L d
                  | _ \<Rightarrow> Inl (GoError ''type mismatch'')))"

text \<open>The struct as decoded, before validation.\<close>

record raw_op =
  raw_sender :: "address res"
  raw_nonce :: "int option res"
  raw_initCode :: "bytes option res"
  raw_callData :: "bytes option res"
  raw_callGasLimit :: "int option res"
  raw_verificationGasLimit :: "int option res"
  raw_preVerificationGas :: "int option res"
  raw_maxFeePerGas :: "int option res"
  raw_maxPriorityFeePerGas :: "int option res"
  raw_paymasterAndData :: "bytes option res"
  raw_signature :: "bytes option res"

definition decode_op :: "'y userop_lib_scheme \<Rightarrow> obj \<Rightarrow> raw_op" where
  "decode_op L data = \<lparr>
     raw_sender = field_value data ''sender'' (decode_address L),
     raw_nonce = field_value data ''nonce'' (decode_big L),
     raw_initCode = field_value data ''initCode'' (decode_bytes L),
     raw_callData = field_value data ''callData'' (decode_bytes L),
     raw_callGasLimit = field_value data ''callGasLimit'' (decode_big L),
     raw_verificationGasLimit = field_value data ''verificationGasLimit'' (decode_big L),
     raw_preVerificationGas = field_value data ''preVerificationGas'' (decode_big L),
     raw_maxFeePerGas = field_value data ''maxFeePerGas'' (decode_big L),
     raw_maxPriorityFeePerGas = field_value data ''maxPriorityFeePerGas'' (decode_big L),
     raw_paymasterAndData = field_value data ''paymasterAndData'' (decode_bytes L),
     raw_signature = field_value data ''signature'' (decode_bytes L)\<rparr>"

fun res_error :: "'a res \<Rightarrow> go_error list" where
  "res_error (Inl e) = [e]"
| "res_error (Inr x) = []"

definition raw_errors :: "raw_op \<Rightarrow> go_error list" where
  "raw_errors r =
     res_error (raw_sender r) @ res_error (raw_nonce r) @ res_error (raw_initCode r) @
     res_error (raw_callData r) @ res_error (raw_callGasLimit r) @
     res_error (raw_verificationGasLimit r) @ res_error (raw_preVerificationGas r) @
     res_error (raw_maxFeePerGas r) @ res_error (raw_maxPriorityFeePerGas r) @
     res_error (raw_paymasterAndData r) @ res_error (raw_signature r)"

definition ErrBadUserOperationData :: string where
  "ErrBadUserOperationData = ''cannot decode UserOperation''"

text \<open>The custom types of the validator: the zero address and a negative integer count as nil.\<close>

definition validateAddressType :: "address \<Rightarrow> address option" where
  "validateAddressType a = (if a = 0 then None else Some a)"

definition validateBigIntType :: "int \<Rightarrow> int option" where
  "validateBigIntType n = (if n < 0 then None else Some n)"

definition required_big :: "int option res \<Rightarrow> int option" where
  "required_big r = (case r of Inr (Some n) \<Rightarrow> validateBigIntType n | _ \<Rightarrow> None)"

definition required_bytes :: "bytes option res \<Rightarrow> bytes option" where
  "required_bytes r = (case r of Inr (Some b) \<Rightarrow> Some b | _ \<Rightarrow> None)"

definition required_address :: "address res \<Rightarrow> address option" where
  "required_address r = (case r of Inr a \<Rightarrow> validateAddressType a | _ \<Rightarrow> None)"

definition validate_op :: "raw_op \<Rightarrow> user_op option" where
  "validate_op r =
     (case (required_address (raw_sender r), required_big (raw_nonce r),
            required_bytes (raw_initCode r), required_bytes (raw_callData r),
            required_big (raw_callGasLimit r), required_big (raw_verificationGasLimit r),
            required_big (raw_preVerificationGas r), required_big (raw_maxFeePerGas r),
            required_big (raw_maxPriorityFeePerGas r), required_bytes (raw_paymasterAndData r),
            required_bytes (raw_signature r)) of
        (Some s, Some n, Some ic, Some cd, Some cgl, Some vgl, Some pvg, Some mf, Some mpf, Some pm, Some sg) \<Rightarrow>
          Some \<lparr>Sender = s, Nonce = n, InitCode = ic, CallData = cd, CallGasLimit = cgl,
                VerificationGasLimit = vgl, PreVerificationGas = pvg, MaxFeePerGas = mf,
                MaxPriorityFeePerGas = mpf, PaymasterAndData = pm, Signature = sg\<rparr>
      | _ \<Rightarrow> None)"

definition New_userop :: "'y userop_lib_scheme \<Rightarrow> obj \<Rightarrow> user_op res" where
  "New_userop L data =
     (let r = decode_op L data; errs = raw_errors r in
      if errs \<noteq> [] then
        (case find (\<lambda>e. case e of Panicked s \<Rightarrow> True | _ \<Rightarrow> False) errs of
           Some p \<Rightarrow> Inl p
         | None \<Rightarrow> Inl (GoError (ErrBadUserOperationData @ '': '' @ ms_join L (map Error errs))))
      else (case validate_op r of
              None \<Rightarrow> Inl (GoError ''Error:Field validation failed on the 'required' tag'')
            | Some op \<Rightarrow> Inr op))"

subsection \<open>Intents\<close>

definition HasIntent :: "'y userop_lib_scheme \<Rightarrow> user_op \<Rightarrow> bool" where
  "HasIntent L op = model_HasIntent L op"

definition IsUnsolvedIntent :: "'y userop_lib_scheme \<Rightarrow> user_op \<Rightarrow> bool" where
  "IsUnsolvedIntent L op = (case model_Validate L op of Inl e \<Rightarrow> False | Inr st \<Rightarrow> st = UnsolvedUserOp)"

definition IsSolvedIntent :: "'y userop_lib_scheme \<Rightarrow> user_op \<Rightarrow> bool" where
  "IsSolvedIntent L op = (case model_Validate L op of Inl e \<Rightarrow> False | Inr st \<Rightarrow> st = SolvedUserOp)"

subsection \<open>Well-formed operations\<close>

text \<open>What the validator guarantees: a sender, and no negative integer.\<close>

definition wf_op :: "user_op \<Rightarrow> bool" where
  "wf_op op \<longleftrightarrow>
     Sender op \<noteq> 0 \<and> 0 \<le> Nonce op \<and> 0 \<le> CallGasLimit op \<and> 0 \<le> VerificationGasLimit op \<and>
     0 \<le> PreVerificationGas op \<and> 0 \<le> MaxFeePerGas op \<and> 0 \<le> MaxPriorityFeePerGas op"

lemmas required_defs = required_big_def required_bytes_def required_address_def
  validateAddressType_def validateBigIntType_def

lemma required_big_Some: "required_big r = Some n \<longleftrightarrow> r = Inr (Some n) \<and> 0 \<le> n"
  by (auto simp: required_defs split: sum.splits option.splits if_splits)

lemma required_address_Some: "required_address r = Some a \<longleftrightarrow> r = Inr a \<and> a \<noteq> 0"
  by (auto simp: required_defs split: sum.splits if_splits)

lemma validate_op_wf: "validate_op r = Some op \<Longrightarrow> wf_op op"
  by (auto simp: validate_op_def wf_op_def required_big_Some required_address_Some
      split: option.splits)

lemma decode_address_string:
  "eth_lib_ok L \<Longrightarrow> decode_address L (JStr (AddressString L a)) = Inr a"
  by (simp add: decode_address_def decodeOpTypes_def eth_lib_okD)

lemma decode_big_string:
  "eth_lib_ok L \<Longrightarrow> 0 \<le> n \<Longrightarrow> decode_big L (JStr (EncodeBig L n)) = Inr (Some n)"
  by (simp add: decode_big_def decodeOpTypes_def eth_lib_okD)

lemma decode_bytes_string:
  "eth_lib_ok L \<Longrightarrow> decode_bytes L (JStr (hexutil_Encode L b)) = Inr (Some b)"
  by (simp add: decode_bytes_def decodeOpTypes_def eth_lib_okD hex_Decode_Encode)

lemmas decode_strings = decode_address_string decode_big_string decode_bytes_string

definition raw_of :: "user_op \<Rightarrow> raw_op" where
  "raw_of op = \<lparr>
     raw_sender = Inr (Sender op), raw_nonce = Inr (Some (Nonce op)),
     raw_initCode = Inr (Some (InitCode op)), raw_callData = Inr (Some (CallData op)),
     raw_callGasLimit = Inr (Some (CallGasLimit op)),
     raw_verificationGasLimit = Inr (Some (VerificationGasLimit op)),
     raw_preVerificationGas = Inr (Some (PreVerificationGas op)),
     raw_maxFeePerGas = Inr (Some (MaxFeePerGas op)),
     raw_maxPriorityFeePerGas = Inr (Some (MaxPriorityFeePerGas op)),
     raw_paymasterAndData = Inr (Some (PaymasterAndData op)),
     raw_signature = Inr (Some (Signature op))\<rparr>"

lemma field_value_Some: "data key = Some v \<Longrightarrow> field_value data key dec = dec v"
  by (simp add: field_value_def)

lemma decode_op_ToMap:
  assumes "eth_lib_ok L" "wf_op op"
  shows "decode_op L (ToMap L op) = raw_of op"
  using assms
  by (simp add: decode_op_def raw_of_def ToMap_def MarshalJSON_def field_value_Some decode_strings wf_op_def)

lemma raw_errors_raw_of: "raw_errors (raw_of op) = []"
  by (simp add: raw_errors_def raw_of_def)

lemma validate_raw_of: "wf_op op \<Longrightarrow> validate_op (raw_of op) = Some op"
  by (simp add: validate_op_def raw_of_def wf_op_def required_defs)

lemma New_userop_ToMap:
  assumes "eth_lib_ok L" "wf_op op"
  shows "New_userop L (ToMap L op) = Inr op"
  using assms by (simp add: New_userop_def decode_op_ToMap raw_errors_raw_of validate_raw_of)

lemma New_userop_Inr:
  "New_userop L data = Inr op \<Longrightarrow>
    raw_errors (decode_op L data) = [] \<and> validate_op (decode_op L data) = Some op"
  by (auto simp: New_userop_def Let_def split: if_splits option.splits)

lemma New_userop_wf: "New_userop L data = Inr op \<Longrightarrow> wf_op op"
  by (metis New_userop_Inr validate_op_wf)

lemma New_userop_missing_key:
  assumes "data key = None"
    and "key \<in> {''sender'', ''nonce'', ''initCode'', ''callData'', ''callGasLimit'',
      ''verificationGasLimit'', ''preVerificationGas'', ''maxFeePerGas'', ''maxPriorityFeePerGas'',
      ''paymasterAndData'', ''signature''}"
  shows "\<exists>e. New_userop L data = Inl e"
proof -
  have "raw_errors (decode_op L data) \<noteq> []"
    using assms by (auto simp: raw_errors_def decode_op_def field_value_def)
  then have "New_userop L data \<noteq> Inr op" for op
    using New_userop_Inr by blast
  then show ?thesis by (cases "New_userop L data") auto
qed

subsection \<open>Gas values\<close>

lemma GetDynamicGasPrice_min:
  "GetDynamicGasPrice op basefee
    = min (MaxFeePerGas op) ((case basefee of None \<Rightarrow> 0 | Some b \<Rightarrow> b) + MaxPriorityFeePerGas op)"
  by (auto simp: GetDynamicGasPrice_def Let_def)

lemma GetMaxGasAvailable_ge:
  assumes "wf_op op"
  shows "VerificationGasLimit op + PreVerificationGas op + CallGasLimit op \<le> GetMaxGasAvailable op"
    and "GetMaxGasAvailable op
      \<le> 3 * VerificationGasLimit op + PreVerificationGas op + CallGasLimit op"
  using assms by (auto simp: GetMaxGasAvailable_def wf_op_def)

lemma GetMaxPrefund_nonneg: "wf_op op \<Longrightarrow> 0 \<le> GetMaxPrefund op"
  using GetMaxGasAvailable_ge(1) [of op] by (auto simp: GetMaxPrefund_def wf_op_def)

subsection \<open>A reference instance of the packages\<close>

definition userop_ref :: userop_lib where
  "userop_ref = \<lparr>
     HexToAddress = HexToAddress eth_ref, AddressString = AddressString eth_ref,
     EncodeBig = EncodeBig eth_ref, hexutil_Encode = hexutil_Encode eth_ref,
     hexutil_Decode = hexutil_Decode eth_ref, Keccak256 = Keccak256 eth_ref,
     abi_pack_op = (\<lambda>op. replicate 32 0 @ InitCode op @ CallData op),
     abi_pack_sig = (\<lambda>a n h1 h2 ns h3. address_bytes a @ big_bytes n @ h1 @ h2 @ concat (map big_bytes ns) @ h3),
     ms_address = (\<lambda>v. Inl (GoError ''expected type address'')),
     ms_big = (\<lambda>v. Inl (GoError ''expected type big.Int'')),
     ms_bytes = (\<lambda>v. Inl (GoError ''expected type []byte'')),
     ms_join = concat,
     model_HasIntent = (\<lambda>op. take 1 (CallData op) = [123]),
     model_Validate = (\<lambda>op. Inr (if take 1 (CallData op) = [123] then UnsolvedUserOp else OtherUserOp))\<rparr>"

lemma userop_ref_ok: "eth_lib_ok userop_ref"
  using eth_ref_ok by (simp add: eth_lib_ok_def userop_ref_def) metis

text \<open>An operation used in the witnesses.\<close>

definition sample_op :: "address \<Rightarrow> int \<Rightarrow> user_op" where
  "sample_op a n = \<lparr>Sender = a, Nonce = n, InitCode = [], CallData = [1, 2], CallGasLimit = 50000,
     VerificationGasLimit = 60000, PreVerificationGas = 45000, MaxFeePerGas = 30, MaxPriorityFeePerGas = 2,
     PaymasterAndData = [], Signature = [7]\<rparr>"

lemma sample_op_key [simp]: "Sender (sample_op a n) = a" "Nonce (sample_op a n) = n"
  by (simp_all add: sample_op_def)

lemma sample_op_wf: "a \<noteq> 0 \<Longrightarrow> 0 \<le> n \<Longrightarrow> wf_op (sample_op a n)"
  by (simp add: wf_op_def sample_op_def)

subsection \<open>Properties\<close>

text \<open>
  C3: parsing the map form of an operation gives the operation back, for every operation that the
  validator accepts.
\<close>

theorem userop_roundtrip:
  assumes "eth_lib_ok L" "wf_op op"
  shows "New_userop L (ToMap L op) = Inr op"
  by (rule New_userop_ToMap [OF assms])

theorem userop_roundtrip_witness:
  "New_userop userop_ref (ToMap userop_ref (sample_op 5 3)) = Inr (sample_op 5 3)"
  by (rule userop_roundtrip) (simp_all add: userop_ref_ok sample_op_wf)

text \<open>
  C5: an operation accepted by \<open>New\<close> has a sender and no negative integer field, so its gas
  available is bounded by its limits (the verification gas counted three times with a paymaster)
  and its prefund is not negative; a map that lacks a field is refused.
\<close>

theorem New_userop_validates:
  "(\<forall>op. New_userop L data = Inr op \<longrightarrow>
      wf_op op \<and> 0 \<le> GetMaxPrefund op \<and>
      VerificationGasLimit op + PreVerificationGas op + CallGasLimit op \<le> GetMaxGasAvailable op \<and>
      GetMaxGasAvailable op \<le> 3 * VerificationGasLimit op + PreVerificationGas op + CallGasLimit op) \<and>
   (\<forall>kv \<in> set (MarshalJSON L any). data (fst kv) = None \<longrightarrow> (\<exists>e. New_userop L data = Inl e))"
proof (intro conjI allI impI ballI)
  fix kv assume "kv \<in> set (MarshalJSON L any)" "data (fst kv) = None"
  then show "\<exists>e. New_userop L data = Inl e"
    by (intro New_userop_missing_key [of data "fst kv"]) (auto simp: MarshalJSON_def)
qed (auto dest!: New_userop_wf simp: GetMaxPrefund_nonneg GetMaxGasAvailable_ge)

theorem New_userop_validates_witness:
  "wf_op (sample_op 5 3) \<and> (\<exists>e. New_userop userop_ref Map.empty = Inl e)"
  using New_userop_validates [of userop_ref "ToMap userop_ref (sample_op 5 3)" "sample_op 5 3"]
    New_userop_validates [of userop_ref Map.empty "sample_op 5 3"]
    New_userop_ToMap [OF userop_ref_ok sample_op_wf [of 5 3]]
  by (auto simp: MarshalJSON_def)

end
