(* ===== verification/Reverts.thy ===== *)
theory Reverts
  imports UserOp
begin

text \<open>
  \<open>pkg/errors\<close> and \<open>pkg/entrypoint/reverts\<close>: RPC errors and the decoding of what the EntryPoint
  reverts with. The ABI decoder (\<open>abi.Error.Unpack\<close>, by the name of the error), the JSON copy of a
  decoded tuple into a struct and the printing of a JSON value are parameters (\<open>rev_lib\<close>).
\<close>

subsection \<open>Error codes\<close>

definition REJECTED_BY_EP_OR_ACCOUNT :: int where "REJECTED_BY_EP_OR_ACCOUNT = -32500"
definition REJECTED_BY_PAYMASTER :: int where "REJECTED_BY_PAYMASTER = -32501"
definition BANNED_OPCODE :: int where "BANNED_OPCODE = -32502"
definition SHORT_DEADLINE :: int where "SHORT_DEADLINE = -32503"
definition INVALID_SIGNATURE :: int where "INVALID_SIGNATURE = -32507"
definition INVALID_FIELDS :: int where "INVALID_FIELDS = -32602"
definition EXECUTION_REVERTED :: int where "EXECUTION_REVERTED = -32521"

definition NewRPCError :: "int \<Rightarrow> string \<Rightarrow> err_data \<Rightarrow> go_error" where
  "NewRPCError code message data = RPCError code message data"

fun RPCError_Data :: "go_error \<Rightarrow> err_data option" where
  "RPCError_Data (RPCError c m d) = Some d"
| "RPCError_Data _ = None"

fun RPCError_Code :: "go_error \<Rightarrow> int option" where
  "RPCError_Code (RPCError c m d) = Some c"
| "RPCError_Code _ = None"

text \<open>The type assertion \<open>err.(rpc.DataError)\<close> and \<open>ErrorData\<close>; a nil error is \<open>None\<close>.\<close>

fun ErrorData :: "go_error option \<Rightarrow> json option" where
  "ErrorData (Some (DataError s d)) = Some d"
| "ErrorData (Some (HexDataError s)) = Some (JStr s)"
| "ErrorData _ = None"

definition err_string :: "go_error option \<Rightarrow> string" where
  "err_string err = (case err of None \<Rightarrow> ''%!s(<nil>)'' | Some e \<Rightarrow> Error e)"

text \<open>\<open>common.Hex2Bytes\<close> ignores the error of the decoder and keeps the bytes before it.\<close>

fun Hex2Bytes :: "string \<Rightarrow> bytes" where
  "Hex2Bytes (a # b # cs) =
     (case hex_Decode [a, b] of Inl e \<Rightarrow> [] | Inr bs \<Rightarrow> bs @ Hex2Bytes cs)"
| "Hex2Bytes _ = []"

subsection \<open>Decoded values\<close>

record return_info =
  ri_PreOpGas :: int
  ri_Prefund :: int
  ri_SigFailed :: bool
  ri_ValidAfter :: int
  ri_ValidUntil :: int
  ri_PaymasterContext :: bytes

record stake_info =
  si_Stake :: int
  si_UnstakeDelaySec :: int

datatype abi_value = ABig int | AStr string | ABool bool | ABytes bytes | AReturn return_info | AStake stake_info

datatype abi_out = ArgList "abi_value list" | NotArgs

record rev_lib = userop_lib +
  abi_error_Unpack :: "string \<Rightarrow> bytes \<Rightarrow> abi_out res"
  json_return_info :: "abi_value \<Rightarrow> return_info res"
  json_stake_info :: "abi_value \<Rightarrow> stake_info res"
  Sprint_json :: "json \<Rightarrow> string"
  ParseHexOrString :: "string \<Rightarrow> bytes res"

definition as_big :: "abi_value \<Rightarrow> int res" where
  "as_big v = (case v of ABig n \<Rightarrow> Inr n | _ \<Rightarrow> Inl (Panicked ''interface conversion''))"

definition as_string :: "abi_value \<Rightarrow> string res" where
  "as_string v = (case v of AStr s \<Rightarrow> Inr s | _ \<Rightarrow> Inl (Panicked ''interface conversion''))"

definition as_bool :: "abi_value \<Rightarrow> bool res" where
  "as_bool v = (case v of ABool b \<Rightarrow> Inr b | _ \<Rightarrow> Inl (Panicked ''interface conversion''))"

definition as_bytes :: "abi_value \<Rightarrow> bytes res" where
  "as_bytes v = (case v of ABytes b \<Rightarrow> Inr b | _ \<Rightarrow> Inl (Panicked ''interface conversion''))"

subsection \<open>pkg/errors\<close>

definition DecodePanic :: "'y rev_lib_scheme \<Rightarrow> bytes \<Rightarrow> string res" where
  "DecodePanic L data =
     (case abi_error_Unpack L ''Panic'' data of
        Inl err \<Rightarrow> Inl (GoError (''panic: '' @ Error err))
      | Inr NotArgs \<Rightarrow> Inl (GoError ''panic: cannot assert type: args is not of type []any'')
      | Inr (ArgList args) \<Rightarrow>
          (if length args \<noteq> 1 then
             Inl (GoError (''panic: invalid args length: expected 1, got '' @ Itoa (int (length args))))
           else bind_res (as_big (args ! 0)) (\<lambda>n. Inr (EncodeBig L n))))"

definition DecodeRevert :: "'y rev_lib_scheme \<Rightarrow> bytes \<Rightarrow> string res" where
  "DecodeRevert L data =
     (case abi_error_Unpack L ''Error'' data of
        Inl err \<Rightarrow> Inl (GoError (''revert: '' @ Error err))
      | Inr NotArgs \<Rightarrow> Inl (GoError ''revert: cannot assert type: args is not of type []any'')
      | Inr (ArgList args) \<Rightarrow>
          (if length args \<noteq> 1 then
             Inl (GoError (''revert: invalid args length: expected 1, got '' @ Itoa (int (length args))))
           else as_string (args ! 0)))"

definition ParseHexToRpcDataError :: "'y rev_lib_scheme \<Rightarrow> string \<Rightarrow> go_error res" where
  "ParseHexToRpcDataError L hex =
     (case ParseHexOrString L hex of Inl err \<Rightarrow> Inl err | Inr b \<Rightarrow> Inr (HexDataError hex))"

subsection \<open>pkg/entrypoint/reverts\<close>

text \<open>\<open>data[2:]\<close> panics when the text has fewer than two bytes.\<close>

definition revert_bytes :: "string \<Rightarrow> bytes res" where
  "revert_bytes data =
     (if length data < 2 then Inl (Panicked ''slice bounds out of range'') else Inr (Hex2Bytes (drop 2 data)))"

record failed_op =
  OpIndex :: int
  Reason :: string

definition NewFailedOp :: "'y rev_lib_scheme \<Rightarrow> go_error option \<Rightarrow> failed_op res" where
  "NewFailedOp L err =
     (case ErrorData err of
        None \<Rightarrow> Inl (GoError (''failedOp: cannot assert type: error is not of type rpc.DataError, err: '' @ err_string err))
      | Some (JStr data) \<Rightarrow>
          bind_res (revert_bytes data) (\<lambda>bs.
          (case abi_error_Unpack L ''FailedOp'' bs of
             Inl e \<Rightarrow> Inl (GoError (''failedOp: '' @ Error e))
           | Inr NotArgs \<Rightarrow> Inl (GoError ''failedOp: cannot assert type: args is not of type []any'')
           | Inr (ArgList args) \<Rightarrow>
               (if length args \<noteq> 2 then
                  Inl (GoError (''failedOp: invalid args length: expected 2, got '' @ Itoa (int (length args))))
                else
                  (case args ! 0 of
                     ABig opIndex \<Rightarrow>
                       (case args ! 1 of
                          AStr reason \<Rightarrow> Inr \<lparr>OpIndex = wrap64 opIndex, Reason = reason\<rparr>
                        | _ \<Rightarrow> Inl (GoError ''failedOp: cannot assert type: reason is not of type string''))
                   | _ \<Rightarrow> Inl (GoError ''failedOp: cannot assert type: opIndex is not of type *big.Int'')))))
      | Some d \<Rightarrow> Inl (GoError (''failedOp: cannot assert type: data is not of type string, err: '' @
            err_string err @ '', data: '' @ Sprint_json L d)))"

record execution_result =
  er_PreOpGas :: int
  er_Paid :: int
  er_ValidAfter :: int
  er_ValidUntil :: int
  er_TargetSuccess :: bool
  er_TargetResult :: bytes

definition NewExecutionResult :: "'y rev_lib_scheme \<Rightarrow> go_error option \<Rightarrow> execution_result res" where
  "NewExecutionResult L err =
     (case ErrorData err of
        None \<Rightarrow> Inl (GoError ''executionResult: cannot assert type: error is not of type rpc.DataError'')
      | Some (JStr data) \<Rightarrow>
          bind_res (revert_bytes data) (\<lambda>bs.
          (case abi_error_Unpack L ''ExecutionResult'' bs of
             Inl e \<Rightarrow> Inl (GoError (''executionResult: '' @ Error e))
           | Inr NotArgs \<Rightarrow> Inl (GoError ''executionResult: cannot assert type: args is not of type []any'')
           | Inr (ArgList args) \<Rightarrow>
               (if length args \<noteq> 6 then
                  Inl (GoError (''executionResult: invalid args length: expected 6, got '' @ Itoa (int (length args))))
                else
                  bind_res (as_big (args ! 0)) (\<lambda>preOpGas.
                  bind_res (as_big (args ! 1)) (\<lambda>paid.
                  bind_res (as_big (args ! 2)) (\<lambda>validAfter.
                  bind_res (as_big (args ! 3)) (\<lambda>validUntil.
                  bind_res (as_bool (args ! 4)) (\<lambda>success.
                  bind_res (as_bytes (args ! 5)) (\<lambda>result.
                    Inr \<lparr>er_PreOpGas = preOpGas, er_Paid = paid, er_ValidAfter = validAfter,
                         er_ValidUntil = validUntil, er_TargetSuccess = success,
                         er_TargetResult = result\<rparr>)))))))))
      | Some d \<Rightarrow> Inl (GoError ''executionResult: cannot assert type: data is not of type string''))"

record validation_result =
  ReturnInfo :: return_info
  SenderInfo :: stake_info
  FactoryInfo :: stake_info
  PaymasterInfo :: stake_info

definition prefix_error :: "string \<Rightarrow> 'a res \<Rightarrow> 'a res" where
  "prefix_error p r = (case r of Inl e \<Rightarrow> Inl (GoError (p @ Error e)) | Inr x \<Rightarrow> Inr x)"

definition NewValidationResult :: "'y rev_lib_scheme \<Rightarrow> go_error option \<Rightarrow> validation_result res" where
  "NewValidationResult L err =
     (case ErrorData err of
        None \<Rightarrow> Inl (GoError ''validationResult: cannot assert type: error is not of type rpc.DataError'')
      | Some (JStr data) \<Rightarrow>
          bind_res (revert_bytes data) (\<lambda>bs.
          (case abi_error_Unpack L ''ValidationResult'' bs of
             Inl e \<Rightarrow> Inl (GoError (''validationResult: '' @ Error e))
           | Inr NotArgs \<Rightarrow> Inl (GoError ''validationResult: cannot assert type: args is not of type []any'')
           | Inr (ArgList args) \<Rightarrow>
               (if length args \<noteq> 4 then
                  Inl (GoError (''validationResult: invalid args length: expected 4, got '' @ Itoa (int (length args))))
                else
                  bind_res (prefix_error ''validationResult: '' (json_return_info L (args ! 0))) (\<lambda>ri.
                  bind_res (prefix_error ''validationResult: '' (json_stake_info L (args ! 1))) (\<lambda>si.
                  bind_res (prefix_error ''validationResult: '' (json_stake_info L (args ! 2))) (\<lambda>fi.
                  bind_res (prefix_error ''validationResult: '' (json_stake_info L (args ! 3))) (\<lambda>pmi.
                    Inr \<lparr>ReturnInfo = ri, SenderInfo = si, FactoryInfo = fi, PaymasterInfo = pmi\<rparr>)))))))
      | Some d \<Rightarrow> Inl (GoError ''validationResult: cannot assert type: data is not of type string''))"

subsection \<open>Lemmas\<close>

lemma Hex2Bytes_Encode: "Hex2Bytes (hex_Encode bs) = bs"
proof (induction bs)
  case (Cons b bs)
  have "length (hex_byte b) = 2" by (simp add: hex_byte_def)
  then obtain x y where xy: "hex_byte b = [x, y]" by (metis length_0_conv length_Suc_conv numeral_2_eq_2)
  have "hex_Decode (hex_Encode [b]) = Inr [b]" by (rule hex_Decode_Encode)
  then have "hex_Decode [x, y] = Inr [b]" by (simp add: hex_Encode_def xy)
  with Cons xy show ?case by (simp add: hex_Encode_def)
qed (simp add: hex_Encode_def)

lemma revert_bytes_hex: "revert_bytes (''0x'' @ hex_Encode bs) = Inr bs"
  by (simp add: revert_bytes_def Hex2Bytes_Encode)

subsection \<open>A reference instance\<close>

definition rev_ref :: rev_lib where
  "rev_ref = userop_lib.extend userop_ref (rev_lib.fields
     (\<lambda>name bs. Inl (GoError ''invalid data for unpacking''))
     (\<lambda>v. case v of AReturn ri \<Rightarrow> Inr ri | _ \<Rightarrow> Inl (GoError ''json: cannot unmarshal''))
     (\<lambda>v. case v of AStake si \<Rightarrow> Inr si | _ \<Rightarrow> Inl (GoError ''json: cannot unmarshal''))
     (\<lambda>j. ''value'')
     (\<lambda>s. Inr []))"

lemmas rev_ref_defs = rev_ref_def userop_lib.defs rev_lib.defs

lemma rev_ref_ok: "eth_lib_ok rev_ref"
  using userop_ref_ok by (simp add: eth_lib_ok_def rev_ref_defs) metis

end
