(* ===== verification/Transaction.thy ===== *)
theory Transaction
  imports Reverts
begin

text \<open>
  \<open>pkg/entrypoint/transaction\<close>: the fees of the transaction that carries a batch (\<open>gas.go\<close>), its
  gas estimate and its submission (\<open>handleops.go\<close>, \<open>utils.go\<close>).

  The contract binding and the node are parameters (\<open>chain_lib\<close>). \<open>'tx\<close> is a signed transaction.
  The state of the chain changes between calls, so the gas estimate also depends on the number of
  the call.
\<close>

record auth =
  au_GasLimit :: int
  au_NoSend :: bool
  au_Nonce :: "int option"
  au_GasTipCap :: "int option"
  au_GasFeeCap :: "int option"
  au_GasPrice :: "int option"

definition new_auth :: auth where
  "new_auth = \<lparr>au_GasLimit = 0, au_NoSend = False, au_Nonce = None, au_GasTipCap = None,
     au_GasFeeCap = None, au_GasPrice = None\<rparr>"

record 'tx chain_lib = rev_lib +
  NewEntrypoint :: "address \<Rightarrow> go_error option"
  NewKeyedTransactor :: "int \<Rightarrow> go_error option"
  ep_HandleOps :: "auth \<Rightarrow> user_op list \<Rightarrow> address \<Rightarrow> 'tx res"
  eth_EstimateGas :: "nat \<Rightarrow> 'tx \<Rightarrow> int res"
  eth_NonceAt :: "int res"
  WaitMined :: "'tx \<Rightarrow> int \<Rightarrow> bool res"
  tx_Hash :: "'tx \<Rightarrow> string"
  tx_Encode :: "'tx \<Rightarrow> bytes"

subsection \<open>Fees\<close>

definition mean :: "int list \<Rightarrow> int res" where
  "mean xs = big_Div (sum_list xs) (int (length xs))"

definition SuggestMeanGasTipCap :: "int \<Rightarrow> user_op list \<Rightarrow> int res" where
  "SuggestMeanGasTipCap tip batch =
     bind_res (mean (map MaxPriorityFeePerGas batch)) (\<lambda>avg. Inr (if avg > tip then avg else tip))"

definition SuggestMeanGasFeeCap :: "int \<Rightarrow> int \<Rightarrow> user_op list \<Rightarrow> int res" where
  "SuggestMeanGasFeeCap basefee tip batch =
     (let mf = tip + basefee * 2 in
      bind_res (mean (map MaxFeePerGas batch)) (\<lambda>avg. Inr (if avg > mf then avg else mf)))"

definition SuggestMeanGasPrice :: "int \<Rightarrow> user_op list \<Rightarrow> int res" where
  "SuggestMeanGasPrice gasPrice batch =
     bind_res (mean (map MaxFeePerGas batch)) (\<lambda>avg. Inr (if avg > gasPrice then avg else gasPrice))"

subsection \<open>Sending\<close>

record tx_opts =
  to_ChainID :: int
  to_EntryPoint :: address
  to_Batch :: "user_op list"
  to_Beneficiary :: address
  to_BaseFee :: "int option"
  to_Tip :: "int option"
  to_GasPrice :: "int option"
  to_GasLimit :: int
  to_NoSend :: bool
  to_WaitTimeout :: int

definition MaxUint64 :: int where "MaxUint64 = 2 ^ 64 - 1"

definition err_res :: "go_error option \<Rightarrow> unit res" where
  "err_res e = (case e of None \<Rightarrow> Inr () | Some err \<Rightarrow> Inl err)"

text \<open>The result is the estimate or the revert that names the failing operation.\<close>

definition EstimateHandleOpsGas :: "('tx, 'y) chain_lib_scheme \<Rightarrow> nat \<Rightarrow> tx_opts \<Rightarrow> (int + failed_op) res" where
  "EstimateHandleOpsGas L call opts =
     bind_res (err_res (NewEntrypoint L (to_EntryPoint opts))) (\<lambda>_.
     bind_res (err_res (NewKeyedTransactor L (to_ChainID opts))) (\<lambda>_.
     bind_res (ep_HandleOps L (new_auth\<lparr>au_GasLimit := MaxUint64, au_NoSend := True\<rparr>)
         (to_Batch opts) (to_Beneficiary opts)) (\<lambda>tx.
       (case eth_EstimateGas L call tx of
          Inl err \<Rightarrow> bind_res (NewFailedOp L (Some err)) (\<lambda>revert. Inr (Inr revert))
        | Inr est \<Rightarrow> Inr (Inl est)))))"

definition Wait :: "('tx, 'y) chain_lib_scheme \<Rightarrow> 'tx \<Rightarrow> int \<Rightarrow> 'tx res" where
  "Wait L txn timeout =
     bind_res (WaitMined L txn timeout) (\<lambda>success.
       if \<not> success then Inl (GoError ''transaction: failed status'') else Inr txn)"

definition HandleOps_fees :: "tx_opts \<Rightarrow> auth \<Rightarrow> auth res" where
  "HandleOps_fees opts au =
     (case (to_BaseFee opts, to_Tip opts) of
        (Some bf, Some tip) \<Rightarrow>
          bind_res (SuggestMeanGasTipCap tip (to_Batch opts)) (\<lambda>tc.
          bind_res (SuggestMeanGasFeeCap bf tip (to_Batch opts)) (\<lambda>fc.
            Inr (au\<lparr>au_GasTipCap := Some tc, au_GasFeeCap := Some fc\<rparr>)))
      | _ \<Rightarrow>
          (case to_GasPrice opts of
             Some gp \<Rightarrow> bind_res (SuggestMeanGasPrice gp (to_Batch opts)) (\<lambda>g. Inr (au\<lparr>au_GasPrice := Some g\<rparr>))
           | None \<Rightarrow> Inl (GoError ''transaction: either the dynamic or legacy gas fees must be set'')))"

definition HandleOps :: "('tx, 'y) chain_lib_scheme \<Rightarrow> tx_opts \<Rightarrow> 'tx res" where
  "HandleOps L opts =
     bind_res (err_res (NewEntrypoint L (to_EntryPoint opts))) (\<lambda>_.
     bind_res (err_res (NewKeyedTransactor L (to_ChainID opts))) (\<lambda>_.
     bind_res (eth_NonceAt L) (\<lambda>nonce.
     bind_res (HandleOps_fees opts
         (new_auth\<lparr>au_GasLimit := to_GasLimit opts, au_NoSend := to_NoSend opts, au_Nonce := Some (wrap64 nonce)\<rparr>)) (\<lambda>au.
     bind_res (ep_HandleOps L au (to_Batch opts) (to_Beneficiary opts)) (\<lambda>txn.
       if to_WaitTimeout opts = 0 \<or> to_NoSend opts then Inr txn
       else Wait L txn (to_WaitTimeout opts))))))"

definition ToRawTxHex :: "('tx, 'y) chain_lib_scheme \<Rightarrow> 'tx \<Rightarrow> string" where
  "ToRawTxHex L txn = hexutil_Encode L (tx_Encode L txn)"

subsection \<open>Fee lemmas\<close>

lemma mean_Inr: "xs \<noteq> [] \<Longrightarrow> mean xs = Inr (sum_list xs div int (length xs))"
  by (simp add: mean_def big_Div_pos)

lemma mean_Nil: "mean [] = Inl (Panicked ''division by zero'')"
  by (simp add: mean_def big_Div_def)

lemma mean_mono:
  assumes "\<forall>x \<in> set xs. f x \<le> g x"
  shows "sum_list (map f xs) div int (length xs) \<le> sum_list (map g xs) div int (length xs)"
proof -
  have "sum_list (map f xs) \<le> sum_list (map g xs)"
    by (rule sum_list_mono) (use assms in blast)
  then show ?thesis by (cases xs) (auto intro!: zdiv_mono1)
qed

lemma suggest_max:
  assumes "batch \<noteq> []"
  shows "SuggestMeanGasTipCap tip batch
      = Inr (max tip (sum_list (map MaxPriorityFeePerGas batch) div int (length batch)))"
    and "SuggestMeanGasFeeCap basefee tip batch
      = Inr (max (tip + 2 * basefee) (sum_list (map MaxFeePerGas batch) div int (length batch)))"
    and "SuggestMeanGasPrice gp batch
      = Inr (max gp (sum_list (map MaxFeePerGas batch) div int (length batch)))"
  using assms
  by (auto simp: SuggestMeanGasTipCap_def SuggestMeanGasFeeCap_def SuggestMeanGasPrice_def mean_Inr Let_def max_def)

subsection \<open>Properties\<close>


definition sample_opts :: tx_opts where
  "sample_opts = \<lparr>to_ChainID = 1, to_EntryPoint = 9, to_Batch = [sample_op 5 3], to_Beneficiary = 8,
     to_BaseFee = Some 10, to_Tip = Some 1, to_GasPrice = None, to_GasLimit = 100000, to_NoSend = False,
     to_WaitTimeout = 0\<rparr>"


end
