(* ===== verification/Mempool.thy ===== *)
theory Mempool
  imports UserOp
begin

text \<open>
  \<open>pkg/mempool\<close>: the pool of pending operations. \<open>queue.go\<close> keeps, for each EntryPoint, a sorted
  set of all operations scored by the number of nodes at insertion, and one sorted set for each
  sender scored by nonce; \<open>instance.go\<close> mirrors the queue in the database and \<open>db.go\<close> loads it back.

  Read operations of the source create an empty set when none exists; they return the new queues
  here too. \<open>op_pool\<close> is the interface the client and the bundler rely on: a finite map per
  EntryPoint from (sender, nonce) to the operation. The end of the theory interprets it on the
  code's operations.
\<close>

subsection \<open>Keys\<close>

definition JoinValues :: "string list \<Rightarrow> string" where
  "JoinValues values = Join values '':''"

definition SplitValues :: "string \<Rightarrow> string list" where
  "SplitValues value = Split1 value CHR '':''"

definition mempool_keyPrefix :: string where
  "mempool_keyPrefix = JoinValues [''mempool'']"

definition getUniqueKey :: "'x eth_lib_scheme \<Rightarrow> address \<Rightarrow> address \<Rightarrow> int \<Rightarrow> string" where
  "getUniqueKey L entryPoint sender nonce =
     JoinValues [mempool_keyPrefix, AddressString L entryPoint, AddressString L sender, Itoa nonce]"

definition getEntryPointFromDBKey :: "'x eth_lib_scheme \<Rightarrow> string \<Rightarrow> address res" where
  "getEntryPointFromDBKey L key =
     (let slc = SplitValues key in
      if 1 < length slc then Inr (HexToAddress L (slc ! 1))
      else Inl (Panicked ''index out of range''))"

subsection \<open>The queues\<close>

record 's op_set =
  set_all :: 's
  set_senders :: "address \<rightharpoonup> 's"

type_synonym 's queues = "address \<rightharpoonup> 's op_set"

type_synonym 's sset = "('s, user_op) sortedset"

definition newUserOpQueue :: "'s queues" where
  "newUserOpQueue = Map.empty"

definition getSenderSortedSet :: "'s sset \<Rightarrow> 's op_set \<Rightarrow> address \<Rightarrow> 's \<times> 's op_set" where
  "getSenderSortedSet S s sender =
     (case set_senders s sender of
        None \<Rightarrow> (ss_New S, s\<lparr>set_senders := (set_senders s)(sender \<mapsto> ss_New S)\<rparr>)
      | Some ss \<Rightarrow> (ss, s))"

definition getEntryPointSet :: "'s sset \<Rightarrow> 's queues \<Rightarrow> address \<Rightarrow> 's op_set \<times> 's queues" where
  "getEntryPointSet S q entryPoint =
     (case q entryPoint of
        None \<Rightarrow> (let val = \<lparr>set_all = ss_New S, set_senders = Map.empty\<rparr> in (val, q(entryPoint \<mapsto> val)))
      | Some val \<Rightarrow> (val, q))"

definition queue_AddOp :: "'x eth_lib_scheme \<Rightarrow> 's sset \<Rightarrow> 's queues \<Rightarrow> address \<Rightarrow> user_op \<Rightarrow> 's queues" where
  "queue_AddOp L S q entryPoint op =
     (let (eps, q1) = getEntryPointSet S q entryPoint;
          (sss, eps1) = getSenderSortedSet S eps (Sender op);
          key = getUniqueKey L entryPoint (Sender op) (Nonce op);
          all1 = ss_AddOrUpdate S (set_all eps1) key (wrap64 (ss_GetCount S (set_all eps1))) op;
          sss1 = ss_AddOrUpdate S sss key (wrap64 (Nonce op)) op
      in q1(entryPoint \<mapsto> \<lparr>set_all = all1, set_senders = (set_senders eps1)(Sender op \<mapsto> sss1)\<rparr>))"

definition queue_GetOps :: "'s sset \<Rightarrow> 's queues \<Rightarrow> address \<Rightarrow> address \<Rightarrow> user_op list \<times> 's queues" where
  "queue_GetOps S q entryPoint sender =
     (let (eps, q1) = getEntryPointSet S q entryPoint;
          (sss, eps1) = getSenderSortedSet S eps sender;
          nodes = ss_GetByRankRange S sss (-1) (- ss_GetCount S sss)
      in (nodes, q1(entryPoint \<mapsto> eps1)))"

definition queue_All :: "'s sset \<Rightarrow> 's queues \<Rightarrow> address \<Rightarrow> user_op list \<times> 's queues" where
  "queue_All S q entryPoint =
     (let (eps, q1) = getEntryPointSet S q entryPoint
      in (ss_GetByRankRange S (set_all eps) 1 (-1), q1))"

definition remove_from_set :: "'x eth_lib_scheme \<Rightarrow> 's sset \<Rightarrow> address \<Rightarrow> user_op \<Rightarrow> 's op_set \<Rightarrow> 's op_set" where
  "remove_from_set L S entryPoint op eps =
     (let (sss, eps1) = getSenderSortedSet S eps (Sender op);
          key = getUniqueKey L entryPoint (Sender op) (Nonce op)
      in \<lparr>set_all = ss_Remove S (set_all eps1) key,
          set_senders = (set_senders eps1)(Sender op \<mapsto> ss_Remove S sss key)\<rparr>)"

definition queue_RemoveOps :: "'x eth_lib_scheme \<Rightarrow> 's sset \<Rightarrow> 's queues \<Rightarrow> address \<Rightarrow> user_op list \<Rightarrow> 's queues" where
  "queue_RemoveOps L S q entryPoint ops =
     (let (eps, q1) = getEntryPointSet S q entryPoint
      in q1(entryPoint \<mapsto> fold (remove_from_set L S entryPoint) ops eps))"

subsection \<open>The pool\<close>

text \<open>
  The queues hold pointers to operations, which a batch shares. An object is named here by the
  operation it was when it was added, and \<open>mp_content\<close> gives for each EntryPoint what the object with
  that name is now. \<open>write_object\<close> assigns through a pointer to an object that is \<open>old\<close> now; objects of
  equal contents are taken for the same one. A new object takes the place of those with its sender and
  nonce.
\<close>

record ('d, 's) mempool =
  mp_db :: 'd
  mp_queue :: "'s queues"
  mp_content :: "address \<Rightarrow> user_op \<Rightarrow> user_op"

definition new_object :: "address \<Rightarrow> user_op \<Rightarrow> (address \<Rightarrow> user_op \<Rightarrow> user_op) \<Rightarrow> address \<Rightarrow> user_op \<Rightarrow> user_op" where
  "new_object ep op f = f(ep := (\<lambda>x. if Sender x = Sender op \<and> Nonce x = Nonce op then x else f ep x))"

definition write_object :: "address \<Rightarrow> user_op \<Rightarrow> user_op \<Rightarrow> ('d, 's, 'x) mempool_scheme \<Rightarrow> ('d, 's, 'x) mempool_scheme" where
  "write_object ep old new m =
     m\<lparr>mp_content := (mp_content m)(ep := (\<lambda>x. if mp_content m ep x = old then new else mp_content m ep x))\<rparr>"

text \<open>
  The bytes stored for an operation are the text of \<open>MarshalJSON\<close>; \<open>json.Unmarshal\<close> into a map
  keeps the last value of a repeated key, leaves a nil map for \<open>null\<close> and fails on other values.
\<close>

definition getUserOpFromDBValue :: "'y userop_lib_scheme \<Rightarrow> db_value \<Rightarrow> user_op res" where
  "getUserOpFromDBValue L value =
     (case value of
        DocVal (JObj kvs) \<Rightarrow> New_userop L (map_of (rev kvs))
      | DocVal JNull \<Rightarrow> New_userop L Map.empty
      | _ \<Rightarrow> Inl (GoError ''json: cannot unmarshal''))"

fun load_items :: "'y userop_lib_scheme \<Rightarrow> 's sset \<Rightarrow> (string \<times> db_value res) list \<Rightarrow> 's queues \<Rightarrow> 's queues res" where
  "load_items L S [] q = Inr q"
| "load_items L S ((key, val) # items) q =
     bind_res (getEntryPointFromDBKey L key) (\<lambda>ep.
     bind_res val (\<lambda>v.
     bind_res (getUserOpFromDBValue L v) (\<lambda>op.
       load_items L S items (queue_AddOp L S q ep op))))"

definition loadFromDisk :: "'y userop_lib_scheme \<Rightarrow> 'd badger \<Rightarrow> 's sset \<Rightarrow> 'd \<Rightarrow> 's queues \<Rightarrow> 's queues res" where
  "loadFromDisk L B S db q = load_items L S (txn_Iterate B db mempool_keyPrefix) q"

definition New_mempool :: "'y userop_lib_scheme \<Rightarrow> 'd badger \<Rightarrow> 's sset \<Rightarrow> 'd \<Rightarrow> ('d, 's) mempool res" where
  "New_mempool L B S db =
     bind_res (loadFromDisk L B S db newUserOpQueue) (\<lambda>q. Inr \<lparr>mp_db = db, mp_queue = q, mp_content = (\<lambda>ep x. x)\<rparr>)"

definition HasUserOpHash :: "'d badger \<Rightarrow> ('d, 's, 'x) mempool_scheme \<Rightarrow> string \<Rightarrow> bool res" where
  "HasUserOpHash B m userOpHash =
     (case txn_Get B (mp_db m) userOpHash of
        Inl e \<Rightarrow> if e = ErrKeyNotFound then Inr False else Inl e
      | Inr v \<Rightarrow> Inr True)"

definition GetOps :: "'s sset \<Rightarrow> ('d, 's, 'x) mempool_scheme \<Rightarrow> address \<Rightarrow> address \<Rightarrow>
    user_op list \<times> ('d, 's, 'x) mempool_scheme" where
  "GetOps S m entryPoint sender =
     (let (ops, q) = queue_GetOps S (mp_queue m) entryPoint sender in
      (map (mp_content m entryPoint) ops, m\<lparr>mp_queue := q\<rparr>))"

definition AddOp :: "'y userop_lib_scheme \<Rightarrow> 'd badger \<Rightarrow> 's sset \<Rightarrow> address \<Rightarrow> user_op \<Rightarrow>
    ('d, 's, 'x) mempool_scheme \<Rightarrow> go_error option \<times> ('d, 's, 'x) mempool_scheme" where
  "AddOp L B S entryPoint op m =
     (let data = DocVal (JObj (MarshalJSON L op)) in
      case db_Update B (\<lambda>txn. txn_Set B txn (getUniqueKey L entryPoint (Sender op) (Nonce op)) data) (mp_db m) of
        (Some e, d) \<Rightarrow> (Some e, m\<lparr>mp_db := d\<rparr>)
      | (None, d) \<Rightarrow>
          (None, m\<lparr>mp_db := d, mp_queue := queue_AddOp L S (mp_queue m) entryPoint op,
                    mp_content := new_object entryPoint op (mp_content m)\<rparr>))"

fun delete_keys :: "'d badger \<Rightarrow> string list \<Rightarrow> 'd \<Rightarrow> 'd res" where
  "delete_keys B [] txn = Inr txn"
| "delete_keys B (k # ks) txn = bind_res (txn_Delete B txn k) (delete_keys B ks)"

definition RemoveOps :: "'y userop_lib_scheme \<Rightarrow> 'd badger \<Rightarrow> 's sset \<Rightarrow> address \<Rightarrow> user_op list \<Rightarrow>
    ('d, 's, 'x) mempool_scheme \<Rightarrow> go_error option \<times> ('d, 's, 'x) mempool_scheme" where
  "RemoveOps L B S entryPoint ops m =
     (case db_Update B (delete_keys B (map (\<lambda>op. getUniqueKey L entryPoint (Sender op) (Nonce op)) ops)) (mp_db m) of
        (Some e, d) \<Rightarrow> (Some e, m\<lparr>mp_db := d\<rparr>)
      | (None, d) \<Rightarrow>
          (None, m\<lparr>mp_db := d, mp_queue := queue_RemoveOps L S (mp_queue m) entryPoint ops\<rparr>))"

definition Dump :: "'s sset \<Rightarrow> address \<Rightarrow> ('d, 's, 'x) mempool_scheme \<Rightarrow>
    user_op list \<times> ('d, 's, 'x) mempool_scheme" where
  "Dump S entryPoint m =
     (let (ops, q) = queue_All S (mp_queue m) entryPoint in
      (map (mp_content m entryPoint) ops, m\<lparr>mp_queue := q\<rparr>))"

definition Clear :: "'d badger \<Rightarrow> ('d, 's, 'x) mempool_scheme \<Rightarrow>
    go_error option \<times> ('d, 's, 'x) mempool_scheme" where
  "Clear B m =
     (case db_DropAll B (mp_db m) of
        Inl e \<Rightarrow> (Some e, m)
      | Inr d \<Rightarrow> (None, m\<lparr>mp_db := d, mp_queue := newUserOpQueue\<rparr>))"

subsection \<open>Keys identify EntryPoint, sender and nonce\<close>

lemma getUniqueKey_eq:
  "getUniqueKey L ep a n = ''mempool'' @ CHR '':'' # AddressString L ep @ CHR '':'' # AddressString L a @
    CHR '':'' # Itoa n"
  by (simp add: getUniqueKey_def JoinValues_def mempool_keyPrefix_def)

lemma getUniqueKey_inject:
  assumes "eth_lib_ok L"
  shows "getUniqueKey L ep a n = getUniqueKey L ep' a' n' \<longleftrightarrow> ep = ep' \<and> a = a' \<and> n = n'"
proof
  assume eq: "getUniqueKey L ep a n = getUniqueKey L ep' a' n'"
  have "[mempool_keyPrefix, AddressString L ep, AddressString L a, Itoa n]
      = [mempool_keyPrefix, AddressString L ep', AddressString L a', Itoa n']"
  proof (rule Join_inject [where c = "CHR '':''"])
    show "Join [mempool_keyPrefix, AddressString L ep, AddressString L a, Itoa n] [CHR '':'']
        = Join [mempool_keyPrefix, AddressString L ep', AddressString L a', Itoa n'] [CHR '':'']"
      using eq by (simp add: getUniqueKey_def JoinValues_def)
  qed (use assms in \<open>auto simp: mempool_keyPrefix_def JoinValues_def dest: eth_lib_okD(2)\<close>)
  then show "ep = ep' \<and> a = a' \<and> n = n'"
    using AddressString_inject [OF assms] Itoa_inject by auto
qed simp

lemma getEntryPointFromDBKey_unique:
  assumes "eth_lib_ok L"
  shows "getEntryPointFromDBKey L (getUniqueKey L ep a n) = Inr ep"
proof -
  have "SplitValues (getUniqueKey L ep a n)
      = [''mempool'', AddressString L ep, AddressString L a, Itoa n]"
    unfolding SplitValues_def getUniqueKey_eq
    using eth_lib_okD(2) [OF assms, of ep] eth_lib_okD(2) [OF assms, of a]
    by (simp add: Split1_sep Split1_no_sep)
  then show ?thesis
    using eth_lib_okD(1) [OF assms] by (simp add: getEntryPointFromDBKey_def)
qed

lemma getUniqueKey_prefix: "prefix mempool_keyPrefix (getUniqueKey L ep a n)"
  by (simp add: getUniqueKey_eq mempool_keyPrefix_def JoinValues_def)

subsection \<open>Node sets\<close>

text \<open>The nodes of an EntryPoint and of one of its senders; a set not yet created has none.\<close>

definition nodes_all :: "('s \<Rightarrow> user_op node list) \<Rightarrow> 's queues \<Rightarrow> address \<Rightarrow> user_op node set" where
  "nodes_all nodes q ep = (case q ep of None \<Rightarrow> {} | Some s \<Rightarrow> set (nodes (set_all s)))"

definition set_nodes :: "('s \<Rightarrow> user_op node list) \<Rightarrow> 's op_set \<Rightarrow> address \<Rightarrow> user_op node set" where
  "set_nodes nodes s a = (case set_senders s a of None \<Rightarrow> {} | Some ss \<Rightarrow> set (nodes ss))"

definition nodes_of :: "('s \<Rightarrow> user_op node list) \<Rightarrow> 's queues \<Rightarrow> address \<Rightarrow> address \<Rightarrow> user_op node set" where
  "nodes_of nodes q ep a = (case q ep of None \<Rightarrow> {} | Some s \<Rightarrow> set_nodes nodes s a)"

definition op_key :: "'x eth_lib_scheme \<Rightarrow> address \<Rightarrow> user_op \<Rightarrow> string" where
  "op_key L ep op = getUniqueKey L ep (Sender op) (Nonce op)"

lemma op_key_inject:
  "eth_lib_ok L \<Longrightarrow> op_key L ep op = op_key L ep' op' \<longleftrightarrow>
    ep = ep' \<and> Sender op = Sender op' \<and> Nonce op = Nonce op'"
  by (simp add: op_key_def getUniqueKey_inject)

lemmas queue_get_defs = getEntryPointSet_def getSenderSortedSet_def Let_def

lemma nodes_all_AddOp:
  assumes "sortedset_ok S nodes"
  shows "\<exists>sc. nodes_all nodes (queue_AddOp L S q ep op) ep' =
    (if ep' = ep then insert (op_key L ep op, sc, op) {n \<in> nodes_all nodes q ep. node_key n \<noteq> op_key L ep op}
     else nodes_all nodes q ep')"
  using assms
  by (auto simp: nodes_all_def queue_AddOp_def queue_get_defs op_key_def sortedset_okD split: option.splits)

lemma nodes_of_AddOp:
  assumes "sortedset_ok S nodes"
  shows "nodes_of nodes (queue_AddOp L S q ep op) ep' a =
    (if ep' = ep \<and> a = Sender op
     then insert (op_key L ep op, wrap64 (Nonce op), op) {n \<in> nodes_of nodes q ep a. node_key n \<noteq> op_key L ep op}
     else nodes_of nodes q ep' a)"
  using assms
  by (auto simp: nodes_of_def set_nodes_def queue_AddOp_def queue_get_defs op_key_def sortedset_okD split: option.splits)

lemma remove_from_new:
  assumes "sortedset_ok S nodes"
  shows "nodes (ss_Remove S (ss_New S) k) = []"
  using sortedset_okD(6) [OF assms, of "ss_New S" k] sortedset_okD(1) [OF assms] by auto

lemma remove_from_set_nodes:
  assumes "sortedset_ok S nodes"
  shows "set (nodes (set_all (remove_from_set L S ep op s))) = {n \<in> set (nodes (set_all s)). node_key n \<noteq> op_key L ep op}"
    and "set_nodes nodes (remove_from_set L S ep op s) a =
      {n \<in> set_nodes nodes s a. a = Sender op \<longrightarrow> node_key n \<noteq> op_key L ep op}"
  using assms
  by (auto simp: remove_from_set_def queue_get_defs op_key_def sortedset_okD set_nodes_def remove_from_new [OF assms] split: option.splits)

lemma fold_remove_nodes:
  assumes "sortedset_ok S nodes"
  shows "set (nodes (set_all (fold (remove_from_set L S ep) ops s)))
      = {n \<in> set (nodes (set_all s)). node_key n \<notin> op_key L ep ` set ops}"
    and "set_nodes nodes (fold (remove_from_set L S ep) ops s) a
      = {n \<in> set_nodes nodes s a. node_key n \<notin> op_key L ep ` {op \<in> set ops. Sender op = a}}"
  by (induction ops arbitrary: s) (auto simp: remove_from_set_nodes [OF assms])

lemma nodes_RemoveOps:
  assumes "sortedset_ok S nodes"
  shows "nodes_all nodes (queue_RemoveOps L S q ep ops) ep' =
      (if ep' = ep then {n \<in> nodes_all nodes q ep. node_key n \<notin> op_key L ep ` set ops} else nodes_all nodes q ep')"
    and "nodes_of nodes (queue_RemoveOps L S q ep ops) ep' a =
      (if ep' = ep then {n \<in> nodes_of nodes q ep a. node_key n \<notin> op_key L ep ` {op \<in> set ops. Sender op = a}}
       else nodes_of nodes q ep' a)"
proof -
  have empty: "set_nodes nodes \<lparr>set_all = ss_New S, set_senders = Map.empty\<rparr> a = {}"
    by (simp add: set_nodes_def)
  note simps = queue_RemoveOps_def getEntryPointSet_def Let_def
    fold_remove_nodes [OF assms] sortedset_okD(1) [OF assms] empty
  show "nodes_all nodes (queue_RemoveOps L S q ep ops) ep' =
      (if ep' = ep then {n \<in> nodes_all nodes q ep. node_key n \<notin> op_key L ep ` set ops} else nodes_all nodes q ep')"
    by (cases "q ep") (auto simp: nodes_all_def simps simp del: set_empty)
  show "nodes_of nodes (queue_RemoveOps L S q ep ops) ep' a =
      (if ep' = ep then {n \<in> nodes_of nodes q ep a. node_key n \<notin> op_key L ep ` {op \<in> set ops. Sender op = a}}
       else nodes_of nodes q ep' a)"
    by (cases "q ep") (auto simp: nodes_of_def simps)
qed

lemma nodes_queries:
  assumes "sortedset_ok S nodes"
  shows "nodes_all nodes (snd (queue_All S q ep)) = nodes_all nodes q"
    "nodes_of nodes (snd (queue_All S q ep)) = nodes_of nodes q"
    "nodes_all nodes (snd (queue_GetOps S q ep b)) = nodes_all nodes q"
    "nodes_of nodes (snd (queue_GetOps S q ep b)) = nodes_of nodes q"
  using sortedset_okD(1) [OF assms]
  by (auto simp: fun_eq_iff nodes_all_def nodes_of_def set_nodes_def queue_All_def queue_GetOps_def queue_get_defs
      split: option.splits)

subsection \<open>The queue as a map\<close>

definition lookup :: "'y userop_lib_scheme \<Rightarrow> ('s \<Rightarrow> user_op node list) \<Rightarrow> 's queues \<Rightarrow> address \<Rightarrow> address \<Rightarrow> int \<Rightarrow> user_op option" where
  "lookup L nodes q ep a n =
     (case q ep of None \<Rightarrow> None
      | Some s \<Rightarrow> map_of (map (\<lambda>nd. (node_key nd, node_value nd)) (nodes (set_all s))) (getUniqueKey L ep a n))"

text \<open>
  The representation invariant: each node carries the key of its operation, and the set of a
  sender holds exactly the operations of that sender, scored by nonce.
\<close>

definition queue_ok :: "'y userop_lib_scheme \<Rightarrow> ('s \<Rightarrow> user_op node list) \<Rightarrow> 's queues \<Rightarrow> bool" where
  "queue_ok L nodes q \<longleftrightarrow>
     (\<forall>ep. \<forall>nd \<in> nodes_all nodes q ep. node_key nd = op_key L ep (node_value nd)) \<and>
     (\<forall>ep a. nodes_of nodes q ep a
        = (\<lambda>op. (op_key L ep op, wrap64 (Nonce op), op)) ` {op \<in> node_value ` nodes_all nodes q ep. Sender op = a})"

lemma lookup_iff:
  assumes "sortedset_ok S nodes"
  shows "lookup L nodes q ep a n = Some op \<longleftrightarrow> (\<exists>sc. (getUniqueKey L ep a n, sc, op) \<in> nodes_all nodes q ep)"
proof (cases "q ep")
  case None
  then show ?thesis by (simp add: lookup_def nodes_all_def)
next
  case (Some s)
  have "distinct (map fst (map (\<lambda>nd. (node_key nd, node_value nd)) (nodes (set_all s))))"
    using sortedset_okD(4) [OF assms, of "set_all s"] by (simp add: comp_def)
  then show ?thesis using Some by (force simp: lookup_def nodes_all_def)
qed

lemma queue_okD:
  assumes "queue_ok L nodes q"
  shows "nd \<in> nodes_all nodes q ep \<Longrightarrow> node_key nd = op_key L ep (node_value nd)"
    and "nodes_of nodes q ep a
      = (\<lambda>op. (op_key L ep op, wrap64 (Nonce op), op)) ` {op \<in> node_value ` nodes_all nodes q ep. Sender op = a}"
  using assms by (auto simp: queue_ok_def)

lemma lookup_op:
  assumes "sortedset_ok S nodes" "queue_ok L nodes q"
  shows "lookup L nodes q ep (Sender op) (Nonce op) = Some op \<longleftrightarrow> op \<in> node_value ` nodes_all nodes q ep"
  using queue_okD(1) [OF assms(2)] unfolding lookup_iff [OF assms(1)]
  by (force simp: op_key_def)

lemma lookup_key:
  assumes "eth_lib_ok L" "sortedset_ok S nodes" "queue_ok L nodes q" "lookup L nodes q ep a n = Some op"
  shows "Sender op = a \<and> Nonce op = n"
proof -
  obtain sc where "(getUniqueKey L ep a n, sc, op) \<in> nodes_all nodes q ep"
    using assms(4) unfolding lookup_iff [OF assms(2)] by blast
  from queue_okD(1) [OF assms(3) this] show ?thesis
    by (simp add: op_key_def getUniqueKey_inject [OF assms(1)])
qed

lemma queue_ok_new: "queue_ok L nodes newUserOpQueue"
  by (simp add: queue_ok_def newUserOpQueue_def nodes_all_def nodes_of_def)

lemma lookup_new: "lookup L nodes newUserOpQueue ep a n = None"
  by (simp add: lookup_def newUserOpQueue_def)

lemma lookup_AddOp:
  assumes "eth_lib_ok L" "sortedset_ok S nodes"
  shows "lookup L nodes (queue_AddOp L S q ep op) ep' a n =
    (if ep' = ep \<and> a = Sender op \<and> n = Nonce op then Some op else lookup L nodes q ep' a n)"
proof -
  obtain sc where nd: "nodes_all nodes (queue_AddOp L S q ep op) ep' =
    (if ep' = ep then insert (op_key L ep op, sc, op) {n \<in> nodes_all nodes q ep. node_key n \<noteq> op_key L ep op}
     else nodes_all nodes q ep')"
    using nodes_all_AddOp [OF assms(2)] by blast
  have "lookup L nodes (queue_AddOp L S q ep op) ep' a n = Some x \<longleftrightarrow>
    (if ep' = ep \<and> a = Sender op \<and> n = Nonce op then Some op else lookup L nodes q ep' a n) = Some x" for x
    unfolding lookup_iff [OF assms(2)] nd op_key_def
    by (cases "ep' = ep") (auto simp: getUniqueKey_inject [OF assms(1)] lookup_iff [OF assms(2)])
  then show ?thesis by (rule option_eqI)
qed

lemma lookup_RemoveOps:
  assumes "eth_lib_ok L" "sortedset_ok S nodes"
  shows "lookup L nodes (queue_RemoveOps L S q ep ops) ep' a n =
    (if ep' = ep \<and> (a, n) \<in> (\<lambda>op. (Sender op, Nonce op)) ` set ops then None else lookup L nodes q ep' a n)"
proof -
  have "lookup L nodes (queue_RemoveOps L S q ep ops) ep' a n = Some x \<longleftrightarrow>
    (if ep' = ep \<and> (a, n) \<in> (\<lambda>op. (Sender op, Nonce op)) ` set ops then None else lookup L nodes q ep' a n) = Some x" for x
  proof (cases "ep' = ep")
    case True
    have "getUniqueKey L ep a n \<in> op_key L ep ` set ops \<longleftrightarrow> (a, n) \<in> (\<lambda>op. (Sender op, Nonce op)) ` set ops"
      by (auto simp: op_key_def getUniqueKey_inject [OF assms(1)])
    then show ?thesis
      unfolding lookup_iff [OF assms(2)] nodes_RemoveOps(1) [OF assms(2)] by (simp add: True lookup_iff [OF assms(2)])
  next
    case False
    then show ?thesis
      by (simp add: lookup_iff [OF assms(2)] nodes_RemoveOps [OF assms(2)])
  qed
  then show ?thesis by (rule option_eqI)
qed

lemma lookup_queries:
  assumes "sortedset_ok S nodes"
  shows "lookup L nodes (snd (queue_All S q ep)) = lookup L nodes q"
    and "lookup L nodes (snd (queue_GetOps S q ep b)) = lookup L nodes q"
proof -
  have eq: "nodes_all nodes q1 = nodes_all nodes q2 \<Longrightarrow> lookup L nodes q1 = lookup L nodes q2" for q1 q2
    by (intro ext option_eqI) (simp add: lookup_iff [OF assms])
  show "lookup L nodes (snd (queue_All S q ep)) = lookup L nodes q"
    by (rule eq) (rule nodes_queries(1) [OF assms])
  show "lookup L nodes (snd (queue_GetOps S q ep b)) = lookup L nodes q"
    by (rule eq) (rule nodes_queries(3) [OF assms])
qed

lemma image_Collect_comp: "f ` {x \<in> A. P (f x)} = {y \<in> f ` A. P y}"
  by auto

abbreviation sender_node :: "'y userop_lib_scheme \<Rightarrow> address \<Rightarrow> user_op \<Rightarrow> user_op node" where
  "sender_node L ep op \<equiv> (op_key L ep op, wrap64 (Nonce op), op)"

lemma sender_nodes_insert:
  assumes "eth_lib_ok L"
  shows "(if a = Sender op then insert (sender_node L ep op)
        {n \<in> sender_node L ep ` {x \<in> V. Sender x = a}. node_key n \<noteq> op_key L ep op}
      else sender_node L ep ` {x \<in> V. Sender x = a})
    = sender_node L ep ` {x \<in> insert op {y \<in> V. op_key L ep y \<noteq> op_key L ep op}. Sender x = a}"
  by (auto simp: op_key_inject [OF assms])

lemma sender_nodes_remove:
  assumes "eth_lib_ok L"
  shows "{n \<in> sender_node L ep ` {x \<in> V. Sender x = a}. node_key n \<notin> op_key L ep ` {op \<in> set ops. Sender op = a}}
    = sender_node L ep ` {x \<in> {y \<in> V. op_key L ep y \<notin> op_key L ep ` set ops}. Sender x = a}"
  by (auto simp: op_key_inject [OF assms] image_iff [of _ "op_key L ep"])

lemma queue_ok_AddOp:
  assumes "eth_lib_ok L" "sortedset_ok S nodes" "queue_ok L nodes q"
  shows "queue_ok L nodes (queue_AddOp L S q ep op)"
proof -
  note old = queue_okD [OF assms(3)]
  let ?new = "queue_AddOp L S q ep op"
  let ?N = "{n \<in> nodes_all nodes q ep. node_key n \<noteq> op_key L ep op}"
  obtain sc where na: "\<And>ep'. nodes_all nodes ?new ep' =
      (if ep' = ep then insert (op_key L ep op, wrap64 sc, op) ?N else nodes_all nodes q ep')"
  proof -
    have "nodes_all nodes ?new ep' = (if ep' = ep then insert (op_key L ep op,
        wrap64 (ss_GetCount S (set_all (fst (getEntryPointSet S q ep)))), op) ?N
      else nodes_all nodes q ep')" for ep'
      using assms(2)
      by (auto simp: nodes_all_def queue_AddOp_def queue_get_defs op_key_def sortedset_okD split: option.splits)
    then show ?thesis using that by blast
  qed
  have N: "?N = {n \<in> nodes_all nodes q ep. op_key L ep (node_value n) \<noteq> op_key L ep op}"
    using old(1) by force
  have "node_key nd = op_key L ep' (node_value nd)" if "nd \<in> nodes_all nodes ?new ep'" for ep' nd
    using that old(1) [of nd] unfolding na by (cases "ep' = ep") auto
  moreover have "nodes_of nodes ?new ep' a
      = (\<lambda>op. (op_key L ep' op, wrap64 (Nonce op), op)) ` {op \<in> node_value ` nodes_all nodes ?new ep'. Sender op = a}" for ep' a
  proof (cases "ep' = ep")
    case True
    have "node_value ` insert (op_key L ep op, wrap64 sc, op) ?N
        = insert op {y \<in> node_value ` nodes_all nodes q ep. op_key L ep y \<noteq> op_key L ep op}"
      unfolding N image_insert image_Collect_comp [where P = "\<lambda>y. op_key L ep y \<noteq> op_key L ep op"] by simp
    then show ?thesis
      unfolding True na nodes_of_AddOp [OF assms(2)] old(2)
      using sender_nodes_insert [OF assms(1)] by simp
  next
    case False
    then show ?thesis unfolding na nodes_of_AddOp [OF assms(2)] by (simp add: old(2))
  qed
  ultimately show ?thesis unfolding queue_ok_def by blast
qed

lemma queue_ok_RemoveOps:
  assumes "eth_lib_ok L" "sortedset_ok S nodes" "queue_ok L nodes q"
  shows "queue_ok L nodes (queue_RemoveOps L S q ep ops)"
proof -
  note old = queue_okD [OF assms(3)]
  let ?new = "queue_RemoveOps L S q ep ops"
  note na = nodes_RemoveOps(1) [OF assms(2)] and no = nodes_RemoveOps(2) [OF assms(2)]
  have N: "{n \<in> nodes_all nodes q ep. node_key n \<notin> op_key L ep ` set ops}
      = {n \<in> nodes_all nodes q ep. op_key L ep (node_value n) \<notin> op_key L ep ` set ops}"
    using old(1) by force
  have "node_key nd = op_key L ep' (node_value nd)" if "nd \<in> nodes_all nodes ?new ep'" for ep' nd
    using that old(1) [of nd] unfolding na by (cases "ep' = ep") auto
  moreover have "nodes_of nodes ?new ep' a
      = (\<lambda>op. (op_key L ep' op, wrap64 (Nonce op), op)) ` {op \<in> node_value ` nodes_all nodes ?new ep'. Sender op = a}" for ep' a
  proof (cases "ep' = ep")
    case True
    have "node_value ` {n \<in> nodes_all nodes q ep. node_key n \<notin> op_key L ep ` set ops}
        = {y \<in> node_value ` nodes_all nodes q ep. op_key L ep y \<notin> op_key L ep ` set ops}"
      unfolding N by (rule image_Collect_comp [where P = "\<lambda>op. op_key L ep op \<notin> op_key L ep ` set ops"])
    then show ?thesis
      unfolding True na no old(2)
      using sender_nodes_remove [OF assms(1)] by simp
  next
    case False
    then show ?thesis unfolding na no by (simp add: old(2))
  qed
  ultimately show ?thesis unfolding queue_ok_def by blast
qed

lemma queue_ok_queries:
  assumes "sortedset_ok S nodes" "queue_ok L nodes q"
  shows "queue_ok L nodes (snd (queue_All S q ep))" "queue_ok L nodes (snd (queue_GetOps S q ep a))"
  using assms(2) unfolding queue_ok_def nodes_queries [OF assms(1)] by auto

lemma queue_All_ops:
  assumes "sortedset_ok S nodes" "queue_ok L nodes q"
  shows "set (fst (queue_All S q ep)) = node_value ` nodes_all nodes q ep"
    and "distinct (map (op_key L ep) (fst (queue_All S q ep)))"
proof -
  obtain ns where ns: "fst (queue_All S q ep) = map node_value ns" "set ns = nodes_all nodes q ep"
    "distinct (map node_key ns)"
    using sortedset_okD(1,4) [OF assms(1)]
    by (cases "q ep") (auto simp: queue_All_def queue_get_defs nodes_all_def range_ascending [OF assms(1)])
  then show "set (fst (queue_All S q ep)) = node_value ` nodes_all nodes q ep" by simp
  have "map (op_key L ep) (map node_value ns) = map node_key ns"
    using queue_okD(1) [OF assms(2), of _ ep] ns(2) by simp
  then show "distinct (map (op_key L ep) (fst (queue_All S q ep)))" using ns(1,3) by (metis (no_types))
qed

lemma queue_GetOps_ops:
  assumes "sortedset_ok S nodes" "queue_ok L nodes q"
  shows "set (fst (queue_GetOps S q ep a)) = {op \<in> node_value ` nodes_all nodes q ep. Sender op = a}"
    and "sorted_wrt (\<lambda>x y. wrap64 (Nonce x) \<ge> wrap64 (Nonce y)) (fst (queue_GetOps S q ep a))"
    and "distinct (map (op_key L ep) (fst (queue_GetOps S q ep a)))"
proof -
  obtain ns where ns: "fst (queue_GetOps S q ep a) = rev (map node_value ns)" "set ns = nodes_of nodes q ep a"
    "distinct (map node_key ns)" "sorted_wrt node_less ns"
    using sortedset_okD(1,3,4) [OF assms(1)]
    by (cases "q ep"; cases "set_senders (the (q ep)) a")
      (auto simp: queue_GetOps_def queue_get_defs nodes_of_def set_nodes_def range_descending [OF assms(1)])
  have el: "nd = (op_key L ep (node_value nd), wrap64 (Nonce (node_value nd)), node_value nd)
      \<and> node_value nd \<in> node_value ` nodes_all nodes q ep \<and> Sender (node_value nd) = a" if "nd \<in> set ns" for nd
    using that unfolding ns(2) queue_okD(2) [OF assms(2)] by (auto intro: rev_image_eqI)
  have "node_value ` set ns = {op \<in> node_value ` nodes_all nodes q ep. Sender op = a}"
    unfolding ns(2) queue_okD(2) [OF assms(2)] by force
  then show "set (fst (queue_GetOps S q ep a)) = {op \<in> node_value ` nodes_all nodes q ep. Sender op = a}"
    using ns(1) by simp
  have score: "node_score nd = wrap64 (Nonce (node_value nd))" "node_key nd = op_key L ep (node_value nd)"
    if "nd \<in> set ns" for nd
    using el [OF that] by (metis fst_conv snd_conv)+
  have le: "node_less x y \<Longrightarrow> node_score x \<le> node_score y" for x y :: "user_op node"
    by (cases x; cases y) auto
  have "sorted_wrt (\<lambda>x y. wrap64 (Nonce (node_value x)) \<le> wrap64 (Nonce (node_value y))) ns"
    by (rule sorted_wrt_mono_rel [OF _ ns(4)]) (use score le in metis)
  then show "sorted_wrt (\<lambda>x y. wrap64 (Nonce x) \<ge> wrap64 (Nonce y)) (fst (queue_GetOps S q ep a))"
    unfolding ns(1) by (simp add: sorted_wrt_rev sorted_wrt_map)
  have "map (op_key L ep) (map node_value ns) = map node_key ns"
    using score(2) by simp
  then show "distinct (map (op_key L ep) (fst (queue_GetOps S q ep a)))"
    unfolding ns(1) using ns(3) by (metis distinct_rev rev_map)
qed

subsection \<open>The contract of a pool\<close>

text \<open>
  What the client and the bundler rely on. \<open>inv\<close> is the invariant of a pool state, \<open>look\<close> reads it
  as a map. An operation that returns an error leaves the map as it was.
\<close>

type_synonym pool_map = "address \<Rightarrow> address \<Rightarrow> int \<Rightarrow> user_op option"

definition map_add_op :: "address \<Rightarrow> user_op \<Rightarrow> pool_map \<Rightarrow> pool_map" where
  "map_add_op ep op M = (\<lambda>ep' a n. if ep' = ep \<and> a = Sender op \<and> n = Nonce op then Some op else M ep' a n)"

definition map_remove_ops :: "address \<Rightarrow> user_op list \<Rightarrow> pool_map \<Rightarrow> pool_map" where
  "map_remove_ops ep ops M =
     (\<lambda>ep' a n. if ep' = ep \<and> (a, n) \<in> (\<lambda>op. (Sender op, Nonce op)) ` set ops then None else M ep' a n)"

text \<open>A history of calls, the errors they returned, and what the map does with them.\<close>

datatype pool_cmd = PAdd address user_op | PRemove address "user_op list" | PClear

fun run_cmds :: "(address \<Rightarrow> user_op \<Rightarrow> 'm \<Rightarrow> go_error option \<times> 'm) \<Rightarrow>
    (address \<Rightarrow> user_op list \<Rightarrow> 'm \<Rightarrow> go_error option \<times> 'm) \<Rightarrow>
    ('m \<Rightarrow> go_error option \<times> 'm) \<Rightarrow> pool_cmd list \<Rightarrow> 'm \<Rightarrow> go_error option list \<times> 'm" where
  "run_cmds add remove clear [] m = ([], m)"
| "run_cmds add remove clear (c # cs) m =
     (let (e, m1) = (case c of PAdd ep op \<Rightarrow> add ep op m | PRemove ep ops \<Rightarrow> remove ep ops m | PClear \<Rightarrow> clear m);
          (es, m2) = run_cmds add remove clear cs m1
      in (e # es, m2))"

fun spec_cmds :: "(pool_cmd \<times> go_error option) list \<Rightarrow> pool_map \<Rightarrow> pool_map" where
  "spec_cmds [] M = M"
| "spec_cmds ((c, e) # cs) M =
     spec_cmds cs (if e \<noteq> None then M
       else (case c of PAdd ep op \<Rightarrow> map_add_op ep op M | PRemove ep ops \<Rightarrow> map_remove_ops ep ops M
             | PClear \<Rightarrow> (\<lambda>ep a n. None)))"

definition cmd_wf :: "pool_cmd \<Rightarrow> bool" where
  "cmd_wf c = (case c of PAdd ep op \<Rightarrow> wf_op op | _ \<Rightarrow> True)"

locale op_pool =
  fixes inv :: "'m \<Rightarrow> bool"
    and look :: "'m \<Rightarrow> pool_map"
    and add :: "address \<Rightarrow> user_op \<Rightarrow> 'm \<Rightarrow> go_error option \<times> 'm"
    and remove :: "address \<Rightarrow> user_op list \<Rightarrow> 'm \<Rightarrow> go_error option \<times> 'm"
    and clear :: "'m \<Rightarrow> go_error option \<times> 'm"
    and dump :: "address \<Rightarrow> 'm \<Rightarrow> user_op list \<times> 'm"
  assumes look_key: "inv m \<Longrightarrow> look m ep a n = Some op \<Longrightarrow> Sender op = a \<and> Nonce op = n"
    and add_inv: "inv m \<Longrightarrow> wf_op op \<Longrightarrow> inv (snd (add ep op m))"
    and add_look: "inv m \<Longrightarrow> look (snd (add ep op m)) =
        (if fst (add ep op m) = None then map_add_op ep op (look m) else look m)"
    and remove_inv: "inv m \<Longrightarrow> inv (snd (remove ep ops m))"
    and remove_look: "inv m \<Longrightarrow> look (snd (remove ep ops m)) =
        (if fst (remove ep ops m) = None then map_remove_ops ep ops (look m) else look m)"
    and clear_inv: "inv m \<Longrightarrow> inv (snd (clear m))"
    and clear_look: "inv m \<Longrightarrow> look (snd (clear m)) =
        (if fst (clear m) = None then (\<lambda>ep a n. None) else look m)"
    and dump_inv: "inv m \<Longrightarrow> inv (snd (dump ep m))"
    and dump_look: "inv m \<Longrightarrow> look (snd (dump ep m)) = look m"
    and dump_set: "inv m \<Longrightarrow> op \<in> set (fst (dump ep m)) \<longleftrightarrow> look m ep (Sender op) (Nonce op) = Some op"
    and dump_distinct: "inv m \<Longrightarrow> distinct (map (\<lambda>op. (Sender op, Nonce op)) (fst (dump ep m)))"
begin

lemma dump_after_add:
  assumes "inv m" "wf_op op" "fst (add ep op m) = None"
  shows "op \<in> set (fst (dump ep (snd (add ep op m))))"
    and "x \<noteq> op \<Longrightarrow> x \<in> set (fst (dump ep (snd (add ep op m)))) \<longleftrightarrow>
      x \<in> set (fst (dump ep m)) \<and> (Sender x, Nonce x) \<noteq> (Sender op, Nonce op)"
  using assms add_inv [OF assms(1,2)] by (auto simp: dump_set add_look map_add_op_def)

lemma dump_after_remove:
  assumes "inv m" "fst (remove ep ops m) = None"
  shows "x \<in> set (fst (dump ep (snd (remove ep ops m)))) \<longleftrightarrow>
    x \<in> set (fst (dump ep m)) \<and> (Sender x, Nonce x) \<notin> (\<lambda>op. (Sender op, Nonce op)) ` set ops"
  using assms remove_inv [OF assms(1)] by (auto simp: dump_set remove_look map_remove_ops_def)

lemma run_cmds_refines:
  "inv m \<Longrightarrow> list_all cmd_wf cs \<Longrightarrow> run_cmds add remove clear cs m = (es, m') \<Longrightarrow>
    inv m' \<and> look m' = spec_cmds (zip cs es) (look m)"
proof (induction cs arbitrary: m es)
  case Nil
  then show ?case by simp
next
  case (Cons c cs)
  let ?r = "case c of PAdd ep op \<Rightarrow> add ep op m | PRemove ep ops \<Rightarrow> remove ep ops m | PClear \<Rightarrow> clear m"
  obtain e m1 where r: "?r = (e, m1)" by (cases ?r)
  obtain es1 where es: "es = e # es1" "run_cmds add remove clear cs m1 = (es1, m')"
    using Cons.prems(3) r by (cases "run_cmds add remove clear cs m1") auto
  have "inv m1 \<and> look m1 = (if e \<noteq> None then look m
      else (case c of PAdd ep op \<Rightarrow> map_add_op ep op (look m) | PRemove ep ops \<Rightarrow> map_remove_ops ep ops (look m)
            | PClear \<Rightarrow> (\<lambda>ep a n. None)))"
  proof (cases c)
    case (PAdd ep op)
    then have "add ep op m = (e, m1)" "wf_op op" using r Cons.prems(2) by (simp_all add: cmd_wf_def)
    then show ?thesis using PAdd add_inv [OF Cons.prems(1), of op ep] add_look [OF Cons.prems(1), of ep op] by simp
  next
    case (PRemove ep ops)
    then have "remove ep ops m = (e, m1)" using r by simp
    then show ?thesis using PRemove remove_inv [OF Cons.prems(1), of ep ops] remove_look [OF Cons.prems(1), of ep ops] by simp
  next
    case PClear
    then have "clear m = (e, m1)" using r by simp
    then show ?thesis using PClear clear_inv [OF Cons.prems(1)] clear_look [OF Cons.prems(1)] by simp
  qed
  moreover have "list_all cmd_wf cs" using Cons.prems(2) by simp
  ultimately show ?case using Cons.IH [of m1 es1] es by simp
qed

lemma replaced_op:
  assumes "inv m" "wf_op op" "fst (add ep op m) = None" "x \<in> set (fst (dump ep m))"
    and "Sender x = Sender op" "Nonce x = Nonce op" "x \<noteq> op"
  shows "x \<notin> set (fst (dump ep (snd (add ep op m))))"
  using dump_after_add(2) [OF assms(1-3) assms(7)] assms(5,6) by simp

end

subsection \<open>The code's pool meets the contract\<close>

definition op_doc :: "'y userop_lib_scheme \<Rightarrow> user_op \<Rightarrow> db_value" where
  "op_doc L op = DocVal (JObj (MarshalJSON L op))"

text \<open>The entries under the pool's prefix are the pooled operations as they were added, under their keys.\<close>

definition db_agrees :: "'y userop_lib_scheme \<Rightarrow> 'd badger \<Rightarrow> pool_map \<Rightarrow> 'd \<Rightarrow> bool" where
  "db_agrees L B M d \<longleftrightarrow>
     (\<forall>k v. prefix mempool_keyPrefix k \<longrightarrow>
        (txn_Get B d k = Inr v \<longleftrightarrow>
          (\<exists>ep op. k = op_key L ep op \<and> v = op_doc L op \<and> M ep (Sender op) (Nonce op) = Some op)))"

text \<open>Sender and nonce of an object are never written.\<close>

definition content_ok :: "(address \<Rightarrow> user_op \<Rightarrow> user_op) \<Rightarrow> bool" where
  "content_ok f \<longleftrightarrow> (\<forall>ep x. Sender (f ep x) = Sender x \<and> Nonce (f ep x) = Nonce x)"

lemma content_okD: "content_ok f \<Longrightarrow> Sender (f ep x) = Sender x" "content_ok f \<Longrightarrow> Nonce (f ep x) = Nonce x"
  by (simp_all add: content_ok_def)

lemma content_ok_new [intro]: "content_ok f \<Longrightarrow> content_ok (new_object ep op f)"
  by (simp add: content_ok_def new_object_def)

definition pool_inv :: "'y userop_lib_scheme \<Rightarrow> 'd badger \<Rightarrow> 's sset \<Rightarrow> ('s \<Rightarrow> user_op node list) \<Rightarrow>
    ('d, 's, 'x) mempool_scheme \<Rightarrow> bool" where
  "pool_inv L B S nodes m \<longleftrightarrow>
     eth_lib_ok L \<and> badger_ok B \<and> sortedset_ok S nodes \<and>
     queue_ok L nodes (mp_queue m) \<and>
     (\<forall>ep a n op. lookup L nodes (mp_queue m) ep a n = Some op \<longrightarrow> wf_op op) \<and>
     db_agrees L B (lookup L nodes (mp_queue m)) (mp_db m) \<and>
     content_ok (mp_content m)"

definition pool_look :: "'y userop_lib_scheme \<Rightarrow> ('s \<Rightarrow> user_op node list) \<Rightarrow> ('d, 's, 'x) mempool_scheme \<Rightarrow> pool_map" where
  "pool_look L nodes m = (\<lambda>ep a n. map_option (mp_content m ep) (lookup L nodes (mp_queue m) ep a n))"

definition pool_stored :: "'y userop_lib_scheme \<Rightarrow> ('s \<Rightarrow> user_op node list) \<Rightarrow> ('d, 's, 'x) mempool_scheme \<Rightarrow> pool_map" where
  "pool_stored L nodes m = lookup L nodes (mp_queue m)"

lemma pool_invD:
  assumes "pool_inv L B S nodes m"
  shows "eth_lib_ok L" "badger_ok B" "sortedset_ok S nodes" "queue_ok L nodes (mp_queue m)"
    "lookup L nodes (mp_queue m) ep a n = Some op \<Longrightarrow> wf_op op"
    "db_agrees L B (lookup L nodes (mp_queue m)) (mp_db m)" "content_ok (mp_content m)"
  using assms unfolding pool_inv_def by blast+

lemma db_agrees_Set:
  assumes "eth_lib_ok L" "badger_ok B" "db_agrees L B M d" "txn_Set B d (op_key L ep op) (op_doc L op) = Inr d'"
    and "\<And>ep a n op. M ep a n = Some op \<Longrightarrow> Sender op = a \<and> Nonce op = n"
  shows "db_agrees L B (map_add_op ep op M) d'"
  unfolding db_agrees_def
proof (intro allI impI)
  fix k v assume p: "prefix mempool_keyPrefix k"
  show "txn_Get B d' k = Inr v \<longleftrightarrow>
    (\<exists>ep' op'. k = op_key L ep' op' \<and> v = op_doc L op' \<and> map_add_op ep op M ep' (Sender op') (Nonce op') = Some op')"
  proof (cases "k = op_key L ep op")
    case True
    then show ?thesis
      using badger_okD(1) [OF assms(2,4)]
      by (auto simp: op_key_inject [OF assms(1)] map_add_op_def)
  next
    case False
    then have "txn_Get B d' k = txn_Get B d k" by (rule badger_okD(2) [OF assms(2,4)])
    moreover have "k = op_key L ep' op' \<Longrightarrow> map_add_op ep op M ep' (Sender op') (Nonce op') = M ep' (Sender op') (Nonce op')"
      for ep' op'
      using False by (auto simp: op_key_inject [OF assms(1)] map_add_op_def)
    ultimately show ?thesis using assms(3) p unfolding db_agrees_def by metis
  qed
qed

lemma delete_keys_Get:
  assumes "badger_ok B"
  shows "delete_keys B ks d = Inr d' \<Longrightarrow>
    (k \<in> set ks \<longrightarrow> txn_Get B d' k = Inl ErrKeyNotFound) \<and> (k \<notin> set ks \<longrightarrow> txn_Get B d' k = txn_Get B d k)"
proof (induction ks arbitrary: d)
  case Nil
  then show ?case by simp
next
  case (Cons x ks)
  then obtain d1 where d1: "txn_Delete B d x = Inr d1" "delete_keys B ks d1 = Inr d'"
    by (auto simp: bind_res_eq_Inr)
  show ?case
    using Cons.IH [OF d1(2)] badger_okD(3) [OF assms d1(1)] badger_okD(4) [OF assms d1(1)]
    by (cases "k \<in> set ks"; cases "k = x") auto
qed

lemma db_agrees_Delete:
  assumes "eth_lib_ok L" "badger_ok B" "db_agrees L B M d" "delete_keys B (map (op_key L ep) ops) d = Inr d'"
  shows "db_agrees L B (map_remove_ops ep ops M) d'"
  unfolding db_agrees_def
proof (intro allI impI)
  fix k v assume p: "prefix mempool_keyPrefix k"
  note get = delete_keys_Get [OF assms(2,4), of k]
  show "txn_Get B d' k = Inr v \<longleftrightarrow>
    (\<exists>ep' op'. k = op_key L ep' op' \<and> v = op_doc L op' \<and> map_remove_ops ep ops M ep' (Sender op') (Nonce op') = Some op')"
  proof (cases "k \<in> op_key L ep ` set ops")
    case True
    then show ?thesis
      using get by (auto simp: op_key_inject [OF assms(1)] map_remove_ops_def image_iff)
  next
    case False
    then have "txn_Get B d' k = txn_Get B d k" using get by auto
    moreover have "k = op_key L ep' op' \<Longrightarrow> map_remove_ops ep ops M ep' (Sender op') (Nonce op') = M ep' (Sender op') (Nonce op')"
      for ep' op'
      using False by (auto simp: op_key_inject [OF assms(1)] map_remove_ops_def image_iff)
    ultimately show ?thesis using assms(3) p unfolding db_agrees_def by metis
  qed
qed

lemma lookup_keys:
  assumes "pool_inv L B S nodes m" "lookup L nodes (mp_queue m) ep a n = Some op"
  shows "Sender op = a \<and> Nonce op = n"
  using lookup_key [OF pool_invD(1,3,4) [OF assms(1)] assms(2)] .

lemma lookup_AddOp_map:
  "eth_lib_ok L \<Longrightarrow> sortedset_ok S nodes \<Longrightarrow>
    lookup L nodes (queue_AddOp L S q ep op) = map_add_op ep op (lookup L nodes q)"
  by (intro ext) (simp add: lookup_AddOp map_add_op_def)

lemma lookup_RemoveOps_map:
  "eth_lib_ok L \<Longrightarrow> sortedset_ok S nodes \<Longrightarrow>
    lookup L nodes (queue_RemoveOps L S q ep ops) = map_remove_ops ep ops (lookup L nodes q)"
  by (intro ext) (simp add: lookup_RemoveOps map_remove_ops_def)

lemma AddOp_cases:
  obtains (error) e where "AddOp L B S ep op m = (Some e, m)"
  | (added) d where "txn_Set B (mp_db m) (op_key L ep op) (op_doc L op) = Inr d"
      "AddOp L B S ep op m = (None, m\<lparr>mp_db := d, mp_queue := queue_AddOp L S (mp_queue m) ep op,
        mp_content := new_object ep op (mp_content m)\<rparr>)"
proof (cases rule: db_Update_cases [of B "\<lambda>txn. txn_Set B txn (op_key L ep op) (op_doc L op)" "mp_db m"])
  case (error e)
  then show ?thesis by (intro that(1) [of e]) (simp add: AddOp_def op_key_def op_doc_def)
next
  case (ok d)
  then show ?thesis by (intro that(2) [of d]) (simp_all add: AddOp_def op_key_def op_doc_def)
qed

lemma RemoveOps_cases:
  obtains (error) e where "RemoveOps L B S ep ops m = (Some e, m)"
  | (removed) d where "delete_keys B (map (op_key L ep) ops) (mp_db m) = Inr d"
      "RemoveOps L B S ep ops m = (None, m\<lparr>mp_db := d, mp_queue := queue_RemoveOps L S (mp_queue m) ep ops\<rparr>)"
proof (cases rule: db_Update_cases [of B "delete_keys B (map (op_key L ep) ops)" "mp_db m"])
  case (error e)
  then show ?thesis by (intro that(1) [of e]) (simp add: RemoveOps_def op_key_def [abs_def])
next
  case (ok d)
  then show ?thesis by (intro that(2) [of d]) (simp_all add: RemoveOps_def op_key_def [abs_def])
qed

lemma AddOp_inv:
  assumes "pool_inv L B S nodes m" "wf_op op"
  shows "pool_inv L B S nodes (snd (AddOp L B S ep op m))"
proof (cases rule: AddOp_cases [of L B S ep op m])
  case (error e)
  then show ?thesis using assms(1) by simp
next
  case (added d)
  note inv = pool_invD [OF assms(1)]
  have "lookup L nodes (queue_AddOp L S (mp_queue m) ep op) ep' a n = Some x \<Longrightarrow> wf_op x" for ep' a n x
    using inv(5) assms(2) by (auto simp: lookup_AddOp [OF inv(1,3)] split: if_splits)
  moreover have "db_agrees L B (map_add_op ep op (lookup L nodes (mp_queue m))) d"
    using db_agrees_Set [OF inv(1,2,6) added(1)] lookup_keys [OF assms(1)] by blast
  ultimately show ?thesis
    using inv queue_ok_AddOp [OF inv(1,3,4), of ep op] content_ok_new [OF inv(7)]
    by (simp add: added(2) pool_inv_def lookup_AddOp_map [OF inv(1,3)])
qed

lemma RemoveOps_inv:
  assumes "pool_inv L B S nodes m"
  shows "pool_inv L B S nodes (snd (RemoveOps L B S ep ops m))"
proof (cases rule: RemoveOps_cases [of L B S ep ops m])
  case (error e)
  then show ?thesis using assms(1) by simp
next
  case (removed d)
  note inv = pool_invD [OF assms(1)]
  have "lookup L nodes (queue_RemoveOps L S (mp_queue m) ep ops) ep' a n = Some x \<Longrightarrow> wf_op x" for ep' a n x
    using inv(5) by (auto simp: lookup_RemoveOps [OF inv(1,3)] split: if_splits)
  moreover have "db_agrees L B (map_remove_ops ep ops (lookup L nodes (mp_queue m))) d"
    using db_agrees_Delete [OF inv(1,2,6) removed(1)] .
  ultimately show ?thesis
    using inv queue_ok_RemoveOps [OF inv(1,3,4), of ep ops]
    by (simp add: removed(2) pool_inv_def lookup_RemoveOps_map [OF inv(1,3)])
qed

text \<open>The contents of the pool, as a map.\<close>

lemma look_new:
  assumes "\<And>a n x. M ep a n = Some x \<Longrightarrow> Sender x = a \<and> Nonce x = n"
  shows "(\<lambda>ep' a n. map_option (new_object ep op f ep') (map_add_op ep op M ep' a n)) =
    map_add_op ep op (\<lambda>ep' a n. map_option (f ep') (M ep' a n))"
proof (intro ext)
  fix ep' a n
  show "map_option (new_object ep op f ep') (map_add_op ep op M ep' a n) =
    map_add_op ep op (\<lambda>ep' a n. map_option (f ep') (M ep' a n)) ep' a n"
  proof (cases "ep' = ep")
    case True
    show ?thesis
    proof (cases "M ep a n")
      case None
      then show ?thesis by (simp add: True map_add_op_def new_object_def)
    next
      case (Some x)
      with assms [OF Some] show ?thesis by (simp add: True map_add_op_def new_object_def)
    qed
  qed (simp add: map_add_op_def new_object_def)
qed

lemma look_remove:
  "(\<lambda>ep' a n. map_option (f ep') (map_remove_ops ep ops M ep' a n)) =
    map_remove_ops ep ops (\<lambda>ep' a n. map_option (f ep') (M ep' a n))"
  by (intro ext) (simp add: map_remove_ops_def)

lemma AddOp_look:
  assumes "pool_inv L B S nodes m"
  shows "pool_look L nodes (snd (AddOp L B S ep op m)) =
    (if fst (AddOp L B S ep op m) = None then map_add_op ep op (pool_look L nodes m) else pool_look L nodes m)"
proof (cases rule: AddOp_cases [of L B S ep op m])
  case (added d)
  have "Sender x = a \<and> Nonce x = n" if "lookup L nodes (mp_queue m) ep a n = Some x" for a n x
    using lookup_keys [OF assms that] .
  from look_new [OF this] show ?thesis
    by (simp add: added pool_look_def lookup_AddOp_map [OF pool_invD(1,3) [OF assms]])
qed simp

lemma RemoveOps_look:
  assumes "pool_inv L B S nodes m"
  shows "pool_look L nodes (snd (RemoveOps L B S ep ops m)) =
    (if fst (RemoveOps L B S ep ops m) = None then map_remove_ops ep ops (pool_look L nodes m) else pool_look L nodes m)"
  by (cases rule: RemoveOps_cases [of L B S ep ops m])
    (auto simp: pool_look_def lookup_RemoveOps_map [OF pool_invD(1,3) [OF assms]] look_remove)

lemma Clear_inv:
  assumes "pool_inv L B S nodes m"
  shows "pool_inv L B S nodes (snd (Clear B m))"
    "pool_look L nodes (snd (Clear B m)) =
      (if fst (Clear B m) = None then (\<lambda>ep a n. None) else pool_look L nodes m)"
proof -
  note I = pool_invD [OF assms]
  have new: "lookup L nodes newUserOpQueue = (\<lambda>ep a n. None)" by (intro ext) (rule lookup_new)
  show "pool_inv L B S nodes (snd (Clear B m))"
    using I(1-3,7) assms badger_okD(7) [OF I(2)]
    by (cases "db_DropAll B (mp_db m)") (auto simp: Clear_def pool_inv_def queue_ok_new new db_agrees_def)
  show "pool_look L nodes (snd (Clear B m)) =
      (if fst (Clear B m) = None then (\<lambda>ep a n. None) else pool_look L nodes m)"
    by (cases "db_DropAll B (mp_db m)") (auto simp: Clear_def pool_look_def new)
qed

lemma Dump_inv:
  assumes "pool_inv L B S nodes m"
  shows "pool_inv L B S nodes (snd (Dump S ep m))" "pool_look L nodes (snd (Dump S ep m)) = pool_look L nodes m"
  using assms lookup_queries(1) [OF pool_invD(3) [OF assms], of L "mp_queue m" ep]
    queue_ok_queries(1) [OF pool_invD(3,4) [OF assms], of ep]
  by (auto simp: Dump_def pool_look_def pool_inv_def split: prod.splits)

lemma Dump_fst: "fst (Dump S ep m) = map (mp_content m ep) (fst (queue_All S (mp_queue m) ep))"
  by (simp add: Dump_def split: prod.splits)

lemma Dump_set:
  assumes "pool_inv L B S nodes m"
  shows "op \<in> set (fst (Dump S ep m)) \<longleftrightarrow> pool_look L nodes m ep (Sender op) (Nonce op) = Some op"
proof -
  note I = pool_invD [OF assms]
  have look: "lookup L nodes (mp_queue m) ep (Sender x) (Nonce x) = Some x \<longleftrightarrow> x \<in> set (fst (queue_All S (mp_queue m) ep))" for x
    using queue_All_ops(1) [OF I(3,4), of ep] lookup_op [OF I(3,4), of ep x] by simp
  show ?thesis
  proof
    assume "op \<in> set (fst (Dump S ep m))"
    then obtain x where "x \<in> set (fst (queue_All S (mp_queue m) ep))" "op = mp_content m ep x" by (auto simp: Dump_fst)
    with look [of x] show "pool_look L nodes m ep (Sender op) (Nonce op) = Some op"
      by (simp add: pool_look_def content_okD [OF I(7)])
  next
    assume "pool_look L nodes m ep (Sender op) (Nonce op) = Some op"
    then obtain x where x: "lookup L nodes (mp_queue m) ep (Sender op) (Nonce op) = Some x" "op = mp_content m ep x"
      by (auto simp: pool_look_def)
    with lookup_keys [OF assms x(1)] look [of x] show "op \<in> set (fst (Dump S ep m))" by (simp add: Dump_fst)
  qed
qed

lemma Dump_distinct:
  assumes "pool_inv L B S nodes m"
  shows "distinct (map (\<lambda>op. (Sender op, Nonce op)) (fst (Dump S ep m)))"
proof -
  have "distinct (map (op_key L ep) ops) \<Longrightarrow> distinct (map (\<lambda>op. (Sender op, Nonce op)) ops)" for ops
    by (induction ops) (auto simp: op_key_def)
  then show ?thesis
    using queue_All_ops(2) [OF pool_invD(3,4) [OF assms], of ep] content_okD [OF pool_invD(7) [OF assms]]
    by (simp add: Dump_fst comp_def)
qed

interpretation pool: op_pool "pool_inv L B S nodes" "pool_look L nodes" "AddOp L B S" "RemoveOps L B S"
    "Clear B" "Dump S"
  for L and B :: "'d badger" and S :: "'s sset" and nodes
proof
  fix m :: "('d, 's, 'x) mempool_scheme" and ep a n op ops
  assume inv: "pool_inv L B S nodes m"
  note I = pool_invD [OF inv]
  show "pool_look L nodes m ep a n = Some op \<Longrightarrow> Sender op = a \<and> Nonce op = n"
    using lookup_keys [OF inv] content_okD [OF I(7)] by (auto simp: pool_look_def)
  show "wf_op op \<Longrightarrow> pool_inv L B S nodes (snd (AddOp L B S ep op m))"
    by (rule AddOp_inv [OF inv])
  show "pool_look L nodes (snd (AddOp L B S ep op m)) =
      (if fst (AddOp L B S ep op m) = None then map_add_op ep op (pool_look L nodes m) else pool_look L nodes m)"
    by (rule AddOp_look [OF inv])
  show "pool_inv L B S nodes (snd (RemoveOps L B S ep ops m))"
    by (rule RemoveOps_inv [OF inv])
  show "pool_look L nodes (snd (RemoveOps L B S ep ops m)) =
      (if fst (RemoveOps L B S ep ops m) = None then map_remove_ops ep ops (pool_look L nodes m) else pool_look L nodes m)"
    by (rule RemoveOps_look [OF inv])
  show "pool_inv L B S nodes (snd (Clear B m))"
    "pool_look L nodes (snd (Clear B m)) =
      (if fst (Clear B m) = None then (\<lambda>ep a n. None) else pool_look L nodes m)"
    using Clear_inv [OF inv] by simp_all
  show "pool_inv L B S nodes (snd (Dump S ep m))" "pool_look L nodes (snd (Dump S ep m)) = pool_look L nodes m"
    by (rule Dump_inv [OF inv])+
  show "op \<in> set (fst (Dump S ep m)) \<longleftrightarrow> pool_look L nodes m ep (Sender op) (Nonce op) = Some op"
    by (rule Dump_set [OF inv])
  show "distinct (map (\<lambda>op. (Sender op, Nonce op)) (fst (Dump S ep m)))"
    by (rule Dump_distinct [OF inv])
qed

subsection \<open>Loading the database\<close>

lemma getUserOpFromDBValue_op_doc:
  assumes "eth_lib_ok L" "wf_op op"
  shows "getUserOpFromDBValue L (op_doc L op) = Inr op"
proof -
  have "distinct (map fst (MarshalJSON L op))" by (simp add: MarshalJSON_def)
  then have "map_of (rev (MarshalJSON L op)) = map_of (MarshalJSON L op)"
    by (subst map_of_inject_set) (simp_all add: rev_map [symmetric])
  then show ?thesis
    using New_userop_ToMap [OF assms] by (simp add: getUserOpFromDBValue_def op_doc_def ToMap_def)
qed

definition disk_item :: "'y userop_lib_scheme \<Rightarrow> address \<times> user_op \<Rightarrow> string \<times> db_value res" where
  "disk_item L p = (op_key L (fst p) (snd p), Inr (op_doc L (snd p)))"

definition add_pair :: "address \<times> user_op \<Rightarrow> pool_map \<Rightarrow> pool_map" where
  "add_pair p = map_add_op (fst p) (snd p)"

lemma load_items_pairs:
  assumes "eth_lib_ok L" "sortedset_ok S nodes"
  shows "queue_ok L nodes q \<Longrightarrow> \<forall>p \<in> set ps. wf_op (snd p) \<Longrightarrow>
    \<exists>q'. load_items L S (map (disk_item L) ps) q = Inr q' \<and> queue_ok L nodes q' \<and>
      lookup L nodes q' = fold add_pair ps (lookup L nodes q)"
proof (induction ps arbitrary: q)
  case Nil
  then show ?case by simp
next
  case (Cons p ps)
  have "queue_ok L nodes (queue_AddOp L S q (fst p) (snd p))"
    by (rule queue_ok_AddOp [OF assms Cons.prems(1)])
  from Cons.IH [OF this] Cons.prems(2) show ?case
    by (simp add: disk_item_def [of L p] op_key_def getEntryPointFromDBKey_unique [OF assms(1)]
        getUserOpFromDBValue_op_doc [OF assms(1)] lookup_AddOp_map [OF assms] add_pair_def)
qed

lemma add_pair_apply:
  "add_pair p M ep a n = (if ep = fst p \<and> a = Sender (snd p) \<and> n = Nonce (snd p) then Some (snd p) else M ep a n)"
  by (simp add: add_pair_def map_add_op_def)

lemma fold_add_pair:
  assumes "eth_lib_ok L"
  shows "distinct (map (\<lambda>p. op_key L (fst p) (snd p)) ps) \<Longrightarrow>
    fold add_pair ps M ep a n = Some op \<longleftrightarrow>
      (ep, op) \<in> set ps \<and> Sender op = a \<and> Nonce op = n \<or>
      (\<forall>x. (ep, x) \<in> set ps \<longrightarrow> (Sender x, Nonce x) \<noteq> (a, n)) \<and> M ep a n = Some op"
proof (induction ps arbitrary: M)
  case Nil
  then show ?case by simp
next
  case (Cons p ps)
  obtain e x where p: "p = (e, x)" by (cases p)
  have new: "(e, y) \<in> set ps \<Longrightarrow> (Sender y, Nonce y) \<noteq> (Sender x, Nonce x)" for y
    using Cons.prems p by (force simp: op_key_inject [OF assms])
  have "distinct (map (\<lambda>p. op_key L (fst p) (snd p)) ps)" using Cons.prems by simp
  note IH = Cons.IH [OF this, of "add_pair p M"]
  have "fold add_pair (p # ps) M ep a n = Some op \<longleftrightarrow>
      (ep, op) \<in> set ps \<and> Sender op = a \<and> Nonce op = n \<or>
      (\<forall>x. (ep, x) \<in> set ps \<longrightarrow> (Sender x, Nonce x) \<noteq> (a, n)) \<and> add_pair p M ep a n = Some op"
    by (simp only: fold_simps comp_apply IH)
  also have "add_pair p M ep a n = (if ep = e \<and> a = Sender x \<and> n = Nonce x then Some x else M ep a n)"
    by (simp add: add_pair_apply p)
  finally show ?case
    using new by (cases "ep = e \<and> a = Sender x \<and> n = Nonce x") (auto simp: p)
qed

lemma ex_map_choice: "\<forall>x \<in> set xs. \<exists>y. x = f y \<and> P y \<Longrightarrow> \<exists>ys. xs = map f ys \<and> (\<forall>y \<in> set ys. P y)"
proof (induction xs)
  case (Cons x xs)
  then obtain y ys where "x = f y" "P y" "xs = map f ys" "\<forall>y \<in> set ys. P y" by auto
  then show ?case by (intro exI [of _ "y # ys"]) simp
qed simp

lemma New_mempool_reload:
  assumes "pool_inv L B S nodes m"
    and "\<forall>k e. (k, Inl e) \<notin> set (txn_Iterate B (mp_db m) mempool_keyPrefix)"
  obtains m' where "New_mempool L B S (mp_db m) = Inr m'" "mp_db m' = mp_db m"
    "pool_inv L B S nodes m'" "pool_look L nodes m' = pool_stored L nodes m"
proof -
  note I = pool_invD [OF assms(1)]
  let ?M = "lookup L nodes (mp_queue m)"
  let ?items = "txn_Iterate B (mp_db m) mempool_keyPrefix"
  have items: "(k, r) \<in> set ?items \<longleftrightarrow>
    (\<exists>ep op. (k, r) = disk_item L (ep, op) \<and> ?M ep (Sender op) (Nonce op) = Some op)" for k r
  proof (cases r)
    case (Inl e)
    then show ?thesis using assms(2) by (auto simp: disk_item_def)
  next
    case (Inr v)
    have pre: "prefix mempool_keyPrefix (op_key L ep op)" for ep op
      by (simp add: op_key_def getUniqueKey_prefix)
    show ?thesis
      unfolding Inr badger_okD(5) [OF I(2)] disk_item_def
      using I(6) pre unfolding db_agrees_def by (metis fst_conv snd_conv Pair_inject sum.inject(2))
  qed
  have "\<forall>it \<in> set ?items. \<exists>p. it = disk_item L p \<and> ?M (fst p) (Sender (snd p)) (Nonce (snd p)) = Some (snd p)"
    using items by fastforce
  from ex_map_choice [OF this] obtain ps where ps: "?items = map (disk_item L) ps"
    and M: "\<forall>p \<in> set ps. ?M (fst p) (Sender (snd p)) (Nonce (snd p)) = Some (snd p)" by blast
  have "\<forall>p \<in> set ps. wf_op (snd p)" using M I(5) by blast
  from load_items_pairs [OF I(1,3) queue_ok_new this]
  obtain q' where q': "load_items L S ?items newUserOpQueue = Inr q'" "queue_ok L nodes q'"
    "lookup L nodes q' = fold add_pair ps (lookup L nodes newUserOpQueue)"
    unfolding ps by blast
  have "map fst ?items = map (\<lambda>p. op_key L (fst p) (snd p)) ps" by (simp add: ps disk_item_def)
  then have dist: "distinct (map (\<lambda>p. op_key L (fst p) (snd p)) ps)"
    using badger_okD(6) [OF I(2)] by metis
  have mem: "(ep, op) \<in> set ps" if "?M ep (Sender op) (Nonce op) = Some op" for ep op
  proof -
    have "disk_item L (ep, op) \<in> set ?items" using items that by (metis surj_pair)
    then obtain p where p: "p \<in> set ps" "disk_item L (ep, op) = disk_item L p" unfolding ps by auto
    then have "fst p = ep \<and> Sender (snd p) = Sender op \<and> Nonce (snd p) = Nonce op"
      by (simp add: disk_item_def op_key_inject [OF I(1)])
    moreover have "?M (fst p) (Sender (snd p)) (Nonce (snd p)) = Some (snd p)" using M p(1) by (rule bspec)
    ultimately have "p = (ep, op)" using that by (metis option.inject prod.collapse)
    then show ?thesis using p(1) by simp
  qed
  have "lookup L nodes q' ep a n = Some op \<longleftrightarrow> (ep, op) \<in> set ps \<and> Sender op = a \<and> Nonce op = n" for ep a n op
    unfolding q'(3) fold_add_pair [OF I(1) dist] by (simp add: lookup_new)
  moreover have "(ep, op) \<in> set ps \<and> Sender op = a \<and> Nonce op = n \<longleftrightarrow> ?M ep a n = Some op" for ep a n op
    using bspec [OF M, of "(ep, op)"] mem [of ep op] lookup_keys [OF assms(1), of ep a n op] by auto
  ultimately have "lookup L nodes q' ep a n = Some op \<longleftrightarrow> ?M ep a n = Some op" for ep a n op
    by (rule trans)
  then have eq: "lookup L nodes q' = ?M" by (intro ext option_eqI)
  let ?m' = "\<lparr>mp_db = mp_db m, mp_queue = q', mp_content = (\<lambda>ep x. x)\<rparr>"
  show thesis
  proof (rule that [of ?m'])
    show "New_mempool L B S (mp_db m) = Inr ?m'"
      using q'(1) by (simp add: New_mempool_def loadFromDisk_def)
    show "pool_inv L B S nodes ?m'"
      using assms(1) q'(2) by (simp add: pool_inv_def eq content_ok_def)
    show "pool_look L nodes ?m' = pool_stored L nodes m"
      by (simp add: pool_look_def pool_stored_def eq option.map_ident)
  qed simp
qed

lemma GetOps_fst: "fst (GetOps S m ep a) = map (mp_content m ep) (fst (queue_GetOps S (mp_queue m) ep a))"
  by (simp add: GetOps_def split: prod.splits)

lemma GetOps_set:
  assumes "pool_inv L B S nodes m"
  shows "set (fst (GetOps S m ep a)) = {op \<in> set (fst (Dump S ep m)). Sender op = a}"
  using queue_GetOps_ops(1) [OF pool_invD(3,4) [OF assms], of ep a]
    queue_All_ops(1) [OF pool_invD(3,4) [OF assms], of ep] content_okD(1) [OF pool_invD(7) [OF assms]]
  by (auto simp: GetOps_fst Dump_fst)

subsection \<open>Order of arrival\<close>

text \<open>
  The set of all operations scores an operation by the number of nodes present. As long as keys are
  new and nothing is removed, the scores are 0, 1, 2, ... and the rank order is the order of arrival.
\<close>

definition all_nodes :: "('s \<Rightarrow> user_op node list) \<Rightarrow> 's queues \<Rightarrow> address \<Rightarrow> user_op node list" where
  "all_nodes nodes q ep = (case q ep of None \<Rightarrow> [] | Some s \<Rightarrow> nodes (set_all s))"

definition number_nodes :: "'y userop_lib_scheme \<Rightarrow> address \<Rightarrow> user_op list \<Rightarrow> user_op node list" where
  "number_nodes L ep ops = map (\<lambda>(i, op). (op_key L ep op, int i, op)) (enumerate 0 ops)"

lemma number_nodes_snoc:
  "number_nodes L ep (ops @ [op]) = number_nodes L ep ops @ [(op_key L ep op, int (length ops), op)]"
  by (simp add: number_nodes_def enumerate_append_eq)

lemma number_nodes_mem:
  "nd \<in> set (number_nodes L ep ops) \<Longrightarrow>
    node_score nd < int (length ops) \<and> node_key nd \<in> op_key L ep ` set ops"
  by (auto simp: number_nodes_def enumerate_eq_zip dest: set_zip_rightD set_zip_leftD)

lemma number_nodes_values: "map node_value (number_nodes L ep ops) = ops"
  by (induction ops rule: rev_induct) (simp_all add: number_nodes_snoc, simp add: number_nodes_def)

lemma all_nodes_AddOp:
  assumes "sortedset_ok S nodes" "all_nodes nodes q ep = number_nodes L ep ops"
    and "op_key L ep op \<notin> op_key L ep ` set ops" "int (length ops) < 2 ^ 63"
  shows "all_nodes nodes (queue_AddOp L S q ep op) ep = number_nodes L ep (ops @ [op])"
proof (rule sorted_wrt_same_set)
  let ?new = "queue_AddOp L S q ep op" and ?N = "number_nodes L ep ops"
  have len: "length ?N = length ops" by (simp add: number_nodes_def)
  have ord: "sorted_wrt node_less (all_nodes nodes x ep)" for x
    using sortedset_okD(3) [OF assms(1)] by (simp add: all_nodes_def split: option.splits)
  show "sorted_wrt node_less (all_nodes nodes ?new ep)" by (rule ord)
  have "node_less nd (op_key L ep op, int (length ops), op)" if "nd \<in> set ?N" for nd
    using number_nodes_mem [OF that] by (cases nd) auto
  then show "sorted_wrt node_less (number_nodes L ep (ops @ [op]))"
    using ord [of q] unfolding assms(2) by (simp add: number_nodes_snoc sorted_wrt_append)
  have "ss_GetCount S (set_all (fst (getEntryPointSet S q ep))) = int (length ops)"
    using assms(2) len sortedset_okD(1,2) [OF assms(1)]
    by (cases "q ep") (auto simp: getEntryPointSet_def all_nodes_def Let_def)
  then have wrap: "wrap64 (ss_GetCount S (set_all (fst (getEntryPointSet S q ep)))) = int (length ops)"
    using assms(4) by (simp add: wrap64_id)
  have "set (all_nodes nodes ?new ep) = insert (op_key L ep op,
      wrap64 (ss_GetCount S (set_all (fst (getEntryPointSet S q ep)))), op)
      {n \<in> set (all_nodes nodes q ep). node_key n \<noteq> op_key L ep op}"
    using assms(1)
    by (auto simp: all_nodes_def queue_AddOp_def queue_get_defs op_key_def sortedset_okD split: option.splits)
  moreover have "{n \<in> set ?N. node_key n \<noteq> op_key L ep op} = set ?N"
    using number_nodes_mem assms(3) by fastforce
  ultimately show "set (all_nodes nodes ?new ep) = set (number_nodes L ep (ops @ [op]))"
    unfolding wrap assms(2) by (simp add: number_nodes_snoc)
qed

lemma run_adds_fifo:
  assumes "eth_lib_ok L" "sortedset_ok S nodes"
  shows "all_nodes nodes (mp_queue m) ep = number_nodes L ep old \<Longrightarrow>
    run_cmds (AddOp L B S) (RemoveOps L B S) (Clear B) (map (PAdd ep) ops) m = (errs, m') \<Longrightarrow>
    set errs \<subseteq> {None} \<Longrightarrow> distinct (map (\<lambda>op. (Sender op, Nonce op)) (old @ ops)) \<Longrightarrow>
    int (length (old @ ops)) < 2 ^ 63 \<Longrightarrow>
    all_nodes nodes (mp_queue m') ep = number_nodes L ep (old @ ops)"
proof (induction ops arbitrary: m old errs)
  case Nil
  then show ?case by simp
next
  case (Cons op ops)
  obtain e m1 es where r: "AddOp L B S ep op m = (e, m1)" "errs = e # es"
    "run_cmds (AddOp L B S) (RemoveOps L B S) (Clear B) (map (PAdd ep) ops) m1 = (es, m')"
    using Cons.prems(2) by (auto split: prod.splits)
  have "e = None" "set es \<subseteq> {None}" using Cons.prems(3) r(2) by auto
  then have m1: "mp_queue m1 = queue_AddOp L S (mp_queue m) ep op"
    using r(1) by (cases rule: AddOp_cases [of L B S ep op m]) auto
  have "op_key L ep op \<notin> op_key L ep ` set old"
    using Cons.prems(4) by (force simp: op_key_inject [OF assms(1)])
  then have "all_nodes nodes (mp_queue m1) ep = number_nodes L ep (old @ [op])"
    unfolding m1 using all_nodes_AddOp [OF assms(2) Cons.prems(1)] Cons.prems(5) by simp
  from Cons.IH [OF this r(3) \<open>set es \<subseteq> {None}\<close>] Cons.prems(4,5) show ?case by simp
qed

lemma run_adds_content:
  "run_cmds (AddOp L B S) (RemoveOps L B S) (Clear B) (map (PAdd ep) ops) m = (errs, m') \<Longrightarrow> set errs \<subseteq> {None} \<Longrightarrow>
    x \<in> set ops \<or> mp_content m ep x = x \<Longrightarrow> mp_content m' ep x = x"
proof (induction ops arbitrary: m errs)
  case (Cons op ops)
  obtain e m1 es where r: "AddOp L B S ep op m = (e, m1)" "errs = e # es"
    "run_cmds (AddOp L B S) (RemoveOps L B S) (Clear B) (map (PAdd ep) ops) m1 = (es, m')"
    using Cons.prems(1) by (auto split: prod.splits)
  have "e = None" "set es \<subseteq> {None}" using Cons.prems(2) r(2) by auto
  then have "mp_content m1 = new_object ep op (mp_content m)"
    using r(1) by (cases rule: AddOp_cases [of L B S ep op m]) auto
  with Cons.prems(3) have "x \<in> set ops \<or> mp_content m1 ep x = x" by (auto simp: new_object_def)
  from Cons.IH [OF r(3) \<open>set es \<subseteq> {None}\<close> this] show ?case .
qed simp

lemma Dump_all_nodes:
  assumes "sortedset_ok S nodes"
  shows "fst (Dump S ep m) = map (mp_content m ep) (map node_value (all_nodes nodes (mp_queue m) ep))"
  using sortedset_okD(1) [OF assms]
  by (cases "mp_queue m ep") (simp_all add: Dump_fst queue_All_def getEntryPointSet_def Let_def
      all_nodes_def range_ascending [OF assms])

subsection \<open>Properties\<close>

definition empty_pool :: "((string \<times> db_value) list, user_op node list) mempool" where
  "empty_pool = \<lparr>mp_db = [], mp_queue = newUserOpQueue, mp_content = (\<lambda>ep x. x)\<rparr>"

lemma empty_pool_inv: "pool_inv userop_ref badger_ref sortedset_ref ss_nodes empty_pool"
proof -
  have "lookup userop_ref ss_nodes newUserOpQueue ep a n = None" for ep a n by (rule lookup_new)
  then show ?thesis
    by (simp add: pool_inv_def userop_ref_ok badger_ref_ok sortedset_ref_ok empty_pool_def queue_ok_new
        db_agrees_def content_ok_def) (simp add: badger_ref_def)
qed

text \<open>
  C1: any history of \<open>AddOp\<close>, \<open>RemoveOps\<close> and \<open>Clear\<close> calls acts on the pool as on a map from
  (EntryPoint, sender, nonce) to operations: a successful addition replaces the operation with the
  same EntryPoint, sender and nonce, a call that returns an error changes nothing. \<open>Dump\<close> then
  returns each operation of the map for the EntryPoint once. The invariant (the database holds the
  operations of the queues as they were when they were added) holds throughout.
\<close>

theorem pool_history:
  assumes "pool_inv L B S nodes m" and "list_all cmd_wf cmds"
    and "run_cmds (AddOp L B S) (RemoveOps L B S) (Clear B) cmds m = (errs, m')"
  shows "pool_inv L B S nodes m' \<and>
    pool_look L nodes m' = spec_cmds (zip cmds errs) (pool_look L nodes m) \<and>
    (\<forall>op. op \<in> set (fst (Dump S ep m')) \<longleftrightarrow>
      spec_cmds (zip cmds errs) (pool_look L nodes m) ep (Sender op) (Nonce op) = Some op) \<and>
    distinct (map (\<lambda>op. (Sender op, Nonce op)) (fst (Dump S ep m')))"
proof -
  note run = pool.run_cmds_refines [OF assms]
  then show ?thesis using pool.dump_set [of L B S nodes m'] pool.dump_distinct [of L B S nodes m'] by simp
qed

theorem pool_history_witness:
  "pool_inv userop_ref badger_ref sortedset_ref ss_nodes
    (snd (run_cmds (AddOp userop_ref badger_ref sortedset_ref) (RemoveOps userop_ref badger_ref sortedset_ref)
      (Clear badger_ref) [PAdd 9 (sample_op 5 3), PRemove 9 [sample_op 5 3], PAdd 9 (sample_op 5 4)] empty_pool))"
proof -
  let ?run = "run_cmds (AddOp userop_ref badger_ref sortedset_ref) (RemoveOps userop_ref badger_ref sortedset_ref)
      (Clear badger_ref) [PAdd 9 (sample_op 5 3), PRemove 9 [sample_op 5 3], PAdd 9 (sample_op 5 4)] empty_pool"
  obtain es m' where run: "?run = (es, m')" by (cases ?run)
  have "list_all cmd_wf [PAdd 9 (sample_op 5 3), PRemove 9 [sample_op 5 3], PAdd 9 (sample_op 5 4)]"
    by (simp add: cmd_wf_def sample_op_wf)
  from pool_history [OF empty_pool_inv this run] show ?thesis unfolding run by simp
qed

text \<open>
  C2: a pool created from the database of a running pool holds the operations of that pool as they
  were when they were added, for every EntryPoint, and satisfies the invariant, when the storage reads
  its entries without an error. They are the operations of the pool when no solution has been written
  into one.
\<close>

theorem New_mempool_restores:
  assumes "pool_inv L B S nodes m"
    and "\<forall>k e. (k, Inl e) \<notin> set (txn_Iterate B (mp_db m) mempool_keyPrefix)"
  shows "\<exists>m'. New_mempool L B S (mp_db m) = Inr m' \<and> pool_inv L B S nodes m' \<and>
    (\<forall>ep op. op \<in> set (fst (Dump S ep m')) \<longleftrightarrow> pool_stored L nodes m ep (Sender op) (Nonce op) = Some op) \<and>
    (pool_stored L nodes m = pool_look L nodes m \<longrightarrow>
      (\<forall>ep. set (fst (Dump S ep m')) = set (fst (Dump S ep m)) \<and>
        (\<forall>a. set (fst (GetOps S m' ep a)) = set (fst (GetOps S m ep a)))))"
proof -
  obtain m' where m': "New_mempool L B S (mp_db m) = Inr m'" "pool_inv L B S nodes m'"
    "pool_look L nodes m' = pool_stored L nodes m"
    by (rule New_mempool_reload [OF assms])
  have stored: "op \<in> set (fst (Dump S ep m')) \<longleftrightarrow> pool_stored L nodes m ep (Sender op) (Nonce op) = Some op" for ep op
    using pool.dump_set [OF m'(2)] m'(3) by simp
  have same: "set (fst (Dump S ep m')) = set (fst (Dump S ep m)) \<and>
      set (fst (GetOps S m' ep a)) = set (fst (GetOps S m ep a))" if "pool_stored L nodes m = pool_look L nodes m" for ep a
  proof -
    have "set (fst (Dump S ep m')) = set (fst (Dump S ep m))" using stored pool.dump_set [OF assms(1)] that by auto
    then show ?thesis using GetOps_set [OF m'(2)] GetOps_set [OF assms(1)] by simp
  qed
  show ?thesis using m'(1,2) stored same by blast
qed

theorem New_mempool_restores_witness:
  "\<exists>m'. New_mempool userop_ref badger_ref sortedset_ref
      (mp_db (snd (AddOp userop_ref badger_ref sortedset_ref 9 (sample_op 5 3) empty_pool))) = Inr m' \<and>
    pool_inv userop_ref badger_ref sortedset_ref ss_nodes m'"
proof -
  let ?m = "snd (AddOp userop_ref badger_ref sortedset_ref 9 (sample_op 5 3) empty_pool)"
  have "pool_inv userop_ref badger_ref sortedset_ref ss_nodes ?m"
    by (rule AddOp_inv [OF empty_pool_inv]) (simp add: sample_op_wf)
  moreover have "\<forall>k e. (k, Inl e) \<notin> set (txn_Iterate badger_ref (mp_db ?m) mempool_keyPrefix)"
    by (auto simp: badger_ref_def)
  ultimately show ?thesis
    using New_mempool_restores [of userop_ref badger_ref sortedset_ref ss_nodes ?m] by blast
qed

text \<open>
  \<open>GetOps\<close> returns the pooled operations of the EntryPoint and the sender, each once, highest
  nonce (as the 64-bit score) first, and leaves the pool's contents as they were.
\<close>

lemma GetOps_of_sender:
  assumes "pool_inv L B S nodes m"
  shows "set (fst (GetOps S m ep a)) = {op \<in> set (fst (Dump S ep m)). Sender op = a} \<and>
    sorted_wrt (\<lambda>x y. wrap64 (Nonce x) \<ge> wrap64 (Nonce y)) (fst (GetOps S m ep a)) \<and>
    distinct (fst (GetOps S m ep a)) \<and>
    pool_inv L B S nodes (snd (GetOps S m ep a)) \<and>
    pool_look L nodes (snd (GetOps S m ep a)) = pool_look L nodes m"
proof -
  note I = pool_invD [OF assms]
  have fst: "fst (GetOps S m ep a) = map (mp_content m ep) (fst (queue_GetOps S (mp_queue m) ep a))"
    "snd (GetOps S m ep a) = m\<lparr>mp_queue := snd (queue_GetOps S (mp_queue m) ep a)\<rparr>"
    by (simp_all add: GetOps_def split: prod.splits)
  have ids: "(\<lambda>x. op_key L ep (mp_content m ep x)) = op_key L ep"
    by (rule ext) (simp add: op_key_def content_okD [OF I(7)])
  have "distinct (map (op_key L ep) (fst (GetOps S m ep a)))"
    using queue_GetOps_ops(3) [OF I(3,4), of ep a] by (simp add: fst(1) comp_def ids)
  then have dist: "distinct (fst (GetOps S m ep a))" by (simp add: distinct_map)
  have sorted: "sorted_wrt (\<lambda>x y. wrap64 (Nonce x) \<ge> wrap64 (Nonce y)) (fst (GetOps S m ep a))"
    using queue_GetOps_ops(2) [OF I(3,4), of ep a] by (simp add: fst(1) sorted_wrt_map content_okD [OF I(7)])
  have "pool_inv L B S nodes (snd (GetOps S m ep a))" "pool_look L nodes (snd (GetOps S m ep a)) = pool_look L nodes m"
    using lookup_queries(2) [OF I(3), of L "mp_queue m" ep a] queue_ok_queries(2) [OF I(3,4), of ep a] assms
    by (simp_all add: fst(2) pool_look_def pool_inv_def)
  with GetOps_set [OF assms] dist sorted show ?thesis by simp
qed

lemma GetOps_of_sender_example:
  "set (fst (GetOps sortedset_ref (snd (AddOp userop_ref badger_ref sortedset_ref 9 (sample_op 5 3) empty_pool)) 9 5))
    = {sample_op 5 3}"
proof -
  let ?m = "snd (AddOp userop_ref badger_ref sortedset_ref 9 (sample_op 5 3) empty_pool)"
  have inv: "pool_inv userop_ref badger_ref sortedset_ref ss_nodes ?m"
    by (rule AddOp_inv [OF empty_pool_inv]) (simp add: sample_op_wf)
  have "fst (AddOp userop_ref badger_ref sortedset_ref 9 (sample_op 5 3) empty_pool) = None"
    by (simp add: AddOp_def db_Update_def badger_ref_def Let_def)
  from pool.add_look [OF empty_pool_inv, of 9 "sample_op 5 3"] this
  have look: "pool_look userop_ref ss_nodes ?m = map_add_op 9 (sample_op 5 3) (pool_look userop_ref ss_nodes empty_pool)"
    by simp
  have "pool_look userop_ref ss_nodes empty_pool 9 a n = None" for a n
    by (simp add: pool_look_def empty_pool_def lookup_new)
  then have "op \<in> set (fst (Dump sortedset_ref 9 ?m)) \<longleftrightarrow> op = sample_op 5 3" for op
    unfolding pool.dump_set [OF inv, of op 9] look map_add_op_def by (auto split: if_splits)
  then have "set (fst (Dump sortedset_ref 9 ?m)) = {sample_op 5 3}" by (intro set_eqI) simp
  moreover have "set (fst (GetOps sortedset_ref ?m 9 5)) = {op \<in> set (fst (Dump sortedset_ref 9 ?m)). Sender op = 5}"
    using GetOps_of_sender [OF inv, of 9 5] by (rule conjunct1)
  ultimately show ?thesis by (auto split: if_splits)
qed

text \<open>
  \<open>HasUserOpHash\<close> looks the hash up as a database key, and \<open>AddOp\<close> writes under keys
  that start with \<open>mempool\<close>: adding an operation never changes the answer for a hash.
\<close>

lemma HasUserOpHash_ignores_AddOp:
  assumes "badger_ok B" and "\<not> prefix ''mempool'' userOpHash"
  shows "HasUserOpHash B (snd (AddOp L B S ep op m)) userOpHash = HasUserOpHash B m userOpHash"
proof (cases rule: AddOp_cases [of L B S ep op m])
  case (added d)
  have "userOpHash \<noteq> op_key L ep op"
    using assms(2) getUniqueKey_prefix [of L ep "Sender op" "Nonce op"]
    by (auto simp: op_key_def mempool_keyPrefix_def JoinValues_def)
  then show ?thesis
    using badger_okD(2) [OF assms(1) added(1)] by (simp add: added(2) HasUserOpHash_def)
qed simp

lemma HasUserOpHash_ignores_AddOp_example:
  "HasUserOpHash badger_ref (snd (AddOp userop_ref badger_ref sortedset_ref 9 (sample_op 5 3) empty_pool)) ''0x12''
    = HasUserOpHash badger_ref empty_pool ''0x12''"
  by (rule HasUserOpHash_ignores_AddOp) (simp_all add: badger_ref_ok)

text \<open>
  C4: operations with distinct senders or nonces that are added to a pool with none for their
  EntryPoint are dumped in the order they arrived.
\<close>

theorem Dump_fifo:
  assumes "pool_inv L B S nodes m" and "fst (Dump S ep m) = []"
    and "run_cmds (AddOp L B S) (RemoveOps L B S) (Clear B) (map (PAdd ep) ops) m = (errs, m')"
    and "set errs \<subseteq> {None}" and "distinct (map (\<lambda>op. (Sender op, Nonce op)) ops)"
    and "int (length ops) < 2 ^ 63"
  shows "fst (Dump S ep m') = ops"
proof -
  note I = pool_invD(1,3) [OF assms(1)]
  have "all_nodes nodes (mp_queue m) ep = number_nodes L ep []"
    using assms(2) unfolding Dump_all_nodes [OF I(2)] by (simp add: number_nodes_def)
  from run_adds_fifo [OF I this assms(3,4)] assms(5,6)
  have "all_nodes nodes (mp_queue m') ep = number_nodes L ep ops" by simp
  moreover have "map (mp_content m' ep) ops = ops"
    using run_adds_content [OF assms(3,4)] by (intro map_idI) blast
  ultimately show ?thesis unfolding Dump_all_nodes [OF I(2)] by (simp add: number_nodes_values)
qed

lemma AddOp_ref: "fst (AddOp L badger_ref S ep op m) = None"
  by (simp add: AddOp_def db_Update_def badger_ref_def Let_def)

lemma run_adds_ref:
  "set (fst (run_cmds (AddOp L badger_ref S) (RemoveOps L badger_ref S) (Clear badger_ref) (map (PAdd ep) ops) m))
    \<subseteq> {None}"
proof (induction ops arbitrary: m)
  case (Cons op ops)
  show ?case
    using Cons [of "snd (AddOp L badger_ref S ep op m)"] AddOp_ref [of L S ep op m]
    by (auto split: prod.splits)
qed simp

theorem Dump_fifo_witness:
  "fst (Dump sortedset_ref 9 (snd (run_cmds (AddOp userop_ref badger_ref sortedset_ref)
      (RemoveOps userop_ref badger_ref sortedset_ref) (Clear badger_ref)
      (map (PAdd 9) [sample_op 5 4, sample_op 5 3]) empty_pool))) = [sample_op 5 4, sample_op 5 3]"
proof -
  let ?run = "run_cmds (AddOp userop_ref badger_ref sortedset_ref) (RemoveOps userop_ref badger_ref sortedset_ref)
      (Clear badger_ref) (map (PAdd 9) [sample_op 5 4, sample_op 5 3]) empty_pool"
  obtain es m' where run: "?run = (es, m')" by (cases ?run)
  have "fst (Dump sortedset_ref 9 empty_pool) = []"
    by (simp add: Dump_all_nodes [OF sortedset_ref_ok] all_nodes_def empty_pool_def newUserOpQueue_def)
  moreover have "set es \<subseteq> {None}" using run run_adds_ref by (metis fst_conv)
  ultimately have "fst (Dump sortedset_ref 9 m') = [sample_op 5 4, sample_op 5 3]"
    by (intro Dump_fifo [OF empty_pool_inv _ run]) simp_all
  then show ?thesis unfolding run by simp
qed

lemma less_append_same: "(p @ s :: string) < p @ t \<longleftrightarrow> s < t"
  by (induction p) simp_all

lemma all_nodes_remove:
  assumes "sortedset_ok S nodes"
  shows "set (all_nodes nodes (queue_RemoveOps L S q ep ops) ep)
    = {n \<in> set (all_nodes nodes q ep). node_key n \<notin> op_key L ep ` set ops}"
proof -
  have "set (all_nodes nodes x ep) = nodes_all nodes x ep" for x
    by (simp add: all_nodes_def nodes_all_def split: option.splits)
  then show ?thesis using nodes_RemoveOps(1) [OF assms, of L q ep ops ep] by simp
qed

lemma all_nodes_sorted:
  "sortedset_ok S nodes \<Longrightarrow> sorted_wrt node_less (all_nodes nodes q ep)"
  using sortedset_okD(3) by (fastforce simp: all_nodes_def split: option.splits)

text \<open>
  After a removal a new operation can share its score with an older one, and the tie is broken
  by the key: with operations of nonce 3 and 4 pooled, removing the first and adding nonce 1 makes
  \<open>Dump\<close> return the newer operation first, not the order of arrival its comment states.
\<close>

lemma Dump_order_after_removal:
  "fst (Dump sortedset_ref 9 (snd (run_cmds (AddOp userop_ref badger_ref sortedset_ref)
      (RemoveOps userop_ref badger_ref sortedset_ref) (Clear badger_ref)
      [PAdd 9 (sample_op 5 3), PAdd 9 (sample_op 5 4), PRemove 9 [sample_op 5 3], PAdd 9 (sample_op 5 1)]
      empty_pool))) = [sample_op 5 1, sample_op 5 4]"
proof -
  let ?k = "\<lambda>n. op_key userop_ref 9 (sample_op 5 n)"
  let ?add = "\<lambda>q n. queue_AddOp userop_ref sortedset_ref q 9 (sample_op 5 n)"
  let ?q2 = "?add (?add newUserOpQueue 3) 4"
  let ?q3 = "queue_RemoveOps userop_ref sortedset_ref ?q2 9 [sample_op 5 3]"
  note S = sortedset_ref_ok
  have key: "?k m = ?k n \<longleftrightarrow> m = n" for m n by (simp add: op_key_inject [OF userop_ref_ok])
  have n0: "all_nodes ss_nodes newUserOpQueue 9 = number_nodes userop_ref 9 []"
    by (simp add: all_nodes_def newUserOpQueue_def number_nodes_def)
  have "all_nodes ss_nodes (?add newUserOpQueue 3) 9 = number_nodes userop_ref 9 [sample_op 5 3]"
    using all_nodes_AddOp [OF S n0] by simp
  from all_nodes_AddOp [OF S this, of "sample_op 5 4"]
  have n2: "all_nodes ss_nodes ?q2 9 = [(?k 3, 0, sample_op 5 3), (?k 4, 1, sample_op 5 4)]"
    by (simp add: key number_nodes_def)
  have "set (all_nodes ss_nodes ?q3 9) = set [(?k 4, 1, sample_op 5 4)]"
    unfolding all_nodes_remove [OF S] n2 by (auto simp: key)
  from sorted_wrt_same_set [OF all_nodes_sorted [OF S] _ this]
  have n3: "all_nodes ss_nodes ?q3 9 = [(?k 4, 1, sample_op 5 4)]" by simp
  then obtain s where s: "?q3 9 = Some s" "ss_nodes (set_all s) = [(?k 4, 1, sample_op 5 4)]"
    by (auto simp: all_nodes_def split: option.splits)
  have "set (all_nodes ss_nodes (?add ?q3 1) 9) = set [(?k 1, 1, sample_op 5 1), (?k 4, 1, sample_op 5 4)]"
    using sortedset_okD(2) [OF S, of "set_all s"] s
    by (auto simp: all_nodes_def queue_AddOp_def queue_get_defs sortedset_okD(5) [OF S] wrap64_id key
        op_key_def [symmetric, of userop_ref 9 "sample_op 5 1", simplified] split: option.splits)
  moreover have "?k 1 < ?k 4"
    by (simp add: op_key_def getUniqueKey_eq less_append_same Itoa_def nat_digits.simps digit_char_def less_char_def)
  ultimately have "all_nodes ss_nodes (?add ?q3 1) 9 = [(?k 1, 1, sample_op 5 1), (?k 4, 1, sample_op 5 4)]"
    by (intro sorted_wrt_same_set [OF all_nodes_sorted [OF S]]) simp_all
  moreover have "mp_queue (snd (run_cmds (AddOp userop_ref badger_ref sortedset_ref)
      (RemoveOps userop_ref badger_ref sortedset_ref) (Clear badger_ref)
      [PAdd 9 (sample_op 5 3), PAdd 9 (sample_op 5 4), PRemove 9 [sample_op 5 3], PAdd 9 (sample_op 5 1)]
      empty_pool)) = ?add ?q3 1"
    by (simp add: AddOp_def RemoveOps_def db_Update_def badger_ref_def Let_def empty_pool_def)
  moreover have "mp_content (snd (run_cmds (AddOp userop_ref badger_ref sortedset_ref)
      (RemoveOps userop_ref badger_ref sortedset_ref) (Clear badger_ref)
      [PAdd 9 (sample_op 5 3), PAdd 9 (sample_op 5 4), PRemove 9 [sample_op 5 3], PAdd 9 (sample_op 5 1)]
      empty_pool)) 9 x = x" for x
    by (simp add: AddOp_def RemoveOps_def db_Update_def badger_ref_def Let_def empty_pool_def new_object_def)
  ultimately show ?thesis unfolding Dump_all_nodes [OF S] by (simp del: run_cmds.simps)
qed

end
