(* ===== verification/Modules_Ctx.thy ===== *)
theory Modules_Ctx
  imports Mempool
begin

text \<open>
  \<open>pkg/modules\<close>: the contexts passed to batch handlers and to operation handlers, and the
  composition of handlers. A handler mutates its context in place, so it returns the world and the
  context also when it returns an error.

  \<open>batch_module\<close> states what the bundler relies on in every batch handler: operations are neither
  invented nor duplicated, and marks for removal are kept. Modules that only mark extend it
  (\<open>marking_module\<close>: no operation is lost either).
\<close>

subsection \<open>The batch context\<close>

record batch_ctx =
  Batch :: "user_op list"
  PendingRemoval :: "user_op list"
  EntryPoint :: address
  ChainID :: int
  BaseFee :: "int option"
  Tip :: "int option"
  GasPrice :: "int option"
  Data :: obj

definition NewBatchHandlerContext :: "user_op list \<Rightarrow> address \<Rightarrow> int \<Rightarrow> int option \<Rightarrow> int option \<Rightarrow>
    int option \<Rightarrow> batch_ctx" where
  "NewBatchHandlerContext batch entryPoint chainID baseFee tip gasPrice =
     \<lparr>Batch = batch, PendingRemoval = [], EntryPoint = entryPoint, ChainID = chainID,
      BaseFee = baseFee, Tip = tip, GasPrice = gasPrice, Data = Map.empty\<rparr>"

text \<open>The loop of \<open>MarkOpIndexForRemoval\<close>: \<open>i\<close> is its counter, \<open>batch\<close> and \<open>op\<close> its variables.\<close>

fun mark_loop :: "int \<Rightarrow> int \<Rightarrow> user_op list \<Rightarrow> user_op list \<Rightarrow> user_op option \<Rightarrow> user_op list \<times> user_op option" where
  "mark_loop index i [] batch op = (batch, op)"
| "mark_loop index i (cur # rest) batch op =
     (if i = index then mark_loop index (i + 1) rest batch (Some cur)
      else mark_loop index (i + 1) rest (batch @ [cur]) op)"

definition MarkOpIndexForRemoval :: "int \<Rightarrow> batch_ctx \<Rightarrow> batch_ctx" where
  "MarkOpIndexForRemoval index c =
     (let (batch, op) = mark_loop index 0 (Batch c) [] None in
      case op of None \<Rightarrow> c
      | Some x \<Rightarrow> c\<lparr>Batch := batch, PendingRemoval := PendingRemoval c @ [x]\<rparr>)"

subsection \<open>The context of one operation\<close>

record deposit_info =
  Deposit :: int
  Staked :: bool
  Stake :: int
  UnstakeDelaySec :: int
  WithdrawTime :: int

record op_ctx =
  UserOp :: user_op
  oc_EntryPoint :: address
  oc_ChainID :: int
  deposits :: "address \<rightharpoonup> deposit_info"
  pendingOps :: "user_op list"

definition NewUserOpHandlerContext :: "user_op \<Rightarrow> user_op list \<Rightarrow> address \<Rightarrow> int \<Rightarrow> op_ctx" where
  "NewUserOpHandlerContext op penOps entryPoint chainID =
     \<lparr>UserOp = op, oc_EntryPoint = entryPoint, oc_ChainID = chainID, deposits = Map.empty, pendingOps = penOps\<rparr>"

definition AddDepositInfo :: "address \<Rightarrow> deposit_info \<Rightarrow> op_ctx \<Rightarrow> op_ctx" where
  "AddDepositInfo entity dep c = c\<lparr>deposits := (deposits c)(entity \<mapsto> dep)\<rparr>"

definition GetDepositInfo :: "op_ctx \<Rightarrow> address \<Rightarrow> deposit_info option" where
  "GetDepositInfo c entity = deposits c entity"

definition GetPendingOps :: "op_ctx \<Rightarrow> user_op list" where
  "GetPendingOps c = pendingOps c"

subsection \<open>Handlers\<close>

type_synonym 'w batch_handler = "'w \<times> batch_ctx \<Rightarrow> go_error option \<times> ('w \<times> batch_ctx)"
type_synonym 'w op_handler = "'w \<times> op_ctx \<Rightarrow> go_error option \<times> ('w \<times> op_ctx)"

fun compose_handlers :: "('c \<Rightarrow> go_error option \<times> 'c) list \<Rightarrow> 'c \<Rightarrow> go_error option \<times> 'c" where
  "compose_handlers [] c = (None, c)"
| "compose_handlers (fn # fns) c =
     (case fn c of (Some err, c') \<Rightarrow> (Some err, c') | (None, c') \<Rightarrow> compose_handlers fns c')"

definition ComposeBatchHandlerFunc :: "'w batch_handler list \<Rightarrow> 'w batch_handler" where
  "ComposeBatchHandlerFunc fns = compose_handlers fns"

definition ComposeUserOpHandlerFunc :: "'w op_handler list \<Rightarrow> 'w op_handler" where
  "ComposeUserOpHandlerFunc fns = compose_handlers fns"

definition noop_BatchHandler :: "'w batch_handler" where
  "noop_BatchHandler s = (None, s)"

definition noop_UserOpHandler :: "'w op_handler" where
  "noop_UserOpHandler s = (None, s)"

subsection \<open>Marking\<close>

lemma mark_loop_out: "index < i \<or> i + int (length ops) \<le> index \<Longrightarrow>
    mark_loop index i ops batch op = (batch @ ops, op)"
  by (induction ops arbitrary: i batch op) auto

lemma mark_loop_in: "i \<le> index \<Longrightarrow> index < i + int (length ops) \<Longrightarrow>
    mark_loop index i ops batch op
      = (batch @ remove_nth (nat (index - i)) ops, Some (ops ! nat (index - i)))"
proof (induction ops arbitrary: i batch op)
  case Nil
  then show ?case by simp
next
  case (Cons x ops)
  show ?case
  proof (cases "i = index")
    case True
    then show ?thesis by (simp add: mark_loop_out)
  next
    case False
    then have "nat (index - i) = Suc (nat (index - (i + 1)))" using Cons.prems by auto
    with False Cons show ?thesis by simp
  qed
qed

lemma MarkOpIndexForRemoval_in:
  "i < length (Batch c) \<Longrightarrow> MarkOpIndexForRemoval (int i) c =
    c\<lparr>Batch := remove_nth i (Batch c), PendingRemoval := PendingRemoval c @ [Batch c ! i]\<rparr>"
  by (simp add: MarkOpIndexForRemoval_def mark_loop_in)

lemma MarkOpIndexForRemoval_out:
  "\<not> (0 \<le> i \<and> i < int (length (Batch c))) \<Longrightarrow> MarkOpIndexForRemoval i c = c"
  by (cases c) (auto simp: MarkOpIndexForRemoval_def mark_loop_out)

lemma MarkOpIndexForRemoval_cases:
  obtains (in_range) n where "i = int n" "n < length (Batch c)"
      "MarkOpIndexForRemoval i c =
        c\<lparr>Batch := remove_nth n (Batch c), PendingRemoval := PendingRemoval c @ [Batch c ! n]\<rparr>"
  | (out_of_range) "MarkOpIndexForRemoval i c = c"
proof (cases "0 \<le> i \<and> i < int (length (Batch c))")
  case True
  then obtain n where n: "i = int n" "n < length (Batch c)" by (metis nonneg_int_cases of_nat_less_iff)
  then show ?thesis by (rule in_range) (simp add: n MarkOpIndexForRemoval_in)
next
  case False
  then show ?thesis by (intro out_of_range MarkOpIndexForRemoval_out)
qed

subsection \<open>The contract of a batch module\<close>

text \<open>Operations are identified by sender and nonce: the solver rewrites their other fields.\<close>

definition op_id :: "user_op \<Rightarrow> address \<times> int" where
  "op_id op = (Sender op, Nonce op)"

definition batch_ids :: "batch_ctx \<Rightarrow> (address \<times> int) multiset" where
  "batch_ids c = mset (map op_id (Batch c)) + mset (map op_id (PendingRemoval c))"

definition ctx_step :: "batch_ctx \<Rightarrow> batch_ctx \<Rightarrow> bool" where
  "ctx_step c c' \<longleftrightarrow> EntryPoint c' = EntryPoint c \<and> ChainID c' = ChainID c \<and>
     prefix (PendingRemoval c) (PendingRemoval c') \<and> batch_ids c' \<subseteq># batch_ids c"

definition ctx_mark :: "batch_ctx \<Rightarrow> batch_ctx \<Rightarrow> bool" where
  "ctx_mark c c' \<longleftrightarrow> EntryPoint c' = EntryPoint c \<and> ChainID c' = ChainID c \<and>
     prefix (PendingRemoval c) (PendingRemoval c') \<and> batch_ids c' = batch_ids c"

lemma ctx_step_refl [simp]: "ctx_step c c" and ctx_mark_refl [simp]: "ctx_mark c c"
  by (simp_all add: ctx_step_def ctx_mark_def)

lemma ctx_step_trans: "ctx_step a b \<Longrightarrow> ctx_step b c \<Longrightarrow> ctx_step a c"
  by (auto simp: ctx_step_def)

lemma ctx_mark_trans: "ctx_mark a b \<Longrightarrow> ctx_mark b c \<Longrightarrow> ctx_mark a c"
  by (auto simp: ctx_mark_def)

lemma ctx_mark_step: "ctx_mark a b \<Longrightarrow> ctx_step a b"
  by (auto simp: ctx_mark_def ctx_step_def)

lemma MarkOpIndexForRemoval_mark [simp]: "ctx_mark c (MarkOpIndexForRemoval i c)"
proof (cases rule: MarkOpIndexForRemoval_cases [of i c])
  case (in_range n)
  have "add_mset (op_id (Batch c ! n)) (image_mset op_id (mset (remove_nth n (Batch c))))
      = image_mset op_id (mset (Batch c))"
    using mset_remove_nth [OF in_range(2)] by (metis image_mset_add_mset)
  then show ?thesis by (simp add: in_range(3) ctx_mark_def batch_ids_def)
qed simp

locale batch_module =
  fixes handler :: "'w batch_handler"
  assumes step: "handler (w, c) = (e, w', c') \<Longrightarrow> ctx_step c c'"
begin

lemma ids_below:
  assumes "handler (w, c) = (e, w', c')"
  shows "op_id ` (set (Batch c') \<union> set (PendingRemoval c')) \<subseteq> op_id ` (set (Batch c) \<union> set (PendingRemoval c))"
proof -
  have "batch_ids c' \<subseteq># batch_ids c" using step [OF assms] by (simp add: ctx_step_def)
  from set_mset_mono [OF this] show ?thesis by (auto simp: batch_ids_def image_Un)
qed

lemma keeps_marks: "handler (w, c) = (e, w', c') \<Longrightarrow> prefix (PendingRemoval c) (PendingRemoval c')"
  using step by (simp add: ctx_step_def)

lemma no_duplicates:
  assumes "handler (w, c) = (e, w', c')" "distinct (map op_id (Batch c @ PendingRemoval c))"
  shows "distinct (map op_id (Batch c' @ PendingRemoval c'))"
proof (rule distinct_mset_subset [OF _ assms(2)])
  show "mset (map op_id (Batch c' @ PendingRemoval c')) \<subseteq># mset (map op_id (Batch c @ PendingRemoval c))"
    using step [OF assms(1)] by (simp add: ctx_step_def batch_ids_def)
qed

end

locale marking_module =
  fixes handler :: "'w batch_handler"
  assumes mark: "handler (w, c) = (e, w', c') \<Longrightarrow> ctx_mark c c'"
begin

lemma conserves: "handler (w, c) = (e, w', c') \<Longrightarrow> batch_ids c' = batch_ids c"
  using mark by (simp add: ctx_mark_def)

end

sublocale marking_module \<subseteq> batch_module handler
  by unfold_locales (rule ctx_mark_step [OF mark])

lemma compose_batch_module:
  assumes "\<forall>h \<in> set fns. batch_module h"
  shows "batch_module (ComposeBatchHandlerFunc fns)"
proof
  fix w c e w' c'
  assume "ComposeBatchHandlerFunc fns (w, c) = (e, w', c')"
  then show "ctx_step c c'"
    using assms unfolding ComposeBatchHandlerFunc_def
  proof (induction fns arbitrary: w c)
    case (Cons h fns)
    obtain e1 w1 c1 where h: "h (w, c) = (e1, w1, c1)" by (cases "h (w, c)") auto
    have "ctx_step c c1" using Cons.prems(2) h batch_module.step [of h w c e1 w1 c1] by simp
    with Cons h show ?case by (cases e1) (auto intro: ctx_step_trans)
  qed simp
qed

lemma compose_marking_module:
  assumes "\<forall>h \<in> set fns. marking_module h"
  shows "marking_module (ComposeBatchHandlerFunc fns)"
proof
  fix w c e w' c'
  assume "ComposeBatchHandlerFunc fns (w, c) = (e, w', c')"
  then show "ctx_mark c c'"
    using assms unfolding ComposeBatchHandlerFunc_def
  proof (induction fns arbitrary: w c)
    case (Cons h fns)
    obtain e1 w1 c1 where h: "h (w, c) = (e1, w1, c1)" by (cases "h (w, c)") auto
    have "ctx_mark c c1" using Cons.prems(2) h marking_module.mark [of h w c e1 w1 c1] by simp
    with Cons h show ?case by (cases e1) (auto intro: ctx_mark_trans)
  qed simp
qed

interpretation noop: marking_module noop_BatchHandler
  by unfold_locales (simp add: noop_BatchHandler_def)

end
