(* ===== verification/Gas.thy ===== *)
theory Gas
  imports Transaction
begin

text \<open>
  \<open>pkg/gas\<close>: the overhead of an operation in a batch (\<open>overhead.go\<close>), the L1 component of
  rollups (\<open>pvg.go\<close>, with the decoders of \<open>pkg/arbitrum\<close> and \<open>pkg/optimism\<close>) and the percentage
  buffer of \<open>internal/utils\<close>.

  The \<open>float64\<close> computations are on rationals: every value is a multiple of 1/32 far below
  \<open>2 ^ 53\<close>, so the machine computes them exactly.
\<close>

subsection \<open>Parameters\<close>

record overhead =
  intrinsicFixed :: rat
  perUserOpFixed :: rat
  perUserOpMultiplier :: rat
  zeroByte :: rat
  nonZeroByte :: rat
  minBundleSize :: rat
  warmStorageRead :: rat
  callWithValue :: rat
  callOpcode :: rat
  nonZeroValueStipend :: rat
  sanitizedPVG :: int
  sanitizedVGL :: int
  sanitizedCGL :: int
  calcPVGFunc :: "user_op \<Rightarrow> int \<Rightarrow> int option res"
  pvgBufferFactor :: int

definition calcPVGFuncNoop :: "user_op \<Rightarrow> int \<Rightarrow> int option res" where
  "calcPVGFuncNoop op static = Inr None"

definition NewDefaultOverhead :: overhead where
  "NewDefaultOverhead = \<lparr>
     intrinsicFixed = 21000, perUserOpFixed = 22874, perUserOpMultiplier = 25,
     zeroByte = 4, nonZeroByte = 16, minBundleSize = 1, warmStorageRead = 100,
     callWithValue = 9000, callOpcode = 700, nonZeroValueStipend = 2300,
     sanitizedPVG = 100000, sanitizedVGL = 1000000, sanitizedCGL = 1000000,
     calcPVGFunc = calcPVGFuncNoop, pvgBufferFactor = 0\<rparr>"

definition SetCalcPreVerificationGasFunc :: "(user_op \<Rightarrow> int \<Rightarrow> int option res) \<Rightarrow> overhead \<Rightarrow> overhead" where
  "SetCalcPreVerificationGasFunc fn ov = ov\<lparr>calcPVGFunc := fn\<rparr>"

definition SetPreVerificationGasBufferFactor :: "int \<Rightarrow> overhead \<Rightarrow> overhead" where
  "SetPreVerificationGasBufferFactor factor ov = ov\<lparr>pvgBufferFactor := factor\<rparr>"

text \<open>\<open>factor*10\<close> and the sum are \<open>int64\<close>; a nil amount stays nil.\<close>

definition AddBuffer :: "int option \<Rightarrow> int \<Rightarrow> int option" where
  "AddBuffer amt factor =
     (case amt of None \<Rightarrow> None | Some a \<Rightarrow> Some ((a * wrap64 (1000 + factor * 10)) div 1000))"

subsection \<open>Overhead of an operation\<close>

text \<open>\<open>math.Round\<close> rounds half away from zero.\<close>

definition rat_round :: "rat \<Rightarrow> rat" where
  "rat_round q = (if 0 \<le> q then of_int \<lfloor>q + 1 / 2\<rfloor> else - of_int \<lfloor>- q + 1 / 2\<rfloor>)"

fun calldata_cost :: "overhead \<Rightarrow> rat \<Rightarrow> bytes \<Rightarrow> rat" where
  "calldata_cost ov cost [] = cost"
| "calldata_cost ov cost (b # bs) =
     calldata_cost ov (if b = 0 then cost + zeroByte ov else cost + nonZeroByte ov) bs"

definition CalcCallDataCost :: "'y userop_lib_scheme \<Rightarrow> overhead \<Rightarrow> user_op \<Rightarrow> rat res" where
  "CalcCallDataCost L ov op = bind_res (Pack L op) (\<lambda>packed. Inr (calldata_cost ov 0 packed))"

definition CalcPerUserOpCost :: "'y userop_lib_scheme \<Rightarrow> overhead \<Rightarrow> user_op \<Rightarrow> rat res" where
  "CalcPerUserOpCost L ov op =
     bind_res (Pack L op) (\<lambda>packed.
       let opLen = of_int \<lfloor>of_nat (length packed + 31) / (32 :: rat)\<rfloor>
       in Inr (perUserOpMultiplier ov * opLen + perUserOpFixed ov))"

definition sanitized_map :: "'y userop_lib_scheme \<Rightarrow> overhead \<Rightarrow> user_op \<Rightarrow> obj" where
  "sanitized_map L ov op = (ToMap L op)
     (''preVerificationGas'' \<mapsto> JStr (EncodeBig L (sanitizedPVG ov)),
      ''verificationGasLimit'' \<mapsto> JStr (EncodeBig L (sanitizedVGL ov)),
      ''callGasLimit'' \<mapsto> JStr (EncodeBig L (sanitizedCGL ov)),
      ''signature'' \<mapsto> JStr (hexutil_Encode L (replicate (length (Signature op)) 1)))"

definition CalcPreVerificationGas :: "'y userop_lib_scheme \<Rightarrow> overhead \<Rightarrow> user_op \<Rightarrow> int res" where
  "CalcPreVerificationGas L ov op =
     bind_res (New_userop L (sanitized_map L ov op)) (\<lambda>tmp.
     bind_res (CalcCallDataCost L ov tmp) (\<lambda>cdc.
     bind_res (CalcPerUserOpCost L ov tmp) (\<lambda>puc.
       let batchOv = intrinsicFixed ov / minBundleSize ov + cdc;
           pvg = batchOv + puc;
           static = float_to_int64 (rat_round pvg)
       in bind_res (calcPVGFunc ov tmp static) (\<lambda>g.
            case g of Some v \<Rightarrow> Inr v | None \<Rightarrow> Inr static))))"

definition CalcPreVerificationGasWithBuffer :: "'y userop_lib_scheme \<Rightarrow> overhead \<Rightarrow> user_op \<Rightarrow> int option res" where
  "CalcPreVerificationGasWithBuffer L ov op =
     bind_res (CalcPreVerificationGas L ov op) (\<lambda>pvg. Inr (AddBuffer (Some pvg) (pvgBufferFactor ov)))"

definition NonZeroValueCall :: "overhead \<Rightarrow> int" where
  "NonZeroValueCall ov =
     float_to_int64 (callOpcode ov + callWithValue ov + warmStorageRead ov + nonZeroValueStipend ov)"

subsection \<open>The L1 component of rollups\<close>

record 'tx rollup_lib = "'tx chain_lib" +
  HandleOpsMethod_ID :: bytes
  HandleOpsMethod_Pack :: "user_op list \<Rightarrow> address \<Rightarrow> bytes res"
  GasEstimateL1_ID :: bytes
  GasEstimateL1_Pack :: "address \<Rightarrow> bool \<Rightarrow> bytes \<Rightarrow> bytes res"
  GasEstimateL1_Unpack :: "bytes \<Rightarrow> (int \<times> int \<times> int) res"
  GetL1Fee_ID :: bytes
  GetL1Fee_Pack :: "bytes \<Rightarrow> bytes res"
  GetL1Fee_Unpack :: "bytes \<Rightarrow> int res"
  eth_call :: "address \<Rightarrow> string \<Rightarrow> json res"
  HeadBaseFee :: "int option res"
  SuggestGasTipCap :: "int res"

definition nodeinterface_PrecompileAddress :: address where
  "nodeinterface_PrecompileAddress = 0xC8"

definition gaspriceoracle_PrecompileAddress :: address where
  "gaspriceoracle_PrecompileAddress = 0x420000000000000000000000000000000000000F"

record l1_component =
  GasEstimateForL1 :: int
  l1_BaseFee :: int
  L1BaseFeeEstimate :: int

definition DecodeGasEstimateL1ComponentOutput :: "('tx, 'y) rollup_lib_scheme \<Rightarrow> json \<Rightarrow> l1_component res" where
  "DecodeGasEstimateL1ComponentOutput L out =
     (case out of
        JStr hex \<Rightarrow>
          bind_res (prefix_error ''gasEstimateL1Component: '' (hexutil_Decode L hex)) (\<lambda>data.
          bind_res (prefix_error ''gasEstimateL1Component: '' (GasEstimateL1_Unpack L data)) (\<lambda>(g, b, e).
            Inr \<lparr>GasEstimateForL1 = g, l1_BaseFee = b, L1BaseFeeEstimate = e\<rparr>))
      | _ \<Rightarrow> Inl (GoError ''gasEstimateL1Component: cannot assert type: hex is not of type string''))"

definition DecodeGetL1FeeMethodOutput :: "('tx, 'y) rollup_lib_scheme \<Rightarrow> json \<Rightarrow> int res" where
  "DecodeGetL1FeeMethodOutput L out =
     (case out of
        JStr hex \<Rightarrow>
          bind_res (prefix_error ''getL1Fee: '' (hexutil_Decode L hex)) (\<lambda>data.
            prefix_error ''getL1Fee: '' (GetL1Fee_Unpack L data))
      | _ \<Rightarrow> Inl (GoError ''getL1Fee: cannot assert type: hex is not of type string''))"

definition CalcArbitrumPVGWithEthClient :: "('tx, 'y) rollup_lib_scheme \<Rightarrow> address \<Rightarrow> address \<Rightarrow>
    user_op \<Rightarrow> int \<Rightarrow> int option res" where
  "CalcArbitrumPVGWithEthClient L entryPoint dummy op static =
     bind_res (New_userop L ((ToMap L op)
       (''paymasterAndData'' \<mapsto> JStr (hexutil_Encode L (replicate (length (PaymasterAndData op)) 1))))) (\<lambda>tmp.
     bind_res (HandleOpsMethod_Pack L [tmp] dummy) (\<lambda>ho.
       let create = (Nonce tmp = 0) in
     bind_res (GasEstimateL1_Pack L entryPoint create (HandleOpsMethod_ID L @ ho)) (\<lambda>ge.
     bind_res (eth_call L nodeinterface_PrecompileAddress (hexutil_Encode L (GasEstimateL1_ID L @ ge))) (\<lambda>out.
     bind_res (DecodeGasEstimateL1ComponentOutput L out) (\<lambda>g.
       Inr (Some (static + wrap64 (GasEstimateForL1 g))))))))"

definition CalcOptimismPVGWithEthClient :: "('tx, 'y) rollup_lib_scheme \<Rightarrow> int \<Rightarrow> address \<Rightarrow> address \<Rightarrow>
    user_op \<Rightarrow> int \<Rightarrow> int option res" where
  "CalcOptimismPVGWithEthClient L chainID entryPoint dummy op static =
     bind_res (HeadBaseFee L) (\<lambda>baseFee.
     bind_res (SuggestGasTipCap L) (\<lambda>tip.
     bind_res (HandleOps L \<lparr>to_ChainID = chainID, to_EntryPoint = entryPoint, to_Batch = [op],
         to_Beneficiary = dummy, to_BaseFee = baseFee, to_Tip = Some tip, to_GasPrice = None,
         to_GasLimit = MaxUint64, to_NoSend = True, to_WaitTimeout = 0\<rparr>) (\<lambda>tx.
     bind_res (hexutil_Decode L (ToRawTxHex L tx)) (\<lambda>data.
     bind_res (GetL1Fee_Pack L data) (\<lambda>ge.
     bind_res (eth_call L gaspriceoracle_PrecompileAddress (hexutil_Encode L (GetL1Fee_ID L @ ge))) (\<lambda>out.
     bind_res (DecodeGetL1FeeMethodOutput L out) (\<lambda>l1fee.
       (case baseFee of
          None \<Rightarrow> Inl (Panicked ''nil pointer dereference'')
        | Some bf \<Rightarrow>
            let l2price = MaxFeePerGas op;
                l2priority = MaxPriorityFeePerGas op + bf;
                price = (if l2priority < l2price then l2priority else l2price)
            in bind_res (big_Div l1fee price) (\<lambda>q. Inr (Some (static + q)))))))))))"

subsection \<open>Lemmas\<close>

definition sanitize :: "overhead \<Rightarrow> user_op \<Rightarrow> user_op" where
  "sanitize ov op = op\<lparr>PreVerificationGas := sanitizedPVG ov, VerificationGasLimit := sanitizedVGL ov,
     CallGasLimit := sanitizedCGL ov, Signature := replicate (length (Signature op)) 1\<rparr>"

lemma sanitized_map_ToMap: "sanitized_map L ov op = ToMap L (sanitize ov op)"
  by (rule ext) (simp add: sanitized_map_def ToMap_def MarshalJSON_def sanitize_def)

definition overhead_ok :: "overhead \<Rightarrow> bool" where
  "overhead_ok ov \<longleftrightarrow> 0 \<le> sanitizedPVG ov \<and> 0 \<le> sanitizedVGL ov \<and> 0 \<le> sanitizedCGL ov"

lemma New_userop_sanitized:
  "eth_lib_ok L \<Longrightarrow> wf_op op \<Longrightarrow> overhead_ok ov \<Longrightarrow> New_userop L (sanitized_map L ov op) = Inr (sanitize ov op)"
  unfolding sanitized_map_ToMap
  by (rule New_userop_ToMap) (auto simp: wf_op_def sanitize_def overhead_ok_def)

lemma drop_hex_Encode: "drop (2 * n) (hex_Encode bs) = hex_Encode (drop n bs)"
proof (induction bs arbitrary: n)
  case (Cons b bs)
  show ?case
  proof (cases n)
    case (Suc m)
    then show ?thesis using Cons [of m] by (simp add: hex_Encode_def hex_byte_def)
  qed simp
qed (simp add: hex_Encode_def)

lemma length_hex_Encode: "length (hex_Encode bs) = 2 * length bs"
  by (induction bs) (simp_all add: hex_Encode_def hex_byte_def)

lemma Pack_Inr:
  assumes "eth_lib_ok L" "32 \<le> length (abi_pack_op L op)"
  shows "Pack L op = Inr (drop 32 (abi_pack_op L op))"
proof -
  let ?bs = "abi_pack_op L op"
  have enc: "hexutil_Encode L ?bs = ''0x'' @ hex_Encode ?bs" by (rule eth_lib_okD(4) [OF assms(1)])
  have "drop 66 (''0x'' @ hex_Encode ?bs) = hex_Encode (drop 32 ?bs)"
    using drop_hex_Encode [of 32 ?bs] by (simp add: numeral_eq_Suc)
  moreover have "\<not> length (''0x'' @ hex_Encode ?bs) < 66"
    using assms(2) by (simp add: length_hex_Encode)
  ultimately show ?thesis
    unfolding Pack_def Let_def enc using eth_lib_okD(5) [OF assms(1), of "drop 32 ?bs"] by simp
qed

fun zero_bytes :: "bytes \<Rightarrow> nat" where
  "zero_bytes [] = 0"
| "zero_bytes (b # bs) = (if b = 0 then 1 else 0) + zero_bytes bs"

lemma zero_bytes_le: "zero_bytes bs \<le> length bs"
  by (induction bs) auto

lemma calldata_cost_eq:
  "calldata_cost ov cost bs = cost + zeroByte ov * of_nat (zero_bytes bs)
    + nonZeroByte ov * of_nat (length bs - zero_bytes bs)"
proof (induction bs arbitrary: cost)
  case (Cons b bs)
  have "Suc (length bs) - zero_bytes bs = Suc (length bs - zero_bytes bs)"
    using zero_bytes_le [of bs] by simp
  then show ?case unfolding calldata_cost.simps Cons.IH by (simp add: distrib_left)
qed simp

text \<open>The static gas of the default overhead on the packed bytes.\<close>

definition static_pvg :: "bytes \<Rightarrow> int" where
  "static_pvg p = 43874 + 25 * ((int (length p) + 31) div 32)
     + 4 * int (zero_bytes p) + 16 * int (length p - zero_bytes p)"

lemma rat_round_of_int: "rat_round (of_int n) = of_int n"
proof -
  have "\<lfloor>of_int m + 1 / 2 :: rat\<rfloor> = m" for m :: int by (simp add: floor_unique)
  from this [of n] this [of "- n"] show ?thesis by (simp add: rat_round_def)
qed

lemma float_to_int64_of_int: "- (2 ^ 63) \<le> n \<Longrightarrow> n < 2 ^ 63 \<Longrightarrow> float_to_int64 (of_int n) = n"
  by (simp add: float_to_int64_def rat_trunc_def Let_def)

lemma floor_words: "\<lfloor>of_nat (n + 31) / (32 :: rat)\<rfloor> = (int n + 31) div 32"
proof -
  have "\<lfloor>of_int (int n + 31) / of_int (32 :: int) :: rat\<rfloor> = (int n + 31) div 32"
    by (rule floor_divide_of_int_eq)
  then show ?thesis by simp
qed

lemma static_pvg_bounds:
  "43874 + 4 * int (length p) \<le> static_pvg p \<and> static_pvg p \<le> 43874 + 17 * int (length p) + 25"
  using zero_bytes_le [of p] unfolding static_pvg_def by auto

lemma CalcPreVerificationGas_static:
  assumes "eth_lib_ok L" "wf_op op"
    and "32 \<le> length (abi_pack_op L (sanitize NewDefaultOverhead op))"
    and "length (abi_pack_op L (sanitize NewDefaultOverhead op)) < 2 ^ 58"
  shows "CalcPreVerificationGas L (NewDefaultOverhead\<lparr>calcPVGFunc := f\<rparr>) op =
    (let static = static_pvg (drop 32 (abi_pack_op L (sanitize NewDefaultOverhead op)))
     in case f (sanitize NewDefaultOverhead op) static of
          Inl e \<Rightarrow> Inl e | Inr (Some v) \<Rightarrow> Inr v | Inr None \<Rightarrow> Inr static)"
proof -
  let ?ov = "NewDefaultOverhead\<lparr>calcPVGFunc := f\<rparr>"
  let ?tmp = "sanitize NewDefaultOverhead op"
  let ?p = "drop 32 (abi_pack_op L ?tmp)"
  have tmp: "sanitize ?ov op = ?tmp" by (simp add: sanitize_def)
  have new: "New_userop L (sanitized_map L ?ov op) = Inr ?tmp"
    using New_userop_sanitized [OF assms(1,2), of ?ov] unfolding tmp
    by (simp add: overhead_ok_def NewDefaultOverhead_def)
  have pack: "Pack L ?tmp = Inr ?p" by (rule Pack_Inr [OF assms(1,3)])
  have cdc: "CalcCallDataCost L ?ov ?tmp = Inr (of_int (4 * int (zero_bytes ?p) + 16 * int (length ?p - zero_bytes ?p)))"
    unfolding CalcCallDataCost_def pack bind_res_simps calldata_cost_eq by (simp add: NewDefaultOverhead_def)
  have puc: "CalcPerUserOpCost L ?ov ?tmp = Inr (of_int (25 * ((int (length ?p) + 31) div 32) + 22874))"
    unfolding CalcPerUserOpCost_def pack bind_res_simps Let_def floor_words by (simp add: NewDefaultOverhead_def)
  have sum: "intrinsicFixed ?ov / minBundleSize ?ov
      + of_int (4 * int (zero_bytes ?p) + 16 * int (length ?p - zero_bytes ?p))
      + of_int (25 * ((int (length ?p) + 31) div 32) + 22874) = (of_int (static_pvg ?p) :: rat)"
    by (simp add: NewDefaultOverhead_def static_pvg_def)
  have "int (length ?p) < 2 ^ 58" using assms(4) by simp
  then have small: "float_to_int64 (rat_round (of_int (static_pvg ?p))) = static_pvg ?p"
    unfolding rat_round_of_int using static_pvg_bounds [of ?p] by (intro float_to_int64_of_int) auto
  show ?thesis
    unfolding CalcPreVerificationGas_def new cdc puc bind_res_simps Let_def sum small
    by (cases "f ?tmp (static_pvg ?p)") (auto split: option.splits)
qed

lemma NonZeroValueCall_default: "NonZeroValueCall (NewDefaultOverhead\<lparr>calcPVGFunc := f\<rparr>) = 12100"
  using float_to_int64_of_int [of 12100] by (simp add: NonZeroValueCall_def NewDefaultOverhead_def)

lemma AddBuffer_ge:
  assumes "0 \<le> a" "0 \<le> factor" "factor < 2 ^ 59"
  shows "AddBuffer (Some a) factor = Some (a + (a * factor) div 100)"
proof -
  have "(a * (1000 + factor * 10)) div 1000 = (a * 1000 + (a * factor) * 10) div 1000"
    by (simp add: algebra_simps)
  also have "\<dots> = a + ((a * factor) * 10) div 1000" by simp
  also have "((a * factor) * 10) div 1000 = (a * factor) div 100"
    using div_mult_mult1 [of 10 "a * factor" 100] by (simp add: mult.commute)
  finally show ?thesis using assms by (simp add: AddBuffer_def wrap64_id)
qed

lemma userop_ref_pack:
  "abi_pack_op userop_ref op = replicate 32 0 @ InitCode op @ CallData op"
  by (simp add: userop_ref_def)

lemma sample_pvg: "CalcPreVerificationGas userop_ref NewDefaultOverhead (sample_op 5 n) = Inr 43931"
  if "0 \<le> n"
proof -
  have default: "NewDefaultOverhead\<lparr>calcPVGFunc := calcPVGFuncNoop\<rparr> = NewDefaultOverhead"
    by (simp add: NewDefaultOverhead_def)
  have "abi_pack_op userop_ref (sanitize NewDefaultOverhead (sample_op 5 n)) = replicate 32 0 @ [1, 2]"
    by (simp add: userop_ref_pack sanitize_def sample_op_def)
  then show ?thesis
    using CalcPreVerificationGas_static [OF userop_ref_ok sample_op_wf [of 5 n], of calcPVGFuncNoop] that
    unfolding default by (simp add: calcPVGFuncNoop_def static_pvg_def)
qed

subsection \<open>Properties\<close>

text \<open>
  C23: the pre-verification gas of the default overhead is 21000 + 22874 plus 25 per 32-byte word
  of the packed operation plus 4 per zero and 16 per other byte. It does not depend on the gas
  limits of the operation nor on the bytes of its signature, so the value estimated with a dummy
  signature is the value checked later.
\<close>

theorem CalcPreVerificationGas_default:
  assumes "eth_lib_ok L" "wf_op op"
    and "32 \<le> length (abi_pack_op L (sanitize NewDefaultOverhead op))"
    and "length (abi_pack_op L (sanitize NewDefaultOverhead op)) < 2 ^ 58"
  shows "CalcPreVerificationGas L NewDefaultOverhead op
      = Inr (static_pvg (drop 32 (abi_pack_op L (sanitize NewDefaultOverhead op)))) \<and>
    (\<forall>pvg vgl cgl sig. 0 \<le> pvg \<and> 0 \<le> vgl \<and> 0 \<le> cgl \<and> length sig = length (Signature op) \<longrightarrow>
      CalcPreVerificationGas L NewDefaultOverhead
        (op\<lparr>PreVerificationGas := pvg, VerificationGasLimit := vgl, CallGasLimit := cgl, Signature := sig\<rparr>)
      = CalcPreVerificationGas L NewDefaultOverhead op)"
proof -
  have default: "NewDefaultOverhead\<lparr>calcPVGFunc := calcPVGFuncNoop\<rparr> = NewDefaultOverhead"
    by (simp add: NewDefaultOverhead_def)
  have main: "CalcPreVerificationGas L NewDefaultOverhead x
      = Inr (static_pvg (drop 32 (abi_pack_op L (sanitize NewDefaultOverhead x))))"
    if "wf_op x" "sanitize NewDefaultOverhead x = sanitize NewDefaultOverhead op" for x
    using CalcPreVerificationGas_static [OF assms(1) that(1), of calcPVGFuncNoop] assms(3,4) that(2)
    unfolding default by (simp add: calcPVGFuncNoop_def)
  show ?thesis
  proof (intro conjI allI impI)
    show "CalcPreVerificationGas L NewDefaultOverhead op
      = Inr (static_pvg (drop 32 (abi_pack_op L (sanitize NewDefaultOverhead op))))"
      using main [OF assms(2)] by simp
    fix pvg vgl cgl :: int and sig :: bytes
    assume "0 \<le> pvg \<and> 0 \<le> vgl \<and> 0 \<le> cgl \<and> length sig = length (Signature op)"
    then show "CalcPreVerificationGas L NewDefaultOverhead
        (op\<lparr>PreVerificationGas := pvg, VerificationGasLimit := vgl, CallGasLimit := cgl, Signature := sig\<rparr>)
      = CalcPreVerificationGas L NewDefaultOverhead op"
      using main [OF assms(2)] assms(2) by (subst main) (auto simp: wf_op_def sanitize_def)
  qed
qed


theorem CalcPreVerificationGas_default_witness:
  "CalcPreVerificationGas userop_ref NewDefaultOverhead (sample_op 5 3) = Inr 43931"
proof -
  have "abi_pack_op userop_ref (sanitize NewDefaultOverhead (sample_op 5 3)) = replicate 32 0 @ [1, 2]"
    by (simp add: userop_ref_pack sanitize_def sample_op_def)
  then show ?thesis
    using CalcPreVerificationGas_default [OF userop_ref_ok sample_op_wf [of 5 3]]
    by (simp add: static_pvg_def)
qed

end
