(* ===== verification/Go_Sort.thy ===== *)
theory Go_Sort
  imports Prelude
begin

text \<open>
  Go's \<open>sort.SliceStable\<close> (package \<open>sort\<close> of the standard library): insertion sort on blocks of
  20 elements, then rounds of in-place merges (\<open>symMerge\<close>) of neighbouring blocks. The comparison
  \<open>lt\<close> is an arbitrary function, so that the model also says what happens when it is not a
  strict weak order. For a comparison that orders by an integer key the sort is shown equal to
  the library's stable \<open>sort_key\<close>.

  A range of the slice is a list here: the in-place rotation of \<open>symMerge\<close> is the exchange of two
  neighbouring sublists.
\<close>

subsection \<open>The algorithm\<close>

text \<open>
  \<open>insertionSort\<close> moves each element left past the elements it is less than; the sorted prefix is
  kept reversed, so the move goes from its right end.
\<close>

fun insert_left :: "('a \<Rightarrow> 'a \<Rightarrow> bool) \<Rightarrow> 'a \<Rightarrow> 'a list \<Rightarrow> 'a list" where
  "insert_left lt x [] = [x]"
| "insert_left lt x (y # ys) = (if lt x y then y # insert_left lt x ys else x # y # ys)"

definition insertion_sort :: "('a \<Rightarrow> 'a \<Rightarrow> bool) \<Rightarrow> 'a list \<Rightarrow> 'a list" where
  "insertion_sort lt xs = rev (fold (insert_left lt) xs [])"

text \<open>
  The binary searches of \<open>symMerge\<close>: while \<open>i < j\<close>, test the middle \<open>h\<close> and continue in
  \<open>[h + 1, j)\<close> if \<open>p h\<close>, in \<open>[i, h)\<close> otherwise.
\<close>

function bsearch :: "(nat \<Rightarrow> bool) \<Rightarrow> nat \<Rightarrow> nat \<Rightarrow> nat" where
  "bsearch p i j =
     (if i < j then
        (let h = (i + j) div 2 in if p h then bsearch p (h + 1) j else bsearch p i h)
      else i)"
  by pat_completeness auto
termination
  by (relation "measure (\<lambda>(p, i, j). j - i)") auto

declare bsearch.simps [simp del]

text \<open>
  \<open>symMerge(data, a, m, b)\<close> on the two neighbouring ranges \<open>data[a:m]\<close> and \<open>data[m:b]\<close>, with
  indices relative to \<open>a\<close>.
\<close>

definition sym_start :: "('a \<Rightarrow> 'a \<Rightarrow> bool) \<Rightarrow> 'a list \<Rightarrow> 'a list \<Rightarrow> nat" where
  "sym_start lt ls rs =
     (let m = length ls; b = m + length rs; mid = b div 2; n = mid + m;
          (start, r) = (if mid < m then (n - b, mid) else (0, m));
          p = n - 1; data = ls @ rs
      in bsearch (\<lambda>c. \<not> lt (data ! (p - c)) (data ! c)) start r)"

function sym_merge :: "('a \<Rightarrow> 'a \<Rightarrow> bool) \<Rightarrow> 'a list \<Rightarrow> 'a list \<Rightarrow> 'a list" where
  "sym_merge lt ls rs =
     (if ls = [] \<or> rs = [] then ls @ rs
      else if length ls = 1 then
        (let i = bsearch (\<lambda>h. lt (rs ! h) (hd ls)) 0 (length rs)
         in take i rs @ ls @ drop i rs)
      else if length rs = 1 then
        (let i = bsearch (\<lambda>h. \<not> lt (hd rs) (ls ! h)) 0 (length ls)
         in take i ls @ rs @ drop i ls)
      else
        (let start = sym_start lt ls rs;
             k = (length ls + length rs) div 2 - start
         in sym_merge lt (take start ls) (take k rs) @
            sym_merge lt (drop start ls) (drop k rs)))"
  by pat_completeness auto
termination
proof (relation "measure (\<lambda>(lt, ls, rs). length ls + length rs)", goal_cases)
  case 1
  then show ?case by simp
next
  case (2 lt ls rs start k)
  then have pos: "0 < length rs"
    by auto
  have "length (take start ls) + length (take k rs) < length ls + length rs"
  proof (cases "length ls \<le> start")
    case True
    have "k = (length ls + length rs) div 2 - start" using 2 by simp
    with True pos have "k < length rs" by arith
    then show ?thesis by simp
  next
    case False
    then show ?thesis by simp
  qed
  then show ?case by simp
next
  case (3 lt ls rs start k)
  from 3 have "2 \<le> length ls" and "2 \<le> length rs"
    by (cases ls; cases rs; fastforce simp: Suc_le_eq)+
  with 3 show ?case by (simp add: min_def)
qed

declare sym_merge.simps [simp del]

text \<open>The rounds: blocks of 20, then \<open>blockSize *= 2\<close> while more than one block is left.\<close>

function chunks :: "nat \<Rightarrow> 'a list \<Rightarrow> 'a list list" where
  "chunks n xs = (if xs = [] \<or> n = 0 then [] else take n xs # chunks n (drop n xs))"
  by pat_completeness auto
termination
  by (relation "measure (\<lambda>(n, xs). length xs)") auto

declare chunks.simps [simp del]

fun merge_pairs :: "('a \<Rightarrow> 'a \<Rightarrow> bool) \<Rightarrow> 'a list list \<Rightarrow> 'a list list" where
  "merge_pairs lt (b1 # b2 # bs) = sym_merge lt b1 b2 # merge_pairs lt bs"
| "merge_pairs lt bs = bs"

lemma length_merge_pairs: "length (merge_pairs lt bs) = (length bs + 1) div 2"
  by (induction lt bs rule: merge_pairs.induct) auto

function merge_rounds :: "('a \<Rightarrow> 'a \<Rightarrow> bool) \<Rightarrow> 'a list list \<Rightarrow> 'a list" where
  "merge_rounds lt bs =
     (if length bs \<le> 1 then concat bs else merge_rounds lt (merge_pairs lt bs))"
  by pat_completeness auto
termination
  by (relation "measure (\<lambda>(lt, bs). length bs)") (auto simp: length_merge_pairs)

declare merge_rounds.simps [simp del]

definition SliceStable :: "('a \<Rightarrow> 'a \<Rightarrow> bool) \<Rightarrow> 'a list \<Rightarrow> 'a list" where
  "SliceStable lt xs = merge_rounds lt (map (insertion_sort lt) (chunks 20 xs))"

subsection \<open>For any comparison: the result is a permutation\<close>

lemma mset_insert_left: "mset (insert_left lt x ys) = add_mset x (mset ys)"
  by (induction ys) auto

lemma mset_fold_insert_left: "mset (fold (insert_left lt) xs ys) = mset xs + mset ys"
  by (induction xs arbitrary: ys) (auto simp: mset_insert_left)

lemma mset_insertion_sort: "mset (insertion_sort lt xs) = mset xs"
  by (simp add: insertion_sort_def mset_fold_insert_left)

lemma mset_take_drop: "mset (take i xs) + mset (drop i xs) = mset xs"
  by (metis append_take_drop_id mset_append)

lemma mset_sym_merge: "mset (sym_merge lt ls rs) = mset ls + mset rs"
proof (induction lt ls rs rule: sym_merge.induct)
  case (1 lt ls rs)
  consider "ls = [] \<or> rs = []" | "ls \<noteq> []" "rs \<noteq> []" "length ls = 1"
    | "ls \<noteq> []" "rs \<noteq> []" "length ls \<noteq> 1" "length rs = 1"
    | "ls \<noteq> []" "rs \<noteq> []" "length ls \<noteq> 1" "length rs \<noteq> 1"
    by blast
  then show ?case
  proof cases
    case 1
    then show ?thesis by (auto simp: sym_merge.simps [of lt ls rs])
  next
    case 2
    then show ?thesis
      using mset_take_drop [of _ rs] by (simp add: sym_merge.simps [of lt ls rs] Let_def ac_simps)
  next
    case 3
    then show ?thesis
      using mset_take_drop [of _ ls] by (simp add: sym_merge.simps [of lt ls rs] Let_def ac_simps)
  next
    case 4
    let ?s = "sym_start lt ls rs"
    let ?k = "(length ls + length rs) div 2 - ?s"
    have "mset (sym_merge lt ls rs)
        = (mset (take ?s ls) + mset (take ?k rs)) + (mset (drop ?s ls) + mset (drop ?k rs))"
      using 4 "1.IH" by (simp add: sym_merge.simps [of lt ls rs] Let_def)
    also have "\<dots> = mset ls + mset rs"
      using mset_take_drop [of ?s ls] mset_take_drop [of ?k rs] by (simp add: ac_simps)
    finally show ?thesis .
  qed
qed

lemma mset_concat_merge_pairs: "mset (concat (merge_pairs lt bs)) = mset (concat bs)"
  by (induction lt bs rule: merge_pairs.induct) (auto simp: mset_sym_merge)

lemma mset_merge_rounds: "mset (merge_rounds lt bs) = mset (concat bs)"
proof (induction lt bs rule: merge_rounds.induct)
  case (1 lt bs)
  then show ?case
    by (cases "length bs \<le> 1")
      (simp_all add: merge_rounds.simps [of lt bs] mset_concat_merge_pairs)
qed

lemma concat_chunks: "0 < n \<Longrightarrow> concat (chunks n xs) = xs"
proof (induction n xs rule: chunks.induct)
  case (1 n xs)
  then show ?case by (cases "xs = []") (simp_all add: chunks.simps [of n xs] chunks.simps [of n "[]"])
qed

lemma mset_concat_map_sorts: "mset (concat (map (insertion_sort lt) bs)) = mset (concat bs)"
  by (induction bs) (auto simp: mset_insertion_sort)

lemma mset_SliceStable [simp]: "mset (SliceStable lt xs) = mset xs"
  by (simp add: SliceStable_def mset_merge_rounds mset_concat_map_sorts concat_chunks)

lemma set_SliceStable [simp]: "set (SliceStable lt xs) = set xs"
  by (metis mset_SliceStable set_mset_mset)

lemma length_SliceStable [simp]: "length (SliceStable lt xs) = length xs"
  by (metis mset_SliceStable size_mset)

text \<open>A slice of at most 20 elements is sorted by insertion alone.\<close>

lemma SliceStable_small: "length xs \<le> 20 \<Longrightarrow> SliceStable lt xs = insertion_sort lt xs"
  by (cases "xs = []")
    (simp_all add: SliceStable_def chunks.simps [of 20 xs] chunks.simps [of 20 "[]"]
      merge_rounds.simps insertion_sort_def)

subsection \<open>For a comparison by key: the result is the stable sort\<close>

text \<open>A test that is true up to some point and false from there on is searched correctly.\<close>

lemma bsearch_bounds: "i \<le> j \<Longrightarrow> i \<le> bsearch p i j \<and> bsearch p i j \<le> j"
proof (induction p i j rule: bsearch.induct)
  case (1 p i j)
  show ?case
  proof (cases "i < j")
    case True
    then have h: "i \<le> (i + j) div 2" "(i + j) div 2 < j" by auto
    show ?thesis
      using 1(1) [OF True refl] 1(2) [OF True refl] h True
      by (cases "p ((i + j) div 2)") (auto simp: bsearch.simps [of p i j] Let_def)
  next
    case False
    with 1 have "i = j" by simp
    then show ?thesis by (simp add: bsearch.simps [of p j j])
  qed
qed

lemma bsearch_cong:
  "(\<And>c. i \<le> c \<Longrightarrow> c < j \<Longrightarrow> p c = q c) \<Longrightarrow> bsearch p i j = bsearch q i j"
proof (induction p i j rule: bsearch.induct)
  case (1 p i j)
  show ?case
  proof (cases "i < j")
    case True
    have eq: "p ((i + j) div 2) = q ((i + j) div 2)" using True by (intro "1.prems") auto
    show ?thesis
    proof (cases "p ((i + j) div 2)")
      case pt: True
      have "bsearch p ((i + j) div 2 + 1) j = bsearch q ((i + j) div 2 + 1) j"
        by (rule 1(1) [OF True refl pt]) (use "1.prems" in auto)
      with True pt eq show ?thesis
        by (simp add: bsearch.simps [of p i j] bsearch.simps [of q i j] Let_def)
    next
      case pf: False
      have "bsearch p i ((i + j) div 2) = bsearch q i ((i + j) div 2)"
        by (rule 1(2) [OF True refl pf]) (use "1.prems" True in auto)
      with True pf eq show ?thesis
        by (simp add: bsearch.simps [of p i j] bsearch.simps [of q i j] Let_def)
    qed
  next
    case False
    then show ?thesis by (simp add: bsearch.simps [of p i j] bsearch.simps [of q i j])
  qed
qed

lemma bsearch_correct:
  assumes "i \<le> j" and "\<And>a b. i \<le> a \<Longrightarrow> a \<le> b \<Longrightarrow> b < j \<Longrightarrow> p b \<Longrightarrow> p a"
  shows "(\<forall>c. i \<le> c \<and> c < bsearch p i j \<longrightarrow> p c) \<and> (\<forall>c. bsearch p i j \<le> c \<and> c < j \<longrightarrow> \<not> p c)"
  using assms
proof (induction p i j rule: bsearch.induct)
  case (1 p i j)
  show ?case
  proof (cases "i < j")
    case True
    let ?h = "(i + j) div 2"
    have h: "i \<le> ?h" "?h < j" using True by auto
    show ?thesis
    proof (cases "p ?h")
      case p: True
      have le: "\<And>c. i \<le> c \<Longrightarrow> c \<le> ?h \<Longrightarrow> p c" using "1.prems"(2) h(2) p by blast
      have "?h + 1 \<le> j" using h by simp
      have eq: "bsearch p i j = bsearch p (?h + 1) j"
        using True p by (simp add: bsearch.simps [of p i j] Let_def)
      have anti: "\<And>a b. ?h + 1 \<le> a \<Longrightarrow> a \<le> b \<Longrightarrow> b < j \<Longrightarrow> p b \<Longrightarrow> p a"
        using "1.prems"(2) h(1) by (meson le_trans le_add1)
      have IH: "(\<forall>c. ?h + 1 \<le> c \<and> c < bsearch p (?h + 1) j \<longrightarrow> p c) \<and>
          (\<forall>c. bsearch p (?h + 1) j \<le> c \<and> c < j \<longrightarrow> \<not> p c)"
        by (rule 1(1) [OF True refl p \<open>?h + 1 \<le> j\<close>]) (rule anti)
      have "p c" if "i \<le> c" "c < bsearch p (?h + 1) j" for c
      proof (cases "c \<le> ?h")
        case True
        then show ?thesis using le that(1) by blast
      next
        case False
        then show ?thesis using IH that(2) by simp
      qed
      moreover have "\<not> p c" if "bsearch p (?h + 1) j \<le> c" "c < j" for c
        using IH that by blast
      ultimately show ?thesis unfolding eq by blast
    next
      case p: False
      have ge: "\<And>c. ?h \<le> c \<Longrightarrow> c < j \<Longrightarrow> \<not> p c" using "1.prems"(2) h(1) p by blast
      have eq: "bsearch p i j = bsearch p i ?h"
        using True p by (simp add: bsearch.simps [of p i j] Let_def)
      have anti: "\<And>a b. i \<le> a \<Longrightarrow> a \<le> b \<Longrightarrow> b < ?h \<Longrightarrow> p b \<Longrightarrow> p a"
        using "1.prems"(2) h(2) by (meson less_trans)
      have IH: "(\<forall>c. i \<le> c \<and> c < bsearch p i ?h \<longrightarrow> p c) \<and>
          (\<forall>c. bsearch p i ?h \<le> c \<and> c < ?h \<longrightarrow> \<not> p c)"
        by (rule 1(2) [OF True refl p h(1)]) (rule anti)
      have "\<not> p c" if "bsearch p i ?h \<le> c" "c < j" for c
      proof (cases "?h \<le> c")
        case True
        then show ?thesis using ge that(2) by blast
      next
        case False
        then show ?thesis using IH that(1) by simp
      qed
      moreover have "p c" if "i \<le> c" "c < bsearch p i ?h" for c
        using IH that by blast
      ultimately show ?thesis unfolding eq by blast
    qed
  next
    case False
    with "1.prems"(1) have "i = j" by simp
    then show ?thesis by (auto simp: bsearch.simps [of p j j])
  qed
qed

abbreviation by_key :: "('a \<Rightarrow> 'k::linorder) \<Rightarrow> 'a \<Rightarrow> 'a \<Rightarrow> bool" where
  "by_key key \<equiv> (\<lambda>x y. key x < key y)"

lemma sorted_map_nth_mono:
  "sorted (map f xs) \<Longrightarrow> i \<le> j \<Longrightarrow> j < length xs \<Longrightarrow> f (xs ! i) \<le> f (xs ! j)"
  using sorted_nth_mono [of "map f xs" i j] by simp

text \<open>Where the ranges are split, and that the split point is inside both ranges.\<close>

lemma sym_start_eq:
  assumes "ls \<noteq> []" "rs \<noteq> []"
  defines "mid \<equiv> (length ls + length rs) div 2"
  defines "lo \<equiv> mid - length rs" and "hi \<equiv> min mid (length ls)"
  shows "sym_start lt ls rs = bsearch (\<lambda>c. \<not> lt (rs ! (mid - 1 - c)) (ls ! c)) lo hi"
    and "lo \<le> hi" and "\<And>c. lo \<le> c \<Longrightarrow> c < hi \<Longrightarrow> mid - 1 - c < length rs \<and> c < length ls"
    and "mid - lo \<le> length rs"
proof -
  let ?m = "length ls" and ?k = "length rs"
  have pos: "0 < ?m" "0 < ?k" using assms(1,2) by auto
  have lohi: "(if mid < ?m then (mid + ?m - (?m + ?k), mid) else (0, ?m)) = (lo, hi)"
    unfolding lo_def hi_def mid_def using pos by auto
  have idx: "mid - 1 - c < ?k \<and> c < ?m" if "lo \<le> c" "c < hi" for c
    using that pos unfolding lo_def hi_def by auto
  have nth: "(ls @ rs) ! (mid + ?m - 1 - c) = rs ! (mid - 1 - c) \<and> (ls @ rs) ! c = ls ! c"
    if "lo \<le> c" "c < hi" for c
  proof -
    have "c < mid" "c < ?m" using that(2) by (auto simp: hi_def)
    then have "mid + ?m - 1 - c = ?m + (mid - 1 - c)" by simp
    then have "(ls @ rs) ! (mid + ?m - 1 - c) = rs ! (mid - 1 - c)"
      by (simp only: nth_append_length_plus)
    with \<open>c < ?m\<close> show ?thesis by (simp add: nth_append)
  qed
  have "sym_start lt ls rs
      = bsearch (\<lambda>c. \<not> lt ((ls @ rs) ! (mid + ?m - 1 - c)) ((ls @ rs) ! c)) lo hi"
    unfolding sym_start_def Let_def mid_def [symmetric] lohi by simp
  also have "\<dots> = bsearch (\<lambda>c. \<not> lt (rs ! (mid - 1 - c)) (ls ! c)) lo hi"
    by (rule bsearch_cong) (metis nth)
  finally show "sym_start lt ls rs = bsearch (\<lambda>c. \<not> lt (rs ! (mid - 1 - c)) (ls ! c)) lo hi" .
  show "lo \<le> hi" using pos unfolding lo_def hi_def mid_def by auto
  show "\<And>c. lo \<le> c \<Longrightarrow> c < hi \<Longrightarrow> mid - 1 - c < ?k \<and> c < ?m" by (rule idx)
  show "mid - lo \<le> ?k" unfolding lo_def by simp
qed

text \<open>The halves that are merged separately do not overlap in key.\<close>

lemma sym_start_split:
  fixes key :: "'a \<Rightarrow> 'k::linorder"
  assumes ne: "ls \<noteq> []" "rs \<noteq> []"
    and sl: "sorted (map key ls)" and sr: "sorted (map key rs)"
  defines "mid \<equiv> (length ls + length rs) div 2"
  defines "s \<equiv> sym_start (by_key key) ls rs"
  shows "\<forall>x \<in> set (take s ls). \<forall>y \<in> set (drop (mid - s) rs). key x \<le> key y"
    and "\<forall>y \<in> set (take (mid - s) rs). \<forall>x \<in> set (drop s ls). key y < key x"
proof -
  let ?m = "length ls" and ?k = "length rs"
  define lo where "lo = mid - ?k"
  define hi where "hi = min mid ?m"
  define q where "q = (\<lambda>c. \<not> key (rs ! (mid - 1 - c)) < key (ls ! c))"
  note eqs = sym_start_eq(1) [OF ne, where lt = "by_key key", folded mid_def,
      folded lo_def hi_def, folded q_def s_def]
    sym_start_eq(2,3) [OF ne, folded mid_def, folded lo_def hi_def]
  have anti: "q a" if "lo \<le> a" "a \<le> b" "b < hi" "q b" for a b
  proof -
    have ib: "mid - 1 - b < ?k" "b < ?m" and ia: "mid - 1 - a < ?k" "a < ?m"
      using eqs(3) [of b] eqs(3) [of a] that by auto
    have "key (ls ! a) \<le> key (ls ! b)" using sorted_map_nth_mono [OF sl] that(2) ib by blast
    also have "\<dots> \<le> key (rs ! (mid - 1 - b))" using that(4) by (simp add: q_def)
    also have "\<dots> \<le> key (rs ! (mid - 1 - a))"
      using sorted_map_nth_mono [OF sr] that(2) ia by (meson diff_le_mono2)
    finally show ?thesis by (simp add: q_def)
  qed
  have bounds: "lo \<le> s" "s \<le> hi" using bsearch_bounds [OF eqs(2), of q] eqs(1) by auto
  have corr: "\<And>c. lo \<le> c \<Longrightarrow> c < s \<Longrightarrow> q c" "\<And>c. s \<le> c \<Longrightarrow> c < hi \<Longrightarrow> \<not> q c"
    using bsearch_correct [OF eqs(2), of q] anti eqs(1) by auto
  show "\<forall>x \<in> set (take s ls). \<forall>y \<in> set (drop (mid - s) rs). key x \<le> key y"
  proof (cases "s = lo")
    case True
    then have "s = 0 \<or> mid - s \<ge> ?k" unfolding lo_def by auto
    then show ?thesis by auto
  next
    case False
    with bounds have "lo \<le> s - 1" "s - 1 < s" by auto
    from corr(1) [OF this] have qs: "key (ls ! (s - 1)) \<le> key (rs ! (mid - s))"
      using \<open>s - 1 < s\<close> by (simp add: q_def)
    show ?thesis
    proof (intro ballI)
      fix x y assume "x \<in> set (take s ls)" and "y \<in> set (drop (mid - s) rs)"
      then obtain i j where i: "i < s" "i < ?m" "x = ls ! i"
        and j: "mid - s + j < ?k" "y = rs ! (mid - s + j)"
        by (clarsimp simp: in_set_conv_nth) (metis less_diff_conv2 add.commute less_diff_conv)
      have "s \<le> ?m" using bounds hi_def by simp
      then have "key x \<le> key (ls ! (s - 1))"
        using sorted_map_nth_mono [OF sl, of i "s - 1"] i by simp
      also note qs
      also have "key (rs ! (mid - s)) \<le> key y"
        using sorted_map_nth_mono [OF sr, of "mid - s" "mid - s + j"] j by simp
      finally show "key x \<le> key y" .
    qed
  qed
  show "\<forall>y \<in> set (take (mid - s) rs). \<forall>x \<in> set (drop s ls). key y < key x"
  proof (cases "s = hi")
    case True
    then have "mid - s = 0 \<or> s \<ge> ?m" unfolding hi_def by auto
    then show ?thesis by auto
  next
    case False
    with bounds have "s < hi" by simp
    from corr(2) [OF order_refl this] have qs: "key (rs ! (mid - 1 - s)) < key (ls ! s)"
      by (simp add: q_def)
    have idx: "mid - 1 - s < ?k" using eqs(3) [of s] bounds \<open>s < hi\<close> by simp
    show ?thesis
    proof (intro ballI)
      fix x y assume "y \<in> set (take (mid - s) rs)" and "x \<in> set (drop s ls)"
      then obtain i j where i: "s + i < ?m" "x = ls ! (s + i)"
        and j: "j < mid - s" "j < ?k" "y = rs ! j"
        by (clarsimp simp: in_set_conv_nth) (metis add.commute less_diff_conv)
      have "key y \<le> key (rs ! (mid - 1 - s))"
        using sorted_map_nth_mono [OF sr, of j "mid - 1 - s"] j idx by simp
      also note qs
      also have "key (ls ! s) \<le> key x"
        using sorted_map_nth_mono [OF sl, of s "s + i"] i by simp
      finally show "key y < key x" .
    qed
  qed
qed

text \<open>One merge of two ranges that are stably sorted is the stable sort of both.\<close>

lemma sort_key_eqI:
  assumes "mset ys = mset xs" and "sorted (map key ys)"
    and "\<And>k. filter (\<lambda>x. key x = k) ys = filter (\<lambda>x. key x = k) xs"
  shows "ys = sort_key key xs"
proof -
  have "filter (\<lambda>x. key k = key x) ys = filter (\<lambda>x. key k = key x) xs" for k
    using assms(3) [of "key k"] by (simp add: eq_commute)
  from properties_for_sort_key [OF assms(1) this assms(2)] show ?thesis by simp
qed

lemma filter_none: "(\<And>x. x \<in> set xs \<Longrightarrow> \<not> P x) \<Longrightarrow> filter P xs = []"
  by (simp add: filter_empty_conv)

text \<open>Four sublists in the order of \<open>symMerge\<close>'s rotation: the middle two exchange places.\<close>

lemma sort_key_rotate:
  assumes a: "\<forall>x \<in> set l1. \<forall>y \<in> set r2. key x \<le> key y"
    and b: "\<forall>y \<in> set r1. \<forall>x \<in> set l2. key y < key x"
    and l: "sorted (map key (l1 @ l2))" and r: "sorted (map key (r1 @ r2))"
  shows "sort_key key (l1 @ r1) @ sort_key key (l2 @ r2) = sort_key key ((l1 @ l2) @ (r1 @ r2))"
proof (rule sort_key_eqI)
  show "mset (sort_key key (l1 @ r1) @ sort_key key (l2 @ r2)) = mset ((l1 @ l2) @ (r1 @ r2))"
    by simp
  have "\<forall>x \<in> set l1. \<forall>y \<in> set l2. key x \<le> key y" "\<forall>x \<in> set r1. \<forall>y \<in> set r2. key x \<le> key y"
    using l r by (auto simp: sorted_append)
  then show "sorted (map key (sort_key key (l1 @ r1) @ sort_key key (l2 @ r2)))"
    using a b by (auto simp: sorted_append intro: less_imp_le)
  fix k
  have "filter (\<lambda>x. key x = k) r1 = [] \<or> filter (\<lambda>x. key x = k) l2 = []"
    using b by (fastforce simp: filter_empty_conv)
  then show "filter (\<lambda>x. key x = k) (sort_key key (l1 @ r1) @ sort_key key (l2 @ r2))
      = filter (\<lambda>x. key x = k) ((l1 @ l2) @ (r1 @ r2))"
    by (auto simp: sort_key_stable)
qed

lemma sort_key_sorted: "sorted (map key xs) \<Longrightarrow> sort_key key xs = xs"
  by (rule sort_key_eqI [symmetric]) auto

lemma insert_left_sort:
  "sorted (map key zs) \<Longrightarrow> rev (insert_left (by_key key) x (rev zs)) = sort_key key (zs @ [x])"
proof (induction zs rule: rev_induct)
  case Nil
  then show ?case by simp
next
  case (snoc y us)
  then have su: "sorted (map key us)" by (auto simp: sorted_append)
  show ?case
  proof (cases "key x < key y")
    case True
    then have "sort_key key (us @ [x]) @ sort_key key ([y] @ []) = sort_key key ((us @ [y]) @ [x] @ [])"
      using snoc.prems by (intro sort_key_rotate) auto
    with True snoc.IH [OF su] show ?thesis by simp
  next
    case False
    with snoc.prems have "sorted (map key (us @ [y, x]))"
      by (auto simp: sorted_append not_less intro: order_trans)
    with False show ?thesis by (simp add: sort_key_sorted)
  qed
qed

lemma sorted_map_take: "sorted (map key xs) \<Longrightarrow> sorted (map key (take i xs))"
  by (metis sorted_wrt_take take_map)

lemma sorted_map_drop: "sorted (map key xs) \<Longrightarrow> sorted (map key (drop i xs))"
  by (metis sorted_wrt_drop drop_map)

lemma sort_key_append_sorted: "sort_key key (sort_key key xs @ ys) = sort_key key (xs @ ys)"
  by (rule sort_key_eqI) (auto simp: sort_key_stable)

lemma insertion_sort_eq: "insertion_sort (by_key key) xs = sort_key key xs"
proof -
  have "rev (fold (insert_left (by_key key)) xs (rev zs)) = sort_key key (zs @ xs)"
    if "sorted (map key zs)" for zs
    using that
  proof (induction xs arbitrary: zs)
    case Nil
    then show ?case by (simp add: sort_key_sorted)
  next
    case (Cons x xs)
    let ?zs = "sort_key key (zs @ [x])"
    have "insert_left (by_key key) x (rev zs) = rev ?zs"
      using insert_left_sort [OF Cons.prems, of x] by (metis rev_rev_ident)
    with Cons.IH [of ?zs] sort_key_append_sorted [of key "zs @ [x]" xs]
    show ?case by simp
  qed
  from this [of "[]"] show ?thesis by (simp add: insertion_sort_def)
qed

lemma sym_merge_left_one:
  fixes x :: 'a and key :: "'a \<Rightarrow> 'k::linorder"
  assumes "sorted (map key rs)"
  defines "i \<equiv> bsearch (\<lambda>h. key (rs ! h) < key x) 0 (length rs)"
  shows "take i rs @ [x] @ drop i rs = sort_key key ([x] @ rs)"
proof -
  have anti: "key (rs ! a) < key x" if "a \<le> b" "b < length rs" "key (rs ! b) < key x" for a b
    using sorted_map_nth_mono [OF assms(1) that(1,2)] that(3) by simp
  then have c: "\<And>c. c < i \<Longrightarrow> key (rs ! c) < key x"
    "\<And>c. i \<le> c \<Longrightarrow> c < length rs \<Longrightarrow> \<not> key (rs ! c) < key x"
    using bsearch_correct [of 0 "length rs" "\<lambda>h. key (rs ! h) < key x"] unfolding i_def by blast+
  have lt: "\<forall>y \<in> set (take i rs). key y < key x" using c(1) by (auto simp: in_set_conv_nth)
  have ge: "\<forall>y \<in> set (drop i rs). key x \<le> key y" using c(2) by (fastforce simp: in_set_conv_nth not_less)
  have srt: "sorted (map key (take i rs))" "sorted (map key ([x] @ drop i rs))"
    using assms(1) ge by (simp_all add: sorted_map_take sorted_map_drop)
  have "sort_key key ([] @ take i rs) @ sort_key key ([x] @ drop i rs)
      = sort_key key (([] @ [x]) @ (take i rs @ drop i rs))"
    using lt assms(1) by (intro sort_key_rotate) auto
  moreover have "sort_key key ([] @ take i rs) = take i rs"
    "sort_key key ([x] @ drop i rs) = [x] @ drop i rs"
    by (simp only: append_Nil sort_key_sorted [OF srt(1)], rule sort_key_sorted [OF srt(2)])
  ultimately show ?thesis by (simp only: append_Nil append_assoc append_take_drop_id)
qed

lemma sym_merge_right_one:
  fixes y :: 'a and key :: "'a \<Rightarrow> 'k::linorder"
  assumes "sorted (map key ls)"
  defines "i \<equiv> bsearch (\<lambda>h. \<not> key y < key (ls ! h)) 0 (length ls)"
  shows "take i ls @ [y] @ drop i ls = sort_key key (ls @ [y])"
proof -
  have anti: "\<not> key y < key (ls ! a)" if "a \<le> b" "b < length ls" "\<not> key y < key (ls ! b)" for a b
    using sorted_map_nth_mono [OF assms(1) that(1,2)] that(3) by simp
  then have c: "\<And>c. c < i \<Longrightarrow> \<not> key y < key (ls ! c)"
    "\<And>c. i \<le> c \<Longrightarrow> c < length ls \<Longrightarrow> key y < key (ls ! c)"
    using bsearch_correct [of 0 "length ls" "\<lambda>h. \<not> key y < key (ls ! h)"] unfolding i_def by blast+
  have le: "\<forall>x \<in> set (take i ls). key x \<le> key y" using c(1) by (fastforce simp: in_set_conv_nth not_less)
  have gt: "\<forall>x \<in> set (drop i ls). key y < key x" using c(2) by (auto simp: in_set_conv_nth)
  have srt: "sorted (map key (take i ls @ [y]))" "sorted (map key (drop i ls))"
    using assms(1) le by (simp_all add: sorted_append sorted_map_take sorted_map_drop)
  have "sort_key key (take i ls @ [y]) @ sort_key key (drop i ls @ [])
      = sort_key key ((take i ls @ drop i ls) @ ([y] @ []))"
    using gt assms(1) by (intro sort_key_rotate) auto
  with srt show ?thesis by (simp add: sort_key_sorted)
qed

lemma sym_merge_eq:
  assumes "sorted (map key ls)" "sorted (map key rs)"
  shows "sym_merge (by_key key) ls rs = sort_key key (ls @ rs)"
  using assms
proof (induction "length ls + length rs" arbitrary: ls rs rule: less_induct)
  case less
  note eq = sym_merge.simps [of "by_key key" ls rs]
  consider "ls = [] \<or> rs = []" | x where "rs \<noteq> []" "ls = [x]"
    | y where "ls \<noteq> []" "length ls \<noteq> 1" "rs = [y]"
    | "ls \<noteq> []" "rs \<noteq> []" "length ls \<noteq> 1" "length rs \<noteq> 1"
    by (metis length_0_conv length_Suc_conv One_nat_def)
  then show ?case
  proof cases
    case 1
    with less.prems show ?thesis by (auto simp: eq sort_key_sorted)
  next
    case 2
    with sym_merge_left_one [OF less.prems(2), of x] show ?thesis
      by (simp add: sym_merge.simps [of "by_key key" "[x]" rs] Let_def)
  next
    case 3
    with sym_merge_right_one [OF less.prems(1), of y] show ?thesis
      by (simp add: sym_merge.simps [of "by_key key" ls "[y]"] Let_def)
  next
    case 4
    define s where "s = sym_start (by_key key) ls rs"
    define k where "k = (length ls + length rs) div 2 - s"
    note split = sym_start_split [OF 4(1,2) less.prems, folded s_def, folded k_def]
    have l: "ls = take s ls @ drop s ls" and r: "rs = take k rs @ drop k rs" by simp_all
    have srt: "sorted (map key (take s ls))" "sorted (map key (take k rs))"
      "sorted (map key (drop s ls))" "sorted (map key (drop k rs))"
      using less.prems by (simp_all add: sorted_map_take sorted_map_drop)
    have len: "2 \<le> length ls" "2 \<le> length rs" using 4
      by (cases ls; cases rs; fastforce simp: Suc_le_eq)+
    have d1: "length (take s ls) + length (take k rs) < length ls + length rs"
      using len by (auto simp: k_def min_def)
    have d2: "length (drop s ls) + length (drop k rs) < length ls + length rs"
      using len by (auto simp: k_def)
    have "sym_merge (by_key key) ls rs
        = sym_merge (by_key key) (take s ls) (take k rs) @ sym_merge (by_key key) (drop s ls) (drop k rs)"
      using 4 by (simp add: eq Let_def s_def k_def)
    also have "\<dots> = sort_key key (take s ls @ take k rs) @ sort_key key (drop s ls @ drop k rs)"
      using less.hyps [OF d1 srt(1,2)] less.hyps [OF d2 srt(3,4)] by simp
    also have "\<dots> = sort_key key ((take s ls @ drop s ls) @ (take k rs @ drop k rs))"
      using split less.prems by (intro sort_key_rotate) auto
    finally show ?thesis by simp
  qed
qed

lemma sort_key_append_cong:
  "sort_key key (sort_key key xs @ sort_key key ys) = sort_key key (xs @ ys)"
  by (rule sort_key_eqI) (auto simp: sort_key_stable)

text \<open>Every block of a round is stably sorted, so is the concatenation after the last round.\<close>

lemma merge_pairs_sorted_blocks:
  "\<forall>b \<in> set bs. sorted (map key b) \<Longrightarrow>
    (\<forall>b \<in> set (merge_pairs (by_key key) bs). sorted (map key b)) \<and>
    sort_key key (concat (merge_pairs (by_key key) bs)) = sort_key key (concat bs)"
proof (induction "by_key key" bs rule: merge_pairs.induct)
  case (1 b1 b2 bs)
  then have IH: "\<forall>b \<in> set (merge_pairs (by_key key) bs). sorted (map key b)"
    "sort_key key (concat (merge_pairs (by_key key) bs)) = sort_key key (concat bs)"
    and eq: "sym_merge (by_key key) b1 b2 = sort_key key (b1 @ b2)"
    by (auto simp: sym_merge_eq)
  have "sort_key key (sort_key key (b1 @ b2) @ concat (merge_pairs (by_key key) bs))
      = sort_key key (sort_key key (b1 @ b2) @ sort_key key (concat (merge_pairs (by_key key) bs)))"
    by (rule sort_key_eqI) (auto simp: sort_key_stable)
  also have "\<dots> = sort_key key ((b1 @ b2) @ concat bs)"
    by (simp only: IH(2) sort_key_append_cong)
  finally show ?case using IH(1) by (simp add: eq)
qed simp_all

lemma merge_rounds_sorted_blocks:
  "\<forall>b \<in> set bs. sorted (map key b) \<Longrightarrow>
    merge_rounds (by_key key) bs = sort_key key (concat bs)"
proof (induction "by_key key" bs rule: merge_rounds.induct)
  case (1 bs)
  show ?case
  proof (cases "length bs \<le> 1")
    case True
    then have "bs = [] \<or> (\<exists>b. bs = [b])" by (cases bs) auto
    with True "1.prems" show ?thesis
      by (auto simp: merge_rounds.simps [of "by_key key" bs] sort_key_sorted)
  next
    case False
    with 1 merge_pairs_sorted_blocks [OF "1.prems"] show ?thesis
      by (simp add: merge_rounds.simps [of "by_key key" bs])
  qed
qed

lemma sort_key_concat_map: "sort_key key (concat (map (sort_key key) bs)) = sort_key key (concat bs)"
proof (induction bs)
  case Nil
  then show ?case by simp
next
  case (Cons b bs)
  have "sort_key key (sort_key key b @ concat (map (sort_key key) bs))
      = sort_key key (sort_key key b @ sort_key key (concat (map (sort_key key) bs)))"
    by (rule sort_key_eqI) (auto simp: sort_key_stable)
  also have "\<dots> = sort_key key (b @ concat bs)"
    by (simp only: Cons.IH sort_key_append_cong)
  finally show ?case by simp
qed

lemma SliceStable_by_key: "SliceStable (by_key key) xs = sort_key key xs"
proof -
  have "SliceStable (by_key key) xs
      = sort_key key (concat (map (sort_key key) (chunks 20 xs)))"
    using merge_rounds_sorted_blocks [of "map (sort_key key) (chunks 20 xs)" key]
      insertion_sort_eq [of key, abs_def]
    by (simp add: SliceStable_def)
  then show ?thesis by (simp add: sort_key_concat_map concat_chunks)
qed

text \<open>The sort only looks at the comparison on elements of the slice.\<close>

lemma insert_left_cong:
  "(\<And>y. y \<in> set ys \<Longrightarrow> lt x y = lt' x y) \<Longrightarrow> insert_left lt x ys = insert_left lt' x ys"
  by (induction ys) auto

lemma set_insert_left: "set (insert_left lt x ys) = insert x (set ys)"
  by (metis mset_insert_left set_mset_add_mset_insert set_mset_mset)

lemma insertion_sort_cong:
  assumes "\<And>x y. x \<in> set xs \<Longrightarrow> y \<in> set xs \<Longrightarrow> lt x y = lt' x y"
  shows "insertion_sort lt xs = insertion_sort lt' xs"
proof -
  have "fold (insert_left lt) us zs = fold (insert_left lt') us zs"
    if "set us \<subseteq> set xs" "set zs \<subseteq> set xs" for us zs
    using that
  proof (induction us arbitrary: zs)
    case (Cons u us)
    then have "insert_left lt u zs = insert_left lt' u zs"
      using assms by (intro insert_left_cong) auto
    with Cons show ?case by (simp add: set_insert_left)
  qed simp
  then show ?thesis by (simp add: insertion_sort_def)
qed

lemma sym_merge_cong:
  assumes "\<And>x y. x \<in> set ls \<union> set rs \<Longrightarrow> y \<in> set ls \<union> set rs \<Longrightarrow> lt x y = lt' x y"
  shows "sym_merge lt ls rs = sym_merge lt' ls rs"
  using assms
proof (induction lt ls rs rule: sym_merge.induct)
  case (1 lt ls rs)
  note eqs = sym_merge.simps [of lt ls rs] sym_merge.simps [of lt' ls rs]
  consider "ls = [] \<or> rs = []" | x where "rs \<noteq> []" "ls = [x]"
    | y where "ls \<noteq> []" "length ls \<noteq> 1" "rs = [y]"
    | "ls \<noteq> []" "rs \<noteq> []" "length ls \<noteq> 1" "length rs \<noteq> 1"
    by (metis length_0_conv length_Suc_conv One_nat_def)
  then show ?case
  proof cases
    case 1
    then show ?thesis by (auto simp: eqs)
  next
    case 2
    have "bsearch (\<lambda>h. lt (rs ! h) x) 0 (length rs) = bsearch (\<lambda>h. lt' (rs ! h) x) 0 (length rs)"
      by (rule bsearch_cong) (use "1.prems" 2 in simp)
    with 2 show ?thesis
      by (simp add: sym_merge.simps [of lt "[x]" rs] sym_merge.simps [of lt' "[x]" rs] Let_def)
  next
    case 3
    have "bsearch (\<lambda>h. \<not> lt y (ls ! h)) 0 (length ls) = bsearch (\<lambda>h. \<not> lt' y (ls ! h)) 0 (length ls)"
      by (rule bsearch_cong) (use "1.prems" 3 in simp)
    with 3 show ?thesis
      by (simp add: sym_merge.simps [of lt ls "[y]"] sym_merge.simps [of lt' ls "[y]"] Let_def)
  next
    case 4
    have st: "sym_start lt ls rs = sym_start lt' ls rs"
      unfolding sym_start_eq(1) [OF 4(1,2)]
      by (rule bsearch_cong, drule (1) sym_start_eq(3) [OF 4(1,2)]) (use "1.prems" in simp)
    let ?s = "sym_start lt ls rs"
    let ?k = "(length ls + length rs) div 2 - ?s"
    have "sym_merge lt (take ?s ls) (take ?k rs) = sym_merge lt' (take ?s ls) (take ?k rs)"
      "sym_merge lt (drop ?s ls) (drop ?k rs) = sym_merge lt' (drop ?s ls) (drop ?k rs)"
      using 4 by (auto intro!: "1.IH" "1.prems" dest: in_set_takeD in_set_dropD)
    with 4 show ?thesis by (simp add: eqs Let_def st)
  qed
qed

lemma merge_pairs_cong:
  assumes "\<And>x y. x \<in> set (concat bs) \<Longrightarrow> y \<in> set (concat bs) \<Longrightarrow> lt x y = lt' x y"
  shows "merge_pairs lt bs = merge_pairs lt' bs"
  using assms
proof (induction lt bs rule: merge_pairs.induct)
  case (1 lt b1 b2 bs)
  then show ?case by (auto intro!: sym_merge_cong)
qed simp_all

lemma set_concat_merge_pairs: "set (concat (merge_pairs lt bs)) = set (concat bs)"
  by (metis mset_concat_merge_pairs set_mset_mset)

lemma merge_rounds_cong:
  assumes "\<And>x y. x \<in> set (concat bs) \<Longrightarrow> y \<in> set (concat bs) \<Longrightarrow> lt x y = lt' x y"
  shows "merge_rounds lt bs = merge_rounds lt' bs"
  using assms
proof (induction lt bs rule: merge_rounds.induct)
  case (1 lt bs)
  show ?case
  proof (cases "length bs \<le> 1")
    case True
    then show ?thesis by (simp add: merge_rounds.simps [of lt bs] merge_rounds.simps [of lt' bs])
  next
    case False
    have "merge_rounds lt (merge_pairs lt bs) = merge_rounds lt' (merge_pairs lt bs)"
      by (rule "1.IH" [OF False]) (use "1.prems" in \<open>simp only: set_concat_merge_pairs\<close>)
    moreover have "merge_pairs lt bs = merge_pairs lt' bs"
      by (rule merge_pairs_cong) (rule "1.prems")
    ultimately show ?thesis
      using False by (simp add: merge_rounds.simps [of lt bs] merge_rounds.simps [of lt' bs])
  qed
qed

lemma SliceStable_cong:
  assumes "\<And>x y. x \<in> set xs \<Longrightarrow> y \<in> set xs \<Longrightarrow> lt x y = lt' x y"
  shows "SliceStable lt xs = SliceStable lt' xs"
proof -
  let ?bs = "map (insertion_sort lt) (chunks 20 xs)"
  have set: "set (concat (chunks 20 xs)) = set xs" by (simp add: concat_chunks)
  then have "\<And>b. b \<in> set (chunks 20 xs) \<Longrightarrow> set b \<subseteq> set xs" by auto
  then have bs: "?bs = map (insertion_sort lt') (chunks 20 xs)"
    using assms by (intro map_cong refl insertion_sort_cong) blast
  have "set (concat ?bs) = set xs"
    by (metis set mset_concat_map_sorts set_mset_mset)
  then have "merge_rounds lt ?bs = merge_rounds lt' ?bs"
    using assms by (intro merge_rounds_cong) blast
  then show ?thesis unfolding SliceStable_def bs .
qed

end
