(* ===== verification/Batch_Modules.thy ===== *)
theory Batch_Modules
  imports Modules_Ctx Gas Go_Sort
begin

text \<open>
  The batch handlers of \<open>pkg/modules/batch\<close>, \<open>pkg/modules/gasprice\<close> and \<open>pkg/modules/expire\<close>.
  The state a handler can touch is the \<open>world\<close>: the database and queues of the pool and the table
  of the expiry handler. A reading of the clock is a function of the loop counter.
\<close>

record ('d, 's) world = "('d, 's) mempool" +
  seenAt :: "hash \<rightharpoonup> int"

subsection \<open>Loops that run backwards over the batch and mark\<close>

text \<open>
  \<open>for i := len(ctx.Batch) - 1; i >= 0; i-- { ... ctx.MarkOpIndexForRemoval(i) }\<close>: the body
  \<open>test\<close> reads \<open>ctx.Batch[i]\<close>, may change the world, and says whether to mark or returns an error.
\<close>

fun mark_backwards :: "(nat \<Rightarrow> user_op \<Rightarrow> 'w \<Rightarrow> bool res \<times> 'w) \<Rightarrow> nat \<Rightarrow> 'w batch_handler" where
  "mark_backwards test 0 (w, c) = (None, w, c)"
| "mark_backwards test (Suc i) (w, c) =
     (if i < length (Batch c) then
        (case test i (Batch c ! i) w of
           (Inl err, w') \<Rightarrow> (Some err, w', c)
         | (Inr mark, w') \<Rightarrow> mark_backwards test i (w', if mark then MarkOpIndexForRemoval (int i) c else c))
      else (Some (Panicked ''index out of range''), w, c))"

lemma mark_backwards_mark: "mark_backwards test n (w, c) = (e, w', c') \<Longrightarrow> ctx_mark c c'"
proof (induction n arbitrary: w c)
  case (Suc i)
  show ?case
  proof (cases "i < length (Batch c)")
    case True
    obtain r w1 where t: "test i (Batch c ! i) w = (r, w1)" by (cases "test i (Batch c ! i) w")
    show ?thesis
    proof (cases r)
      case (Inr mark)
      let ?c = "if mark then MarkOpIndexForRemoval (int i) c else c"
      have "mark_backwards test i (w1, ?c) = (e, w', c')" using Suc.prems True t Inr by simp
      from Suc.IH [OF this] show ?thesis
        by (cases mark) (auto intro: ctx_mark_trans [OF MarkOpIndexForRemoval_mark])
    qed (use Suc.prems True t in auto)
  qed (use Suc.prems in simp)
qed simp

text \<open>
  When the test decides by a predicate \<open>P\<close> on the operation (\<open>R i\<close> is what it needs of the world
  before the operations below \<open>i\<close> are visited), the loop is a filter.
\<close>

lemma mark_backwards_filter:
  assumes "\<And>i w. i < n \<Longrightarrow> R (Suc i) w \<Longrightarrow> \<exists>w'. test i (Batch c ! i) w = (Inr (P (Batch c ! i)), w') \<and> R i w'"
    and "n \<le> length (Batch c)" "R n w"
  shows "\<exists>w'. R 0 w' \<and> mark_backwards test n (w, c) =
    (None, w', c\<lparr>Batch := filter (\<lambda>op. \<not> P op) (take n (Batch c)) @ drop n (Batch c),
       PendingRemoval := PendingRemoval c @ rev (filter P (take n (Batch c)))\<rparr>)"
  using assms
proof (induction n arbitrary: w c)
  case 0
  then show ?case by (intro exI [of _ w]) simp
next
  case (Suc i)
  let ?op = "Batch c ! i"
  have i: "i < length (Batch c)" using Suc.prems(2) by simp
  from Suc.prems(1) [of i w] Suc.prems(3)
  obtain w1 where t: "test i ?op w = (Inr (P ?op), w1)" "R i w1" by blast
  let ?c = "if P ?op then MarkOpIndexForRemoval (int i) c else c"
  have step: "mark_backwards test (Suc i) (w, c) = mark_backwards test i (w1, ?c)" using i t(1) by simp
  have below: "Batch ?c ! j = Batch c ! j" if "j < i" for j
    using that i by (simp add: MarkOpIndexForRemoval_in [OF i] remove_nth_def nth_append)
  have tk: "take i (Batch ?c) = take i (Batch c)" and len: "i \<le> length (Batch ?c)"
    using i by (auto simp: MarkOpIndexForRemoval_in [OF i] remove_nth_def)
  have hyp: "\<exists>w'. test j (Batch ?c ! j) v = (Inr (P (Batch ?c ! j)), w') \<and> R j w'"
    if "j < i" "R (Suc j) v" for j v
    using Suc.prems(1) [of j v] that below [OF that(1)] by simp
  from Suc.IH [where c = ?c, OF hyp len t(2)] obtain w' where w': "R 0 w'"
    "mark_backwards test i (w1, ?c) = (None, w', ?c\<lparr>Batch := filter (\<lambda>op. \<not> P op) (take i (Batch ?c)) @ drop i (Batch ?c),
       PendingRemoval := PendingRemoval ?c @ rev (filter P (take i (Batch ?c)))\<rparr>)" by blast
  have split: "take (Suc i) (Batch c) = take i (Batch c) @ [?op]"
    "drop i (Batch c) = ?op # drop (Suc i) (Batch c)"
    using i by (simp_all add: take_Suc_conv_app_nth Cons_nth_drop_Suc)
  have "drop i (Batch ?c) = (if P ?op then drop (Suc i) (Batch c) else ?op # drop (Suc i) (Batch c))"
    using i split(2) by (simp add: MarkOpIndexForRemoval_in [OF i] remove_nth_def)
  then have "mark_backwards test (Suc i) (w, c) =
    (None, w', c\<lparr>Batch := filter (\<lambda>op. \<not> P op) (take (Suc i) (Batch c)) @ drop (Suc i) (Batch c),
       PendingRemoval := PendingRemoval c @ rev (filter P (take (Suc i) (Batch c)))\<rparr>)"
    unfolding step w'(2) tk split(1) by (simp add: MarkOpIndexForRemoval_in [OF i])
  with w'(1) show ?case by blast
qed

subsection \<open>batch/sort.go and batch/gaslimit.go\<close>

definition SortByNonce :: "'w batch_handler" where
  "SortByNonce = (\<lambda>(w, c).
     (None, w, c\<lparr>Batch := SliceStable (\<lambda>x y. Sender x = Sender y \<and> Nonce x < Nonce y) (Batch c)\<rparr>))"

text \<open>The gas an operation can use, with the static part of its pre-verification gas only.\<close>

definition batch_gas :: "'y userop_lib_scheme \<Rightarrow> user_op \<Rightarrow> int res" where
  "batch_gas L op =
     bind_res (CalcPreVerificationGas L NewDefaultOverhead op) (\<lambda>static.
       let mgl = GetMaxGasAvailable op - PreVerificationGas op in Inr (mgl + static))"

fun gas_loop :: "'y userop_lib_scheme \<Rightarrow> int \<Rightarrow> int \<Rightarrow> user_op list \<Rightarrow> user_op list \<Rightarrow> user_op list res" where
  "gas_loop L maxBatchGasLimit acc bat [] = Inr bat"
| "gas_loop L maxBatchGasLimit acc bat (op # ops) =
     bind_res (batch_gas L op) (\<lambda>mga.
       let acc' = acc + mga in
       if acc' \<ge> maxBatchGasLimit then Inr bat
       else gas_loop L maxBatchGasLimit acc' (bat @ [op]) ops)"

definition MaintainGasLimit :: "'y userop_lib_scheme \<Rightarrow> int \<Rightarrow> 'w batch_handler" where
  "MaintainGasLimit L maxBatchGasLimit = (\<lambda>(w, c).
     case gas_loop L maxBatchGasLimit 0 [] (Batch c) of
       Inl err \<Rightarrow> (Some err, w, c)
     | Inr bat \<Rightarrow> (None, w, c\<lparr>Batch := bat\<rparr>))"

subsection \<open>gasprice\<close>

definition NoopGetBaseFeeFunc :: "int option res" where
  "NoopGetBaseFeeFunc = Inr None"

definition NoopGetGasTipFunc :: "int option res" where
  "NoopGetGasTipFunc = Inr None"

definition NoopGetLegacyGasPriceFunc :: "int option res" where
  "NoopGetLegacyGasPriceFunc = Inr None"

text \<open>The arguments are the answers of \<open>HeaderByNumber\<close>, \<open>SuggestGasTipCap\<close> and \<open>SuggestGasPrice\<close>.\<close>

definition GetBaseFeeWithEthClient :: "int option res \<Rightarrow> int option res" where
  "GetBaseFeeWithEthClient headBaseFee = (case headBaseFee of Inl err \<Rightarrow> Inl err | Inr bf \<Rightarrow> Inr bf)"

definition GetGasTipWithEthClient :: "int res \<Rightarrow> int option res" where
  "GetGasTipWithEthClient suggestTip = (case suggestTip of Inl err \<Rightarrow> Inl err | Inr gt \<Rightarrow> Inr (Some gt))"

definition GetLegacyGasPriceWithEthClient :: "int res \<Rightarrow> int option res" where
  "GetLegacyGasPriceWithEthClient suggestPrice = (case suggestPrice of Inl err \<Rightarrow> Inl err | Inr gp \<Rightarrow> Inr (Some gp))"

definition SortByGasPrice :: "'w batch_handler" where
  "SortByGasPrice = (\<lambda>(w, c).
     (None, w,
       case BaseFee c of
         Some bf \<Rightarrow> c\<lparr>Batch := SliceStable
             (\<lambda>x y. GetDynamicGasPrice x (Some bf) > GetDynamicGasPrice y (Some bf)) (Batch c)\<rparr>
       | None \<Rightarrow>
           (case GasPrice c of
              Some gp \<Rightarrow> c\<lparr>Batch := SliceStable (\<lambda>x y. MaxFeePerGas x > MaxFeePerGas y) (Batch c)\<rparr>
            | None \<Rightarrow> c)))"

definition keeps_price :: "'y userop_lib_scheme \<Rightarrow> batch_ctx \<Rightarrow> user_op \<Rightarrow> bool" where
  "keeps_price L c op =
     (if HasIntent L op then True
      else if BaseFee c \<noteq> None \<and> BaseFee c \<noteq> Some 0 \<and> Tip c \<noteq> None then
        (let gp = the (BaseFee c) + the (Tip c) in GetDynamicGasPrice op (BaseFee c) \<ge> gp)
      else (case GasPrice c of Some gp \<Rightarrow> MaxFeePerGas op \<ge> gp | None \<Rightarrow> False))"

fun filter_loop :: "(user_op \<Rightarrow> bool) \<Rightarrow> user_op list \<Rightarrow> user_op list \<Rightarrow> user_op list" where
  "filter_loop keep b [] = b"
| "filter_loop keep b (op # ops) = filter_loop keep (if keep op then b @ [op] else b) ops"

definition FilterUnderpriced :: "'y userop_lib_scheme \<Rightarrow> 'w batch_handler" where
  "FilterUnderpriced L = (\<lambda>(w, c). (None, w, c\<lparr>Batch := filter_loop (keeps_price L c) [] (Batch c)\<rparr>))"

subsection \<open>expire\<close>

definition expire_test :: "'y userop_lib_scheme \<Rightarrow> int \<Rightarrow> (nat \<Rightarrow> int) \<Rightarrow> address \<Rightarrow> int \<Rightarrow>
    nat \<Rightarrow> user_op \<Rightarrow> ('d, 's, 'x) world_scheme \<Rightarrow> bool res \<times> ('d, 's, 'x) world_scheme" where
  "expire_test L ttl now entryPoint chainID i op w =
     (let hash = GetUserOpHash L op entryPoint chainID in
      case seenAt w hash of
        None \<Rightarrow> (Inr False, w\<lparr>seenAt := (seenAt w)(hash \<mapsto> now i)\<rparr>)
      | Some t \<Rightarrow> (Inr (t + ttl < now i), w))"

definition DropExpired :: "'y userop_lib_scheme \<Rightarrow> int \<Rightarrow> (nat \<Rightarrow> int) \<Rightarrow> ('d, 's, 'x) world_scheme batch_handler" where
  "DropExpired L ttl now = (\<lambda>(w, c).
     mark_backwards (expire_test L ttl now (EntryPoint c) (ChainID c)) (length (Batch c)) (w, c))"

subsection \<open>The handlers meet the contract\<close>

lemma filter_loop_filter: "filter_loop keep b ops = b @ filter keep ops"
  by (induction ops arbitrary: b) auto

lemma FilterUnderpriced_filter:
  "FilterUnderpriced L (w, c) = (None, w, c\<lparr>Batch := filter (keeps_price L c) (Batch c)\<rparr>)"
  by (simp add: FilterUnderpriced_def filter_loop_filter)

lemma ctx_step_subset:
  assumes "mset ops \<subseteq># mset (Batch c)"
  shows "ctx_step c (c\<lparr>Batch := ops\<rparr>)"
  using image_mset_subseteq_mono [OF assms, of op_id] by (simp add: ctx_step_def batch_ids_def)

lemma ctx_mark_perm:
  assumes "mset ops = mset (Batch c)"
  shows "ctx_mark c (c\<lparr>Batch := ops\<rparr>)"
  using assms by (simp add: ctx_mark_def batch_ids_def)

lemma gas_loop_prefix: "gas_loop L m s bat ops = Inr r \<Longrightarrow> \<exists>k \<le> length ops. r = bat @ take k ops"
proof (induction ops arbitrary: s bat)
  case (Cons op ops)
  from Cons.prems obtain g where g: "batch_gas L op = Inr g"
    "(if s + g \<ge> m then Inr bat else gas_loop L m (s + g) (bat @ [op]) ops) = Inr r"
    by (auto simp: bind_res_eq_Inr Let_def)
  show ?case
  proof (cases "s + g \<ge> m")
    case True
    with g show ?thesis by (intro exI [of _ 0]) simp
  next
    case False
    with g Cons.IH [of "s + g" "bat @ [op]"] obtain k where "k \<le> length ops" "r = (bat @ [op]) @ take k ops" by auto
    then show ?thesis by (intro exI [of _ "Suc k"]) simp
  qed
qed simp

interpretation sort_nonce: marking_module SortByNonce
  by unfold_locales (auto simp: SortByNonce_def intro: ctx_mark_perm)

interpretation sort_price: marking_module SortByGasPrice
  by unfold_locales (auto simp: SortByGasPrice_def intro: ctx_mark_perm split: option.splits)

interpretation expire: marking_module "DropExpired L ttl now" for L ttl now
  by unfold_locales (auto simp: DropExpired_def intro: mark_backwards_mark)

interpretation underpriced: batch_module "FilterUnderpriced L" for L
  by unfold_locales (auto simp: FilterUnderpriced_filter intro!: ctx_step_subset)

interpretation gas_limit: batch_module "MaintainGasLimit L maxBatchGasLimit" for L maxBatchGasLimit
proof
  fix w :: 'w and c e w' c'
  assume "MaintainGasLimit L maxBatchGasLimit (w, c) = (e, w', c')"
  then show "ctx_step c c'"
  proof (cases "gas_loop L maxBatchGasLimit 0 [] (Batch c)")
    case (Inr bat)
    from gas_loop_prefix [OF this] obtain k where "bat = take k (Batch c)" by auto
    moreover have "mset (take k (Batch c)) \<subseteq># mset (Batch c)"
      by (metis append_take_drop_id mset_append mset_subset_eq_add_left)
    ultimately show ?thesis
      using \<open>MaintainGasLimit L maxBatchGasLimit (w, c) = (e, w', c')\<close> Inr
      by (auto simp: MaintainGasLimit_def intro: ctx_step_subset)
  qed (simp add: MaintainGasLimit_def)
qed

subsection \<open>What each handler does\<close>

lemma gas_loop_cut:
  assumes "\<forall>op \<in> set ops. batch_gas L op = Inr (g op)"
  shows "\<exists>k \<le> length ops. gas_loop L m s bat ops = Inr (bat @ take k ops) \<and>
    (\<forall>j. 0 < j \<and> j \<le> k \<longrightarrow> s + sum_list (map g (take j ops)) < m) \<and>
    (k < length ops \<longrightarrow> s + sum_list (map g (take (Suc k) ops)) \<ge> m)"
  using assms
proof (induction ops arbitrary: s bat)
  case (Cons op ops)
  have g: "batch_gas L op = Inr (g op)" using Cons.prems by simp
  show ?case
  proof (cases "s + g op \<ge> m")
    case True
    with g show ?thesis by (intro exI [of _ 0]) simp
  next
    case False
    from Cons.IH [of "s + g op" "bat @ [op]"] Cons.prems obtain k where k: "k \<le> length ops"
      "gas_loop L m (s + g op) (bat @ [op]) ops = Inr ((bat @ [op]) @ take k ops)"
      "\<forall>j. 0 < j \<and> j \<le> k \<longrightarrow> s + g op + sum_list (map g (take j ops)) < m"
      "k < length ops \<longrightarrow> s + g op + sum_list (map g (take (Suc k) ops)) \<ge> m" by auto
    have "s + sum_list (map g (take j (op # ops))) < m" if j: "0 < j" "j \<le> Suc k" for j
    proof (cases "j = 1")
      case False
      then obtain i where "j = Suc i" "0 < i" using j(1) by (cases j) auto
      then show ?thesis using k(3) j(2) by (simp add: add.assoc)
    qed (use \<open>\<not> s + g op \<ge> m\<close> in simp)
    then show ?thesis using g False k(1,2,4) by (intro exI [of _ "Suc k"]) (simp add: add.assoc)
  qed
qed simp

lemma expire_loop:
  fixes w :: "('d, 's, 'x) world_scheme" and ttl T :: int
  assumes "distinct (map (\<lambda>op. GetUserOpHash L op (EntryPoint c) (ChainID c)) (Batch c))"
  defines "h \<equiv> \<lambda>op. GetUserOpHash L op (EntryPoint c) (ChainID c)"
  defines "P \<equiv> \<lambda>op. \<exists>t. seenAt w (h op) = Some t \<and> t + ttl < T"
  shows "\<exists>w'. DropExpired L ttl (\<lambda>i. T) (w, c) =
      (None, w', c\<lparr>Batch := filter (\<lambda>op. \<not> P op) (Batch c), PendingRemoval := PendingRemoval c @ rev (filter P (Batch c))\<rparr>) \<and>
    w' = w\<lparr>seenAt := (\<lambda>k. if k \<in> h ` set (Batch c) \<and> seenAt w k = None then Some T else seenAt w k)\<rparr>"
proof -
  let ?n = "length (Batch c)"
  define seen where "seen = (\<lambda>i k. if k \<in> h ` set (drop i (Batch c)) \<and> seenAt w k = None then Some T else seenAt w k)"
  define R where "R = (\<lambda>i v. v = w\<lparr>seenAt := seen i\<rparr>)"
  have step: "\<exists>w'. expire_test L ttl (\<lambda>i. T) (EntryPoint c) (ChainID c) i (Batch c ! i) v = (Inr (P (Batch c ! i)), w') \<and> R i w'"
    if i: "i < ?n" and v: "R (Suc i) v" for i v
  proof -
    let ?op = "Batch c ! i"
    have drop: "drop i (Batch c) = ?op # drop (Suc i) (Batch c)" using i by (simp add: Cons_nth_drop_Suc)
    have "distinct (map h (drop i (Batch c)))"
      using assms(1) by (simp add: h_def distinct_map inj_on_def) (meson in_set_dropD)
    then have new: "h ?op \<notin> h ` set (drop (Suc i) (Batch c))" unfolding drop by simp
    then have same: "seen (Suc i) (h ?op) = seenAt w (h ?op)" by (simp add: seen_def)
    have upd: "seen i = (if seenAt w (h ?op) = None then (seen (Suc i))(h ?op \<mapsto> T) else seen (Suc i))"
      using new by (intro ext) (auto simp: seen_def drop)
    have hash: "GetUserOpHash L ?op (EntryPoint c) (ChainID c) = h ?op" by (simp add: h_def)
    show ?thesis
      using v same upd
      by (cases "seenAt w (h ?op)") (simp_all add: R_def expire_test_def hash P_def Let_def)
  qed
  have "R ?n w" by (simp add: R_def seen_def)
  from mark_backwards_filter [where R = R and c = c and P = P and n = ?n and w = w
      and test = "expire_test L ttl (\<lambda>i. T) (EntryPoint c) (ChainID c)", OF step order_refl this]
  obtain w' where "R 0 w'" "mark_backwards (expire_test L ttl (\<lambda>i. T) (EntryPoint c) (ChainID c)) ?n (w, c) =
    (None, w', c\<lparr>Batch := filter (\<lambda>op. \<not> P op) (Batch c), PendingRemoval := PendingRemoval c @ rev (filter P (Batch c))\<rparr>)"
    by auto
  then show ?thesis by (simp add: DropExpired_def R_def seen_def)
qed

subsection \<open>Properties\<close>

text \<open>
  C18: \<open>MaintainGasLimit\<close> keeps the longest prefix of the batch whose every non-empty prefix stays
  strictly below the limit, marks nothing for removal, and so leaves the cut operations pooled.
\<close>

theorem MaintainGasLimit_cuts:
  assumes "\<forall>op \<in> set (Batch c). batch_gas L op = Inr (g op)"
  shows "\<exists>k \<le> length (Batch c). MaintainGasLimit L m (w, c) = (None, w, c\<lparr>Batch := take k (Batch c)\<rparr>) \<and>
    (\<forall>j. 0 < j \<and> j \<le> k \<longrightarrow> sum_list (map g (take j (Batch c))) < m) \<and>
    (k < length (Batch c) \<longrightarrow> m \<le> sum_list (map g (take (Suc k) (Batch c))))"
  using gas_loop_cut [OF assms, of m 0 "[]"] by (auto simp: MaintainGasLimit_def)

definition sample_ctx :: "user_op list \<Rightarrow> batch_ctx" where
  "sample_ctx ops = NewBatchHandlerContext ops 9 1 (Some 10) (Some 1) None"

lemma sample_gas:
  "batch_gas userop_ref (sample_op 5 3) = Inr 153931"
  using sample_pvg [of 3] by (simp add: batch_gas_def GetMaxGasAvailable_def GetPaymaster_def sample_op_def)

theorem MaintainGasLimit_cuts_witness:
  "MaintainGasLimit userop_ref 200000 ((), sample_ctx [sample_op 5 3, sample_op 5 3])
    = (None, (), sample_ctx [sample_op 5 3])"
proof -
  let ?c = "sample_ctx [sample_op 5 3, sample_op 5 3]"
  have "\<forall>op \<in> set (Batch ?c). batch_gas userop_ref op = Inr 153931"
    by (simp add: sample_ctx_def NewBatchHandlerContext_def sample_gas)
  from MaintainGasLimit_cuts [OF this, of 200000 "()"] obtain k where k: "k \<le> length (Batch ?c)"
    "MaintainGasLimit userop_ref 200000 ((), ?c) = (None, (), ?c\<lparr>Batch := take k (Batch ?c)\<rparr>)"
    "\<forall>j. 0 < j \<and> j \<le> k \<longrightarrow> sum_list (map (\<lambda>_. 153931) (take j (Batch ?c))) < (200000 :: int)"
    "k < length (Batch ?c) \<longrightarrow> (200000 :: int) \<le> sum_list (map (\<lambda>_. 153931) (take (Suc k) (Batch ?c)))"
    by blast
  have batch: "Batch ?c = [sample_op 5 3, sample_op 5 3]" by (simp add: sample_ctx_def NewBatchHandlerContext_def)
  have "k \<noteq> 0" using k(4) unfolding batch by (cases k) auto
  moreover have "k \<noteq> 2" using spec [OF k(3), of 2] unfolding batch by auto
  ultimately have "k = 1" using k(1) unfolding batch by simp
  then show ?thesis using k(2) by (simp add: sample_ctx_def NewBatchHandlerContext_def)
qed

text \<open>
  C19: \<open>SortByGasPrice\<close> orders the batch by decreasing price (the dynamic price when there is a base
  fee, the fee cap when there is a legacy gas price), keeps the order of operations of equal price,
  and loses none; without either price it changes nothing.
\<close>

theorem SortByGasPrice_sorts:
  "SortByGasPrice (w, c) = (None, w, c\<lparr>Batch :=
     (case BaseFee c of
        Some bf \<Rightarrow> sort_key (\<lambda>op. - min (MaxFeePerGas op) (bf + MaxPriorityFeePerGas op)) (Batch c)
      | None \<Rightarrow> (if GasPrice c = None then Batch c else sort_key (\<lambda>op. - MaxFeePerGas op) (Batch c)))\<rparr>)"
proof -
  have "(\<lambda>x y. f x > f y) = by_key (\<lambda>op. - f op)" for f :: "user_op \<Rightarrow> int" by simp
  then have sort: "SliceStable (\<lambda>x y. f x > f y) ops = sort_key (\<lambda>op. - f op) ops" for f :: "user_op \<Rightarrow> int" and ops
    by (metis SliceStable_by_key)
  show ?thesis
    unfolding SortByGasPrice_def prod.case sort
    by (cases "BaseFee c"; cases "GasPrice c") (simp_all add: GetDynamicGasPrice_min)
qed

text \<open>
  C20: a batch of one sender is left by \<open>SortByNonce\<close> in ascending order of nonce, equal nonces in
  their old order, whatever its size.
\<close>

theorem SortByNonce_one_sender:
  assumes "\<forall>op \<in> set (Batch c). Sender op = a"
  shows "SortByNonce (w, c) = (None, w, c\<lparr>Batch := sort_key Nonce (Batch c)\<rparr>)"
proof -
  have "SliceStable (\<lambda>x y. Sender x = Sender y \<and> Nonce x < Nonce y) (Batch c) = SliceStable (by_key Nonce) (Batch c)"
    by (rule SliceStable_cong) (use assms in simp)
  then show ?thesis by (simp add: SortByNonce_def SliceStable_by_key)
qed

theorem SortByNonce_one_sender_witness:
  "SortByNonce ((), sample_ctx [sample_op 5 7, sample_op 5 3]) = (None, (), sample_ctx [sample_op 5 3, sample_op 5 7])"
  by (subst SortByNonce_one_sender [of _ 5]) (simp_all add: sample_ctx_def NewBatchHandlerContext_def)


text \<open>
  \<open>FilterUnderpriced\<close> keeps, in their order, the intents and the operations that pay the price:
  with a non-zero base fee and a tip those whose dynamic price reaches base fee plus tip, otherwise
  those whose fee cap reaches the legacy price. The others are not marked for removal.
\<close>

lemma FilterUnderpriced_keeps:
  "FilterUnderpriced L (w, c) = (None, w, c\<lparr>Batch := filter (\<lambda>op. HasIntent L op \<or>
     (case (BaseFee c, Tip c) of
        (Some bf, Some tip) \<Rightarrow>
          (if bf \<noteq> 0 then bf + tip \<le> MaxFeePerGas op \<and> tip \<le> MaxPriorityFeePerGas op
           else GasPrice c \<noteq> None \<and> the (GasPrice c) \<le> MaxFeePerGas op)
      | _ \<Rightarrow> GasPrice c \<noteq> None \<and> the (GasPrice c) \<le> MaxFeePerGas op)) (Batch c)\<rparr>)"
proof -
  have "keeps_price L c op \<longleftrightarrow> HasIntent L op \<or>
     (case (BaseFee c, Tip c) of
        (Some bf, Some tip) \<Rightarrow>
          (if bf \<noteq> 0 then bf + tip \<le> MaxFeePerGas op \<and> tip \<le> MaxPriorityFeePerGas op
           else GasPrice c \<noteq> None \<and> the (GasPrice c) \<le> MaxFeePerGas op)
      | _ \<Rightarrow> GasPrice c \<noteq> None \<and> the (GasPrice c) \<le> MaxFeePerGas op)" for op
    by (auto simp: keeps_price_def GetDynamicGasPrice_min Let_def split: option.splits)
  from ext [OF this] show ?thesis unfolding FilterUnderpriced_filter by (rule arg_cong)
qed

text \<open>
  C22: with distinct operation hashes, \<open>DropExpired\<close> marks for removal exactly the operations first
  seen more than the time to live ago, keeps the others in order, and records the current time for
  each operation it has not seen; it never forgets a hash, so an operation that comes back with the
  same hash is still counted from its first appearance.
\<close>

theorem DropExpired_drops:
  fixes w :: "('d, 's, 'x) world_scheme"
  assumes "distinct (map (\<lambda>op. GetUserOpHash L op (EntryPoint c) (ChainID c)) (Batch c))"
  shows "DropExpired L ttl (\<lambda>i. T) (w, c) =
    (let h = (\<lambda>op. GetUserOpHash L op (EntryPoint c) (ChainID c));
         expired = (\<lambda>op. case seenAt w (h op) of None \<Rightarrow> False | Some t \<Rightarrow> t + ttl < T)
     in (None,
         w\<lparr>seenAt := (\<lambda>k. if k \<in> h ` set (Batch c) \<and> seenAt w k = None then Some T else seenAt w k)\<rparr>,
         c\<lparr>Batch := filter (\<lambda>op. \<not> expired op) (Batch c),
           PendingRemoval := PendingRemoval c @ rev (filter expired (Batch c))\<rparr>))"
proof -
  have "(\<exists>t. x = Some t \<and> t + ttl < T) = (case x of None \<Rightarrow> False | Some t \<Rightarrow> t + ttl < T)" for x
    by (cases x) auto
  then show ?thesis using expire_loop [OF assms, where w = w and ttl = ttl and T = T] by (simp add: Let_def)
qed

theorem DropExpired_drops_witness:
  "fst (DropExpired userop_ref 10 (\<lambda>i. 100)
     (\<lparr>mp_db = [], mp_queue = Map.empty, mp_content = (\<lambda>ep x. x), seenAt = Map.empty\<rparr> :: ((string \<times> db_value) list, user_op node list) world,
      sample_ctx [sample_op 5 3])) = None"
  by (subst DropExpired_drops) (simp_all add: sample_ctx_def NewBatchHandlerContext_def Let_def)

end
