(* ===== verification/AltMempools.thy ===== *)
theory AltMempools
  imports Prelude Ext
begin

text \<open>
  \<open>pkg/altmempools\<close>: the directory of alternative mempools that allow exceptions to the storage
  rules. Fetching a configuration and validating it against the JSON schema are parameters. A type
  assertion on a missing or ill-typed key panics.
\<close>

type_synonym directory = "string \<rightharpoonup> string list"

record alt_config =
  alt_Id :: string
  alt_Data :: obj

definition invalidStorageAccessID :: "string \<Rightarrow> string \<Rightarrow> string \<Rightarrow> string" where
  "invalidStorageAccessID entity contract slot = entity @ contract @ slot"

definition key_string :: "obj \<Rightarrow> string \<Rightarrow> string res" where
  "key_string data key = (case data key of Some (JStr s) \<Rightarrow> Inr s | _ \<Rightarrow> Inl (Panicked ''interface conversion''))"

definition key_list :: "obj \<Rightarrow> string \<Rightarrow> json list res" where
  "key_list data key = (case data key of Some (JArr xs) \<Rightarrow> Inr xs | _ \<Rightarrow> Inl (Panicked ''interface conversion''))"

fun chain_skip :: "(string \<Rightarrow> int res) \<Rightarrow> int \<Rightarrow> json list \<Rightarrow> bool \<Rightarrow> bool res" where
  "chain_skip DecodeBig chain [] skip = Inr skip"
| "chain_skip DecodeBig chain (item # items) skip =
     (case item of
        JStr s \<Rightarrow> bind_res (DecodeBig s) (\<lambda>allowed.
                    chain_skip DecodeBig chain items (if chain = allowed then False else skip))
      | _ \<Rightarrow> Inl (Panicked ''interface conversion''))"

fun allow_rules :: "string \<Rightarrow> json list \<Rightarrow> directory \<Rightarrow> directory res" where
  "allow_rules i [] dir = Inr dir"
| "allow_rules i (item # items) dir =
     (case item of
        JObj kvs \<Rightarrow>
          (let config = map_of (rev kvs) in
           bind_res (key_string config ''rule'') (\<lambda>rule.
             if rule = ''invalidStorageAccess'' then
               bind_res (key_string config ''entity'') (\<lambda>entity.
               bind_res (key_string config ''contract'') (\<lambda>contract.
               bind_res (key_string config ''slot'') (\<lambda>slot.
                 let isaId = invalidStorageAccessID entity contract slot;
                     ids = (case dir isaId of None \<Rightarrow> [] | Some l \<Rightarrow> l)
                 in allow_rules i items (dir(isaId \<mapsto> ids @ [i])))))
             else allow_rules i items dir))
      | _ \<Rightarrow> Inl (Panicked ''interface conversion''))"

fun directory_loop :: "(obj \<Rightarrow> go_error option) \<Rightarrow> (string \<Rightarrow> int res) \<Rightarrow> int \<Rightarrow> alt_config list \<Rightarrow> directory \<Rightarrow> directory res" where
  "directory_loop Validate DecodeBig chain [] dir = Inr dir"
| "directory_loop Validate DecodeBig chain (alt # alts) dir =
     (case Validate (alt_Data alt) of
        Some err \<Rightarrow> Inl err
      | None \<Rightarrow>
          bind_res (key_list (alt_Data alt) ''chainIds'') (\<lambda>chainIds.
          bind_res (chain_skip DecodeBig chain chainIds True) (\<lambda>skip.
            if skip then directory_loop Validate DecodeBig chain alts dir
            else
              bind_res (key_list (alt_Data alt) ''allowlist'') (\<lambda>allowlist.
              bind_res (allow_rules (alt_Id alt) allowlist dir) (\<lambda>dir'.
                directory_loop Validate DecodeBig chain alts dir')))))"

definition New_directory :: "(obj \<Rightarrow> go_error option) \<Rightarrow> (string \<Rightarrow> int res) \<Rightarrow> int \<Rightarrow> alt_config list \<Rightarrow> directory res" where
  "New_directory Validate DecodeBig chain altMempools =
     directory_loop Validate DecodeBig chain altMempools Map.empty"

definition NewFromIPFS :: "(obj \<Rightarrow> go_error option) \<Rightarrow> (string \<Rightarrow> int res) \<Rightarrow> (string \<Rightarrow> obj res) \<Rightarrow>
    int \<Rightarrow> string \<Rightarrow> string list \<Rightarrow> directory res" where
  "NewFromIPFS Validate DecodeBig fetch chain ipfsGateway ids =
     bind_res (map_res (\<lambda>i. bind_res (fetch (ipfsGateway @ ''/'' @ i)) (\<lambda>data. Inr \<lparr>alt_Id = i, alt_Data = data\<rparr>)) ids)
       (\<lambda>alts. New_directory Validate DecodeBig chain alts)"

definition HasInvalidStorageAccessException :: "directory \<Rightarrow> string \<Rightarrow> string \<Rightarrow> string \<Rightarrow> string list" where
  "HasInvalidStorageAccessException d entity contract slot =
     (case d (invalidStorageAccessID entity contract slot) of None \<Rightarrow> [] | Some ids \<Rightarrow> ids)"

subsection \<open>Lemmas\<close>

text \<open>The identifiers found for a key come from configurations of the chain.\<close>

lemma allow_rules_ids:
  "allow_rules i items dir = Inr dir' \<Longrightarrow> dir' k = Some ids \<Longrightarrow>
    \<exists>old. (dir k = Some old \<or> old = [] \<and> dir k = None) \<and> (\<exists>n. ids = old @ replicate n i)"
proof (induction items arbitrary: dir)
  case (Cons item items)
  then obtain kvs where kvs: "item = JObj kvs" by (cases item) auto
  let ?config = "map_of (rev kvs)"
  from Cons.prems(1) kvs obtain rule where rule: "key_string ?config ''rule'' = Inr rule"
    by (auto simp: bind_res_eq_Inr Let_def)
  show ?case
  proof (cases "rule = ''invalidStorageAccess''")
    case True
    from Cons.prems(1) kvs rule True obtain isaId where
      step: "allow_rules i items (dir(isaId \<mapsto> (case dir isaId of None \<Rightarrow> [] | Some l \<Rightarrow> l) @ [i])) = Inr dir'"
      by (auto simp: bind_res_eq_Inr Let_def)
    from Cons.IH [OF step Cons.prems(2)] show ?thesis
    proof (elim exE conjE)
      fix old n
      assume old: "((dir(isaId \<mapsto> (case dir isaId of None \<Rightarrow> [] | Some l \<Rightarrow> l) @ [i])) k = Some old \<or>
          old = [] \<and> (dir(isaId \<mapsto> (case dir isaId of None \<Rightarrow> [] | Some l \<Rightarrow> l) @ [i])) k = None)"
        and ids: "ids = old @ replicate n i"
      show ?thesis
      proof (cases "k = isaId")
        case True
        with old ids show ?thesis
          by (cases "dir isaId") (auto intro!: exI [of _ "Suc n"])
      qed (use old ids in auto)
    qed
  next
    case False
    with Cons kvs rule show ?thesis by (auto simp: Let_def)
  qed
qed (auto intro: exI [of _ 0])

end
