(* ===== verification/State_Override.thy ===== *)
theory State_Override
  imports Prelude Ext
begin

text \<open>
  \<open>pkg/state\<close>: state overrides for \<open>eth_call\<close> and \<open>debug_traceCall\<close>. The account decoder
  (\<open>encoding/json\<close> with the hexadecimal types of \<open>go-ethereum\<close>) is a parameter. The iteration order
  of the Go map is the order of the entry list.
\<close>

record override_account =
  ov_Nonce :: "int option"
  ov_Code :: "bytes option"
  ov_Balance :: "int option"
  ov_State :: "(hash \<rightharpoonup> hash) option"
  ov_StateDiff :: "(hash \<rightharpoonup> hash) option"

type_synonym override_set = "address \<rightharpoonup> override_account"

definition maxUint96 :: int where "maxUint96 = 79228162514264337593543950335"

definition ErrBadKey :: string where "ErrBadKey = ''cannot decode key to address''"
definition ErrBadValue :: string where "ErrBadValue = ''cannot decode override account''"

fun override_loop :: "'y eth_lib_scheme \<Rightarrow> (string \<Rightarrow> bool) \<Rightarrow> (json \<Rightarrow> override_account res) \<Rightarrow>
    (string \<times> json) list \<Rightarrow> override_set \<Rightarrow> override_set res" where
  "override_loop L IsHexAddress decode [] os = Inr os"
| "override_loop L IsHexAddress decode ((key, val) # data) os =
     (if \<not> IsHexAddress key then Inl (GoError (ErrBadKey @ '': '' @ key))
      else (case decode val of
              Inl err \<Rightarrow> Inl (GoError (ErrBadValue @ '' '' @ key @ '': '' @ Error err))
            | Inr oa \<Rightarrow> override_loop L IsHexAddress decode data (os(HexToAddress L key \<mapsto> oa))))"

definition ParseOverrideData :: "'y eth_lib_scheme \<Rightarrow> (string \<Rightarrow> bool) \<Rightarrow> (json \<Rightarrow> override_account res) \<Rightarrow>
    (string \<times> json) list \<Rightarrow> override_set res" where
  "ParseOverrideData L IsHexAddress decode data = override_loop L IsHexAddress decode data Map.empty"

text \<open>A nil set is \<open>None\<close>. The source adds the entry to the given map; here the set is returned.\<close>

definition WithMaxBalanceOverride :: "address \<Rightarrow> override_set option \<Rightarrow> override_set" where
  "WithMaxBalanceOverride acc os =
     (let os' = (case os of None \<Rightarrow> Map.empty | Some s \<Rightarrow> s) in
      if acc \<in> dom os' then os'
      else os'(acc \<mapsto> \<lparr>ov_Nonce = None, ov_Code = None, ov_Balance = Some maxUint96,
                       ov_State = None, ov_StateDiff = None\<rparr>))"

lemma WithMaxBalanceOverride_other:
  "a \<noteq> acc \<Longrightarrow> WithMaxBalanceOverride acc os a = (case os of None \<Rightarrow> None | Some s \<Rightarrow> s a)"
  by (auto simp: WithMaxBalanceOverride_def Let_def split: option.splits)

lemma WithMaxBalanceOverride_acc:
  "WithMaxBalanceOverride acc os acc =
    (case os of Some s \<Rightarrow> (case s acc of Some oa \<Rightarrow> Some oa
       | None \<Rightarrow> Some \<lparr>ov_Nonce = None, ov_Code = None, ov_Balance = Some (2 ^ 96 - 1), ov_State = None, ov_StateDiff = None\<rparr>)
     | None \<Rightarrow> Some \<lparr>ov_Nonce = None, ov_Code = None, ov_Balance = Some (2 ^ 96 - 1), ov_State = None, ov_StateDiff = None\<rparr>)"
  by (auto simp: WithMaxBalanceOverride_def Let_def maxUint96_def split: option.splits)

end
