(* ===== verification/Simulation.thy ===== *)
theory Simulation
  imports AltMempools State_Override Transaction Modules_Ctx
begin

text \<open>
  \<open>pkg/entrypoint/simulation\<close> (with the types of \<open>pkg/tracer\<close>, the stack of \<open>internal/utils\<close> and
  the output decoder of \<open>pkg/entrypoint/methods\<close>): the checks of ERC-4337 on the trace of an
  operation's validation.

  What the node answers is an argument. Go iterates over maps in any order: a map is a list of
  entries, in the order of the iteration, and \<open>titles\<close> is the order over the three entities.
\<close>

subsection \<open>Trace types\<close>

type_synonym counts = "(string \<times> rat) list"

record access_info =
  Reads :: counts
  Writes :: counts

type_synonym access_map = "(address \<times> access_info) list"

record number_level =
  Opcodes :: counts
  Access :: access_map
  ContractSize :: counts

record call_info =
  ci_Type :: string
  ci_To :: address
  ci_Method :: string
  ci_Data :: json

record collector_return =
  NumberLevels :: "number_level list"
  Keccak :: "string list"
  Calls :: "call_info list"

subsection \<open>The call stack\<close>

text \<open>\<open>Stack\<close>: the last element of the slice is the top; \<open>Pop\<close> on an empty stack gives a zero value.\<close>

type_synonym 'a stack = "'a list"

definition NewStack :: "'a stack" where "NewStack = []"

definition Push :: "'a \<Rightarrow> 'a stack \<Rightarrow> 'a stack" where
  "Push key stack = stack @ [key]"

definition Top :: "'a \<Rightarrow> 'a stack \<Rightarrow> 'a \<times> bool" where
  "Top zero stack = (if stack \<noteq> [] then (last stack, True) else (zero, False))"

definition Pop :: "'a \<Rightarrow> 'a stack \<Rightarrow> ('a \<times> bool) \<times> 'a stack" where
  "Pop zero stack = (if stack \<noteq> [] then ((last stack, True), butlast stack) else ((zero, False), stack))"

definition IsEmpty :: "'a stack \<Rightarrow> bool" where
  "IsEmpty stack \<longleftrightarrow> stack = []"

record call_entry =
  ce_To :: address
  ce_Type :: string
  ce_Method :: string
  ce_Return :: json

definition zero_call :: call_info where
  "zero_call = \<lparr>ci_Type = '''', ci_To = 0, ci_Method = '''', ci_Data = JNull\<rparr>"

definition revertOpCode :: string where "revertOpCode = ''REVERT''"
definition returnOpCode :: string where "returnOpCode = ''RETURN''"
definition create2OpCode :: string where "create2OpCode = ''CREATE2''"

fun call_loop :: "call_info list \<Rightarrow> call_info stack \<Rightarrow> call_entry list \<Rightarrow> call_entry list" where
  "call_loop [] stack out = out"
| "call_loop (call # calls) stack out =
     (if ci_Type call = revertOpCode \<or> ci_Type call = returnOpCode then
        (let ((top, _), stack') = Pop zero_call stack in
         if Contains (ci_Type top) ''CREATE'' then call_loop calls stack' out
         else if ci_Type call = revertOpCode then call_loop calls stack' out
         else call_loop calls stack' (out @ [\<lparr>ce_To = ci_To top, ce_Type = ci_Type top,
                ce_Method = ci_Method top, ce_Return = ci_Data call\<rparr>]))
      else call_loop calls (Push call stack) out)"

definition newCallStack :: "call_info list \<Rightarrow> call_entry list" where
  "newCallStack calls = call_loop calls NewStack []"

subsection \<open>Known entities\<close>

type_synonym entity_stakes = "(address \<times> deposit_info option) list"

record known_info =
  ke_Address :: address
  ke_Info :: number_level
  ke_IsStaked :: bool

type_synonym known_entity = "string \<rightharpoonup> known_info"

definition factoryNumberLevel :: nat where "factoryNumberLevel = 0"
definition accountNumberLevel :: nat where "accountNumberLevel = 1"
definition paymasterNumberLevel :: nat where "paymasterNumberLevel = 2"

definition is_staked :: "entity_stakes \<Rightarrow> address \<Rightarrow> bool" where
  "is_staked stakes a = (case map_of stakes a of Some (Some dep) \<Rightarrow> Staked dep | _ \<Rightarrow> False)"

definition newKnownEntity :: "user_op \<Rightarrow> collector_return \<Rightarrow> entity_stakes \<Rightarrow> known_entity res" where
  "newKnownEntity op r stakes =
     (if length (NumberLevels r) \<noteq> 3 then
        Inl (GoError (''unexpected NumberLevels length in tracing result: '' @ Itoa (int (length (NumberLevels r)))))
      else Inr [
        ''factory'' \<mapsto> \<lparr>ke_Address = GetFactory op, ke_Info = NumberLevels r ! factoryNumberLevel,
                         ke_IsStaked = is_staked stakes (GetFactory op)\<rparr>,
        ''account'' \<mapsto> \<lparr>ke_Address = Sender op, ke_Info = NumberLevels r ! accountNumberLevel,
                         ke_IsStaked = is_staked stakes (Sender op)\<rparr>,
        ''paymaster'' \<mapsto> \<lparr>ke_Address = GetPaymaster op, ke_Info = NumberLevels r ! paymasterNumberLevel,
                           ke_IsStaked = is_staked stakes (GetPaymaster op)\<rparr>])"

definition addr2KnownEntity :: "'y userop_lib_scheme \<Rightarrow> user_op \<Rightarrow> address \<Rightarrow> string" where
  "addr2KnownEntity L op addr =
     (if addr = GetFactory op then ''factory''
      else if addr = Sender op then ''account''
      else if addr = GetPaymaster op then ''paymaster''
      else AddressString L addr)"

definition bannedOpCodes :: "string list" where
  "bannedOpCodes = [''GASPRICE'', ''GASLIMIT'', ''DIFFICULTY'', ''TIMESTAMP'', ''BASEFEE'', ''BLOCKHASH'',
     ''NUMBER'', ''SELFBALANCE'', ''BALANCE'', ''ORIGIN'', ''GAS'', ''CREATE'', ''COINBASE'', ''SELFDESTRUCT'']"

subsection \<open>Storage slots\<close>

type_synonym storage_slots = "string list"

text \<open>\<open>k[2:]\<close> panics when the text is shorter than two bytes.\<close>

fun slots_of_stakes :: "'y userop_lib_scheme \<Rightarrow> string \<Rightarrow> string \<Rightarrow> address list \<Rightarrow>
    (address \<rightharpoonup> storage_slots) \<Rightarrow> (address \<rightharpoonup> storage_slots)" where
  "slots_of_stakes L k val [] m = m"
| "slots_of_stakes L k val (addr # addrs) m =
     (if addr = 0 then slots_of_stakes L k val addrs m
      else
        let cur = (case m addr of None \<Rightarrow> [] | Some s \<Rightarrow> s);
            addrPadded = hexutil_Encode L (LeftPadBytes (address_bytes addr) 32);
            new = (if HasPrefix k addrPadded \<and> val \<notin> set cur then cur @ [val] else cur)
        in slots_of_stakes L k val addrs (m(addr \<mapsto> new)))"

fun slots_loop :: "'y userop_lib_scheme \<Rightarrow> entity_stakes \<Rightarrow> string list \<Rightarrow>
    (address \<rightharpoonup> storage_slots) \<Rightarrow> (address \<rightharpoonup> storage_slots) res" where
  "slots_loop L stakes [] m = Inr m"
| "slots_loop L stakes (k # ks) m =
     (if length k < 2 then Inl (Panicked ''slice bounds out of range'')
      else let val = hex_Encode (Keccak256 L (Hex2Bytes (drop 2 k)))
           in slots_loop L stakes ks (slots_of_stakes L k val (map fst stakes) m))"

definition newStorageSlotsByEntity :: "'y userop_lib_scheme \<Rightarrow> entity_stakes \<Rightarrow> string list \<Rightarrow>
    (address \<rightharpoonup> storage_slots) res" where
  "newStorageSlotsByEntity L stakes keccak = slots_loop L stakes keccak Map.empty"

text \<open>
  A slot is associated with a known one when it is at most 128 above it. A text that is not a
  number gives a nil integer, whose comparison panics.
\<close>

fun associated_loop :: "int option \<Rightarrow> storage_slots \<Rightarrow> bool res" where
  "associated_loop slotN [] = Inr False"
| "associated_loop slotN (k # ks) =
     (case (slotN, SetString (''0x'' @ k)) of
        (Some n, Some kn) \<Rightarrow> if n \<ge> kn \<and> n \<le> kn + 128 then Inr True else associated_loop slotN ks
      | _ \<Rightarrow> Inl (Panicked ''nil pointer dereference''))"

definition isAssociatedWith :: "storage_slots \<Rightarrow> string \<Rightarrow> bool res" where
  "isAssociatedWith slots slot = associated_loop (SetString (''0x'' @ slot)) slots"

record slots_validator =
  v_Op :: user_op
  v_EntryPoint :: address
  v_AltMempools :: directory
  v_SenderSlots :: "storage_slots option"
  v_FactoryIsStaked :: bool
  v_EntityName :: string
  v_EntityAddr :: address
  v_EntityAccess :: access_map
  v_EntitySlots :: "storage_slots option"
  v_EntityIsStaked :: bool

text \<open>The body of the loop over the slots; the state is \<open>mustStakeSlot\<close> and the identifiers found.\<close>

definition slot_step :: "'y userop_lib_scheme \<Rightarrow> slots_validator \<Rightarrow> address \<Rightarrow> string \<Rightarrow> string \<Rightarrow>
    string \<times> string list \<Rightarrow> (string \<times> string list) res" where
  "slot_step L v addr key slot st =
     (let (must, ids) = st;
          senderSlots = (case v_SenderSlots v of None \<Rightarrow> [] | Some s \<Rightarrow> s);
          entitySlots = (case v_EntitySlots v of None \<Rightarrow> [] | Some s \<Rightarrow> s) in
      bind_res (isAssociatedWith senderSlots slot) (\<lambda>inSender.
        if inSender then
          (if InitCode (v_Op v) \<noteq> [] \<and> \<not> v_FactoryIsStaked v \<or>
              InitCode (v_Op v) \<noteq> [] \<and> v_FactoryIsStaked v \<and> v_EntityAddr v \<noteq> Sender (v_Op v)
           then Inr (slot, ids) else Inr (must, ids))
        else
          bind_res (isAssociatedWith entitySlots slot) (\<lambda>inEntity.
            if inEntity \<or> addr = v_EntityAddr v then Inr (slot, ids)
            else
              let found = HasInvalidStorageAccessException (v_AltMempools v) (v_EntityName v)
                            (addr2KnownEntity L (v_Op v) addr) (''0x'' @ slot) in
              if found \<noteq> [] then Inr (must, ids @ found)
              else Inl (GoError (v_EntityName v @ '' has forbidden '' @ key @ '' to '' @
                     addr2KnownEntity L (v_Op v) addr @ '' slot '' @ slot)))))"

fun slots_fold :: "'y userop_lib_scheme \<Rightarrow> slots_validator \<Rightarrow> address \<Rightarrow> (string \<times> string) list \<Rightarrow>
    string \<times> string list \<Rightarrow> (string \<times> string list) res" where
  "slots_fold L v addr [] st = Inr st"
| "slots_fold L v addr ((key, slot) # rest) st =
     bind_res (slot_step L v addr key slot st) (slots_fold L v addr rest)"

definition access_slots :: "access_info \<Rightarrow> (string \<times> string) list" where
  "access_slots access = map (\<lambda>s. (''read'', fst s)) (Reads access) @ map (\<lambda>s. (''write'', fst s)) (Writes access)"

fun access_loop :: "'y userop_lib_scheme \<Rightarrow> slots_validator \<Rightarrow> access_map \<Rightarrow> string list \<Rightarrow> string list res" where
  "access_loop L v [] ids = Inr ids"
| "access_loop L v ((addr, access) # rest) ids =
     (if addr = Sender (v_Op v) \<or> addr = v_EntryPoint v then access_loop L v rest ids
      else
        bind_res (slots_fold L v addr (access_slots access) ('''', ids)) (\<lambda>(must, ids').
          if must \<noteq> '''' \<and> \<not> v_EntityIsStaked v then
            Inl (GoError (''unstaked '' @ v_EntityName v @ '' accessed '' @
              addr2KnownEntity L (v_Op v) addr @ '' slot '' @ must))
          else access_loop L v rest ids'))"

definition validator_Process :: "'y userop_lib_scheme \<Rightarrow> slots_validator \<Rightarrow> string list res" where
  "validator_Process L v = access_loop L v (v_EntityAccess v) []"

subsection \<open>The trace of a validation\<close>

record trace_lib = rev_lib +
  ValidatePaymasterUserOpSelector :: string
  ValidatePaymasterUserOp_Unpack :: "bytes \<Rightarrow> abi_value list res"

definition DecodeValidatePaymasterUserOpOutput :: "'y trace_lib_scheme \<Rightarrow> json \<Rightarrow> bytes res" where
  "DecodeValidatePaymasterUserOpOutput L ret =
     (case ret of
        JStr hex \<Rightarrow>
          bind_res (prefix_error ''validatePaymasterUserOp: '' (hexutil_Decode L hex)) (\<lambda>data.
          bind_res (prefix_error ''validatePaymasterUserOp: '' (ValidatePaymasterUserOp_Unpack L data)) (\<lambda>args.
            if length args \<noteq> 2 then
              Inl (GoError (''validatePaymasterUserOp: invalid args length: expected 2, got '' @ Itoa (int (length args))))
            else (case args ! 0 of
                    ABytes ctx \<Rightarrow> Inr ctx
                  | _ \<Rightarrow> Inl (GoError ''validatePaymasterUserOp: cannot assert type: hex is not of type string''))))
      | _ \<Rightarrow> Inl (GoError ''validatePaymasterUserOp: cannot assert type: hex is not of type string''))"

record trace_output =
  TouchedContracts :: "address list"
  AltMempoolIds :: "string list"

fun opcode_loop :: "'y userop_lib_scheme \<Rightarrow> (string \<times> known_info) list \<Rightarrow> address list \<Rightarrow> address list res" where
  "opcode_loop L [] ic = Inr ic"
| "opcode_loop L ((title, entity) # rest) ic =
     (case find (\<lambda>oc. fst oc \<in> set bannedOpCodes) (Opcodes (ke_Info entity)) of
        Some opcode \<Rightarrow> Inl (GoError (title @ '' uses banned opcode: '' @ fst opcode))
      | None \<Rightarrow>
          opcode_loop L rest
            (fold (\<lambda>cs ic. if HexToAddress L (fst cs) \<in> set ic then ic else ic @ [HexToAddress L (fst cs)])
               (ContractSize (ke_Info entity)) ic))"

definition create2_check :: "user_op \<Rightarrow> known_info \<Rightarrow> known_info \<Rightarrow> known_info \<Rightarrow> unit res" where
  "create2_check op factory account paymaster =
     (case map_of (Opcodes (ke_Info factory)) create2OpCode of
        Some n \<Rightarrow>
          if n > 1 \<or> InitCode op = [] then Inl (GoError (''factory with too many '' @ create2OpCode))
          else if map_of (Opcodes (ke_Info account)) create2OpCode \<noteq> None then
            Inl (GoError (''account uses banned opcode: '' @ create2OpCode))
          else if map_of (Opcodes (ke_Info paymaster)) create2OpCode \<noteq> None then
            Inl (GoError (''paymaster uses banned opcode: '' @ create2OpCode))
          else Inr ()
      | None \<Rightarrow>
          if map_of (Opcodes (ke_Info account)) create2OpCode \<noteq> None then
            Inl (GoError (''account uses banned opcode: '' @ create2OpCode))
          else if map_of (Opcodes (ke_Info paymaster)) create2OpCode \<noteq> None then
            Inl (GoError (''paymaster uses banned opcode: '' @ create2OpCode))
          else Inr ())"

definition entity_validator :: "user_op \<Rightarrow> address \<Rightarrow> directory \<Rightarrow> (address \<rightharpoonup> storage_slots) \<Rightarrow> bool \<Rightarrow>
    string \<Rightarrow> known_info \<Rightarrow> slots_validator" where
  "entity_validator op ep alt slots factoryStaked title entity = \<lparr>
     v_Op = op, v_EntryPoint = ep, v_AltMempools = alt, v_SenderSlots = slots (Sender op),
     v_FactoryIsStaked = factoryStaked, v_EntityName = title, v_EntityAddr = ke_Address entity,
     v_EntityAccess = Access (ke_Info entity), v_EntitySlots = slots (ke_Address entity),
     v_EntityIsStaked = ke_IsStaked entity\<rparr>"

fun storage_loop :: "'y userop_lib_scheme \<Rightarrow> user_op \<Rightarrow> address \<Rightarrow> directory \<Rightarrow> (address \<rightharpoonup> storage_slots) \<Rightarrow> bool \<Rightarrow>
    (string \<times> known_info) list \<Rightarrow> string list \<Rightarrow> string list res" where
  "storage_loop L op ep alt slots factoryStaked [] ids = Inr ids"
| "storage_loop L op ep alt slots factoryStaked ((title, entity) # rest) ids =
     bind_res (validator_Process L (entity_validator op ep alt slots factoryStaked title entity)) (\<lambda>found.
       storage_loop L op ep alt slots factoryStaked rest (ids @ found))"

fun paymaster_context :: "'y trace_lib_scheme \<Rightarrow> hash \<Rightarrow> bool \<Rightarrow> call_entry list \<Rightarrow> unit res" where
  "paymaster_context L hash staked [] = Inr ()"
| "paymaster_context L hash staked (call # calls) =
     (if ce_Method call = ValidatePaymasterUserOpSelector L then
        (case DecodeValidatePaymasterUserOpOutput L (ce_Return call) of
           Inl (Panicked p) \<Rightarrow> Inl (Panicked p)
         | Inl err \<Rightarrow> Inl (GoError (''unexpected tracing result for op: '' @ hexutil_Encode L hash @ '', '' @ Error err))
         | Inr ctx \<Rightarrow>
             if ctx \<noteq> [] \<and> \<not> staked then Inl (GoError ''unstaked paymaster must not return context'')
             else paymaster_context L hash staked calls)
      else paymaster_context L hash staked calls)"

record trace_input =
  ti_EntryPoint :: address
  ti_Op :: user_op
  ti_ChainID :: int
  ti_Stakes :: entity_stakes
  ti_AltMempools :: directory

text \<open>
  \<open>traced\<close> is the answer to \<open>debug_traceCall\<close> (an error of the binding, the transactor or the
  node, or the trace).
\<close>

definition TraceSimulateValidation :: "'y trace_lib_scheme \<Rightarrow> string list \<Rightarrow> collector_return res \<Rightarrow>
    trace_input \<Rightarrow> trace_output res" where
  "TraceSimulateValidation L titles traced inp =
     bind_res traced (\<lambda>r.
     bind_res (newKnownEntity (ti_Op inp) r (ti_Stakes inp)) (\<lambda>ke.
       let entities = List.map_filter (\<lambda>t. map_option (Pair t) (ke t)) titles;
           factory = the (ke ''factory''); account = the (ke ''account''); paymaster = the (ke ''paymaster'') in
     bind_res (opcode_loop L entities []) (\<lambda>ic.
     bind_res (create2_check (ti_Op inp) factory account paymaster) (\<lambda>_.
     bind_res (newStorageSlotsByEntity L (ti_Stakes inp) (Keccak r)) (\<lambda>slots.
     bind_res (storage_loop L (ti_Op inp) (ti_EntryPoint inp) (ti_AltMempools inp) slots (ke_IsStaked factory) entities []) (\<lambda>ids.
     bind_res (paymaster_context L (GetUserOpHash L (ti_Op inp) (ti_EntryPoint inp) (ti_ChainID inp))
         (ke_IsStaked paymaster) (newCallStack (Calls r))) (\<lambda>_.
       Inr \<lparr>TouchedContracts = ic, AltMempoolIds = ids\<rparr>)))))))"

text \<open>
  \<open>SimulateValidation\<close>: \<open>answer\<close> is what the static call returns (no error is unexpected, the
  EntryPoint always reverts).
\<close>

definition SimulateValidation :: "'y rev_lib_scheme \<Rightarrow> go_error option \<Rightarrow> go_error option \<Rightarrow> validation_result res" where
  "SimulateValidation L bindErr answer =
     (case bindErr of
        Some err \<Rightarrow> Inl err
      | None \<Rightarrow>
          (case answer of
             None \<Rightarrow> Inl (GoError ''unexpected result from simulateValidation'')
           | Some err \<Rightarrow>
               (case NewValidationResult L (Some err) of
                  Inr sim \<Rightarrow> Inr sim
                | Inl (Panicked p) \<Rightarrow> Inl (Panicked p)
                | Inl simErr \<Rightarrow>
                    (case NewFailedOp L (Some err) of
                       Inl (Panicked p) \<Rightarrow> Inl (Panicked p)
                     | Inl foErr \<Rightarrow> Inl (GoError (Error simErr @ '', '' @ Error foErr))
                     | Inr fo \<Rightarrow> Inl (NewRPCError REJECTED_BY_EP_OR_ACCOUNT (Reason fo) (FailedOpData (OpIndex fo) (Reason fo)))))))"

subsection \<open>Call trees\<close>

text \<open>
  A well-nested trace: a call, the traces of the calls it makes, and the entry of its exit.
  \<open>completed\<close> lists the calls that returned, callees before callers.
\<close>

datatype call_tree = Call call_info "call_tree list" call_info

fun trace_of :: "call_tree \<Rightarrow> call_info list" where
  "trace_of (Call call children ext) = call # concat (map trace_of children) @ [ext]"

fun completed :: "call_tree \<Rightarrow> call_entry list" where
  "completed (Call call children ext) = concat (map completed children) @
     (if Contains (ci_Type call) ''CREATE'' \<or> ci_Type ext = revertOpCode then []
      else [\<lparr>ce_To = ci_To call, ce_Type = ci_Type call, ce_Method = ci_Method call, ce_Return = ci_Data ext\<rparr>])"

fun well_nested :: "call_tree \<Rightarrow> bool" where
  "well_nested (Call call children ext) \<longleftrightarrow>
     ci_Type call \<noteq> revertOpCode \<and> ci_Type call \<noteq> returnOpCode \<and>
     (ci_Type ext = revertOpCode \<or> ci_Type ext = returnOpCode) \<and> list_all well_nested children"

lemma call_loop_tree:
  "well_nested t \<Longrightarrow> call_loop (trace_of t @ rest) stack out = call_loop rest stack (out @ completed t)"
proof (induction t arbitrary: rest stack out rule: trace_of.induct)
  case (1 call children ext)
  have children: "call_loop (concat (map trace_of cs) @ tail) st o1 = call_loop tail st (o1 @ concat (map completed cs))"
    if "set cs \<subseteq> set children" for cs tail st o1
    using that
  proof (induction cs arbitrary: o1)
    case (Cons c cs)
    have "well_nested c" using Cons.prems "1.prems" by (auto simp: list_all_iff)
    then show ?case using Cons "1.IH" [of c] by simp
  qed simp
  have "call_loop (trace_of (Call call children ext) @ rest) stack out
      = call_loop (ext # rest) (stack @ [call]) (out @ concat (map completed children))"
    using "1.prems" children [of children "ext # rest" "stack @ [call]" out] by (simp add: Push_def)
  also have "\<dots> = call_loop rest stack (out @ completed (Call call children ext))"
    using "1.prems" by (auto simp: Pop_def revertOpCode_def returnOpCode_def)
  finally show ?case .
qed

lemma newCallStack_trees:
  assumes "list_all well_nested ts"
  shows "newCallStack (concat (map trace_of ts)) = concat (map completed ts)"
proof -
  have "call_loop (concat (map trace_of ts)) [] out = out @ concat (map completed ts)" for out
    using assms
  proof (induction ts arbitrary: out)
    case (Cons t ts)
    then show ?case using call_loop_tree [of t "concat (map trace_of ts)" "[]" out] by simp
  qed simp
  then show ?thesis by (simp add: newCallStack_def NewStack_def)
qed

subsection \<open>What an accepted trace satisfies\<close>

definition slots_or_empty :: "storage_slots option \<Rightarrow> storage_slots" where
  "slots_or_empty s = (case s of None \<Rightarrow> [] | Some l \<Rightarrow> l)"

text \<open>
  The storage rule: a slot associated with the sender is free, unless the account is being created
  by an unstaked factory or the entity is not the account, when the entity must be staked; a slot
  associated with the entity, or in its own storage, needs a staked entity; any other slot needs an
  alternative mempool that allows it.
\<close>

definition slot_rule :: "'y userop_lib_scheme \<Rightarrow> slots_validator \<Rightarrow> address \<Rightarrow> string \<Rightarrow> bool" where
  "slot_rule L v addr slot \<longleftrightarrow>
     (case isAssociatedWith (slots_or_empty (v_SenderSlots v)) slot of
        Inr True \<Rightarrow> InitCode (v_Op v) = [] \<or> v_FactoryIsStaked v \<and> v_EntityAddr v = Sender (v_Op v) \<or> v_EntityIsStaked v
      | Inr False \<Rightarrow>
          (case isAssociatedWith (slots_or_empty (v_EntitySlots v)) slot of
             Inr inEntity \<Rightarrow>
               (if inEntity \<or> addr = v_EntityAddr v then v_EntityIsStaked v
                else HasInvalidStorageAccessException (v_AltMempools v) (v_EntityName v)
                       (addr2KnownEntity L (v_Op v) addr) (''0x'' @ slot) \<noteq> [])
           | Inl e \<Rightarrow> False)
      | Inl e \<Rightarrow> False)"

lemma slot_step_rule:
  assumes "slot_step L v addr key slot (must, ids) = Inr (must', ids')" "slot \<noteq> ''''"
  shows "(must \<noteq> '''' \<longrightarrow> must' \<noteq> '''') \<and> (must' = '''' \<or> v_EntityIsStaked v \<longrightarrow> slot_rule L v addr slot)"
  using assms
  by (auto simp: slot_step_def slot_rule_def slots_or_empty_def bind_res_eq_Inr Let_def
      split: if_splits bool.splits)

lemma slots_fold_rule:
  "slots_fold L v addr ks (must, ids) = Inr (must', ids') \<Longrightarrow> \<forall>ks' \<in> set ks. snd ks' \<noteq> '''' \<Longrightarrow>
    (must \<noteq> '''' \<longrightarrow> must' \<noteq> '''') \<and>
    (must' = '''' \<or> v_EntityIsStaked v \<longrightarrow> (\<forall>ks' \<in> set ks. slot_rule L v addr (snd ks')))"
proof (induction ks arbitrary: must ids)
  case (Cons k ks)
  obtain key slot where k: "k = (key, slot)" by (cases k)
  from Cons.prems(1) k obtain m1 i1 where step: "slot_step L v addr key slot (must, ids) = Inr (m1, i1)"
    "slots_fold L v addr ks (m1, i1) = Inr (must', ids')"
    by (auto simp: bind_res_eq_Inr)
  show ?case
    using slot_step_rule [OF step(1)] Cons.IH [OF step(2)] Cons.prems(2) by (auto simp: k)
qed simp

lemma access_loop_rule:
  "access_loop L v accs ids = Inr ids' \<Longrightarrow> \<forall>a \<in> set accs. \<forall>ks \<in> set (access_slots (snd a)). snd ks \<noteq> '''' \<Longrightarrow>
    \<forall>a \<in> set accs. fst a \<noteq> Sender (v_Op v) \<and> fst a \<noteq> v_EntryPoint v \<longrightarrow>
      (\<forall>ks \<in> set (access_slots (snd a)). slot_rule L v (fst a) (snd ks))"
proof (induction accs arbitrary: ids)
  case (Cons a accs)
  obtain addr access where a: "a = (addr, access)" by (cases a)
  show ?case
  proof (cases "addr = Sender (v_Op v) \<or> addr = v_EntryPoint v")
    case True
    with Cons a show ?thesis by auto
  next
    case False
    with Cons.prems(1) a obtain must i1 where f: "slots_fold L v addr (access_slots access) ('''', ids) = Inr (must, i1)"
      "must = '''' \<or> v_EntityIsStaked v" "access_loop L v accs i1 = Inr ids'"
      by (auto simp: bind_res_eq_Inr split: if_splits)
    have "\<forall>ks \<in> set (access_slots access). slot_rule L v addr (snd ks)"
      using slots_fold_rule [OF f(1)] f(2) Cons.prems(2) by (simp add: a)
    with Cons.IH [OF f(3)] Cons.prems(2) show ?thesis by (auto simp: a)
  qed
qed simp

lemma storage_loop_rule:
  "storage_loop L op ep alt slots fs es ids = Inr ids' \<Longrightarrow> (t, e) \<in> set es \<Longrightarrow>
    \<exists>found. validator_Process L (entity_validator op ep alt slots fs t e) = Inr found"
  by (induction es arbitrary: ids) (auto simp: bind_res_eq_Inr)

lemma contract_fold:
  "set (fold (\<lambda>cs ic. if h (fst cs) \<in> set ic then ic else ic @ [h (fst cs)]) xs ic) = set ic \<union> (h \<circ> fst) ` set xs"
  by (induction xs arbitrary: ic) auto

lemma opcode_loop_rule:
  "opcode_loop L es ic = Inr ic' \<Longrightarrow>
    set ic \<subseteq> set ic' \<and>
    (\<forall>(t, e) \<in> set es. fst ` set (Opcodes (ke_Info e)) \<inter> set bannedOpCodes = {} \<and>
      (HexToAddress L \<circ> fst) ` set (ContractSize (ke_Info e)) \<subseteq> set ic')"
proof (induction es arbitrary: ic)
  case (Cons te es)
  obtain t e where te: "te = (t, e)" by (cases te)
  let ?ic = "fold (\<lambda>cs ic. if HexToAddress L (fst cs) \<in> set ic then ic else ic @ [HexToAddress L (fst cs)]) (ContractSize (ke_Info e)) ic"
  from Cons.prems te have none: "find (\<lambda>oc. fst oc \<in> set bannedOpCodes) (Opcodes (ke_Info e)) = None"
    and rest: "opcode_loop L es ?ic = Inr ic'"
    by (auto split: option.splits)
  from none have "fst ` set (Opcodes (ke_Info e)) \<inter> set bannedOpCodes = {}" by (auto simp: find_None_iff)
  with Cons.IH [OF rest] show ?case by (auto simp: te contract_fold)
qed simp

lemma paymaster_context_rule:
  "paymaster_context L hash staked calls = Inr () \<Longrightarrow> call \<in> set calls \<Longrightarrow>
    ce_Method call = ValidatePaymasterUserOpSelector L \<Longrightarrow>
    \<exists>ctx. DecodeValidatePaymasterUserOpOutput L (ce_Return call) = Inr ctx \<and> (ctx = [] \<or> staked)"
proof (induction calls)
  case (Cons c calls)
  show ?case
  proof (cases "ce_Method c = ValidatePaymasterUserOpSelector L")
    case True
    from Cons.prems(1) True obtain ctx where ctx: "DecodeValidatePaymasterUserOpOutput L (ce_Return c) = Inr ctx"
      by (cases "DecodeValidatePaymasterUserOpOutput L (ce_Return c)") (auto split: go_error.splits)
    with Cons True show ?thesis by (auto split: if_splits)
  next
    case False
    with Cons show ?thesis by auto
  qed
qed simp

definition entities_of :: "user_op \<Rightarrow> collector_return \<Rightarrow> entity_stakes \<Rightarrow> (string \<times> known_info) list" where
  "entities_of op r stakes = [
     (''factory'', \<lparr>ke_Address = GetFactory op, ke_Info = NumberLevels r ! 0, ke_IsStaked = is_staked stakes (GetFactory op)\<rparr>),
     (''account'', \<lparr>ke_Address = Sender op, ke_Info = NumberLevels r ! 1, ke_IsStaked = is_staked stakes (Sender op)\<rparr>),
     (''paymaster'', \<lparr>ke_Address = GetPaymaster op, ke_Info = NumberLevels r ! 2, ke_IsStaked = is_staked stakes (GetPaymaster op)\<rparr>)]"

lemma newKnownEntity_Inr:
  "newKnownEntity op r stakes = Inr ke \<longleftrightarrow> length (NumberLevels r) = 3 \<and> ke = map_of (entities_of op r stakes)"
proof -
  have "(\<lambda>t. map_of (entities_of op r stakes) t) =
    [''factory'' \<mapsto> \<lparr>ke_Address = GetFactory op, ke_Info = NumberLevels r ! 0, ke_IsStaked = is_staked stakes (GetFactory op)\<rparr>,
     ''account'' \<mapsto> \<lparr>ke_Address = Sender op, ke_Info = NumberLevels r ! 1, ke_IsStaked = is_staked stakes (Sender op)\<rparr>,
     ''paymaster'' \<mapsto> \<lparr>ke_Address = GetPaymaster op, ke_Info = NumberLevels r ! 2, ke_IsStaked = is_staked stakes (GetPaymaster op)\<rparr>]"
    by (rule ext) (simp add: entities_of_def)
  then show ?thesis
    unfolding newKnownEntity_def factoryNumberLevel_def accountNumberLevel_def paymasterNumberLevel_def
    by auto
qed

lemma create2_check_rule:
  "create2_check op f a p = Inr () \<Longrightarrow>
    map_of (Opcodes (ke_Info a)) create2OpCode = None \<and> map_of (Opcodes (ke_Info p)) create2OpCode = None \<and>
    (\<forall>n. map_of (Opcodes (ke_Info f)) create2OpCode = Some n \<longrightarrow> n \<le> 1 \<and> InitCode op \<noteq> [])"
  by (auto simp: create2_check_def split: option.splits if_splits)

lemma titles_entities:
  assumes "set titles = {''factory'', ''account'', ''paymaster''}"
  shows "set (List.map_filter (\<lambda>t. map_option (Pair t) (map_of (entities_of op r stakes) t)) titles) = set (entities_of op r stakes)"
proof -
  have "set (List.map_filter f xs) = {y. \<exists>x \<in> set xs. f x = Some y}" for f :: "string \<Rightarrow> (string \<times> known_info) option" and xs
    by (induction xs) (auto simp: List.map_filter_def split: option.splits)
  then show ?thesis using assms by (auto simp: entities_of_def)
qed

text \<open>No slot of the trace has an empty name.\<close>

definition slots_named :: "collector_return \<Rightarrow> bool" where
  "slots_named r \<longleftrightarrow> (\<forall>lvl \<in> set (NumberLevels r). \<forall>a \<in> set (Access lvl). \<forall>ks \<in> set (access_slots (snd a)). snd ks \<noteq> [])"

subsection \<open>Properties\<close>

text \<open>
  C11: the call stack of a well-nested trace lists each call that returned, callees before callers,
  with the data of its own exit; calls that reverted and contract creations are left out.
\<close>

theorem newCallStack_well_nested:
  assumes "list_all well_nested ts"
  shows "newCallStack (concat (map trace_of ts)) = concat (map completed ts)"
  by (rule newCallStack_trees [OF assms])

definition sample_call :: "string \<Rightarrow> address \<Rightarrow> string \<Rightarrow> call_info" where
  "sample_call ty to data = \<lparr>ci_Type = ty, ci_To = to, ci_Method = ''0xabcd'', ci_Data = JStr data\<rparr>"

theorem newCallStack_well_nested_witness:
  "map ce_To (newCallStack [sample_call ''CALL'' 1 [], sample_call ''CALL'' 2 [], sample_call ''RETURN'' 0 [],
     sample_call ''STATICCALL'' 3 [], sample_call ''REVERT'' 0 [], sample_call ''RETURN'' 0 []]) = [2, 1]"
  using newCallStack_well_nested [of "[Call (sample_call ''CALL'' 1 [])
      [Call (sample_call ''CALL'' 2 []) [] (sample_call ''RETURN'' 0 []),
       Call (sample_call ''STATICCALL'' 3 []) [] (sample_call ''REVERT'' 0 [])] (sample_call ''RETURN'' 0 [])]"]
  by (simp add: sample_call_def revertOpCode_def returnOpCode_def)


definition trace_ref :: trace_lib where
  "trace_ref = rev_lib.extend rev_ref (trace_lib.fields ''0xf465c77e'' (\<lambda>bs. Inl (GoError ''abi'')))"

definition sample_level :: number_level where
  "sample_level = \<lparr>Opcodes = [(''PUSH1'', 3), (''CALL'', 1)],
     Access = [(5, \<lparr>Reads = [(''00'', 1)], Writes = []\<rparr>)], ContractSize = []\<rparr>"

definition sample_trace :: collector_return where
  "sample_trace = \<lparr>NumberLevels = [sample_level, sample_level, sample_level], Keccak = [], Calls = []\<rparr>"

definition sample_input :: trace_input where
  "sample_input = \<lparr>ti_EntryPoint = 9, ti_Op = sample_op 5 3, ti_ChainID = 1, ti_Stakes = [(5, None)],
     ti_AltMempools = Map.empty\<rparr>"

lemma sample_fields:
  "NumberLevels sample_trace = [sample_level, sample_level, sample_level]" "Keccak sample_trace = []"
  "Calls sample_trace = []" "Opcodes sample_level = [(''PUSH1'', 3), (''CALL'', 1)]"
  "Access sample_level = [(5, \<lparr>Reads = [(''00'', 1)], Writes = []\<rparr>)]" "ContractSize sample_level = []"
  by (simp_all add: sample_trace_def sample_level_def)


end
