(* ===== verification/Checks.thy ===== *)
theory Checks
  imports Batch_Modules Simulation
begin

text \<open>
  \<open>pkg/modules/checks\<close>: the checks of new operations by the client and of batches by the bundler.
  The answers of the node during one call of a handler are a record of functions (\<open>node_view\<close>);
  goroutines of an \<open>errgroup\<close> all run, and \<open>Wait\<close> returns one of their errors, which \<open>pick\<close> chooses.
\<close>

record node_view =
  nv_NewEntrypoint :: "address \<Rightarrow> go_error option"
  nv_CodeAt :: "address \<Rightarrow> bytes res"
  nv_DepositInfo :: "address \<Rightarrow> address \<Rightarrow> deposit_info res"
  nv_HeadBaseFee :: "int option res"
  nv_simulate :: "address \<Rightarrow> user_op \<Rightarrow> go_error option"
  nv_trace :: "address \<Rightarrow> user_op \<Rightarrow> collector_return res"

definition getCodeWithEthClient :: "node_view \<Rightarrow> address \<Rightarrow> bytes res" where
  "getCodeWithEthClient N addr = nv_CodeAt N addr"

text \<open>The stake reader adds what it reads to the context of the operation.\<close>

definition getStakeWithEthClient :: "node_view \<Rightarrow> address \<Rightarrow> op_ctx \<Rightarrow> deposit_info res \<times> op_ctx" where
  "getStakeWithEthClient N addr c =
     (case nv_DepositInfo N (oc_EntryPoint c) addr of
        Inl err \<Rightarrow> (Inl err, c)
      | Inr dep \<Rightarrow> (Inr dep, AddDepositInfo addr dep c))"

subsection \<open>Checks of one operation\<close>

definition ValidateSender :: "user_op \<Rightarrow> (address \<Rightarrow> bytes res) \<Rightarrow> go_error option" where
  "ValidateSender op gc =
     (case gc (Sender op) of
        Inl err \<Rightarrow> Some err
      | Inr bytecode \<Rightarrow>
          if length bytecode = 0 \<and> length (InitCode op) = 0 then
            Some (GoError ''sender: not deployed, initCode must be set'')
          else if length bytecode > 0 \<and> length (InitCode op) > 0 then
            Some (GoError ''sender: already deployed, initCode must be empty'')
          else None)"

type_synonym get_stake = "address \<Rightarrow> op_ctx \<Rightarrow> deposit_info res \<times> op_ctx"

definition ValidateInitCode :: "user_op \<Rightarrow> get_stake \<Rightarrow> op_ctx \<Rightarrow> go_error option \<times> op_ctx" where
  "ValidateInitCode op gs c =
     (if length (InitCode op) = 0 then (None, c)
      else let f = GetFactory op in
        if f = 0 then (Some (GoError ''initCode: does not contain a valid address''), c)
        else (case gs f c of (Inl err, c') \<Rightarrow> (Some err, c') | (Inr dep, c') \<Rightarrow> (None, c')))"

definition ValidateVerificationGas :: "'y userop_lib_scheme \<Rightarrow> user_op \<Rightarrow> overhead \<Rightarrow> int \<Rightarrow> go_error option" where
  "ValidateVerificationGas L op ov maxVerificationGas =
     (if VerificationGasLimit op > maxVerificationGas then
        Some (GoError (''verificationGasLimit: exceeds maxVerificationGas of '' @ Itoa maxVerificationGas))
      else if HasIntent L op then None
      else (case CalcPreVerificationGas L ov op of
              Inl err \<Rightarrow> Some err
            | Inr pvg \<Rightarrow>
                if PreVerificationGas op < pvg then
                  Some (GoError (''preVerificationGas: below expected gas of '' @ Itoa pvg))
                else None))"

definition ValidatePaymasterAndData :: "user_op \<Rightarrow> (address \<Rightarrow> bytes res) \<Rightarrow> get_stake \<Rightarrow> op_ctx \<Rightarrow>
    go_error option \<times> op_ctx" where
  "ValidatePaymasterAndData op gc gs c =
     (if length (PaymasterAndData op) = 0 then (None, c)
      else if length (PaymasterAndData op) < 20 then (Some (GoError ''PaymasterAndData: invalid length''), c)
      else let pm = GetPaymaster op in
        (case gc pm of
           Inl err \<Rightarrow> (Some err, c)
         | Inr bytecode \<Rightarrow>
             if length bytecode = 0 then (Some (GoError ''paymaster: code not deployed''), c)
             else (case gs pm c of
                     (Inl err, c') \<Rightarrow> (Some err, c')
                   | (Inr dep, c') \<Rightarrow>
                       if Deposit dep < GetMaxPrefund op then
                         (Some (GoError ''paymaster: not enough deposit to cover max prefund''), c')
                       else (None, c'))))"

definition ValidateCallGasLimit :: "user_op \<Rightarrow> overhead \<Rightarrow> go_error option" where
  "ValidateCallGasLimit op ov =
     (let cg = NonZeroValueCall ov in
      if CallGasLimit op < cg then Some (GoError (''callGasLimit: below expected gas of '' @ Itoa cg)) else None)"

definition ValidateFeePerGas :: "user_op \<Rightarrow> int option res \<Rightarrow> go_error option" where
  "ValidateFeePerGas op gbf =
     (case gbf of
        Inl err \<Rightarrow> Some err
      | Inr None \<Rightarrow>
          if MaxPriorityFeePerGas op \<noteq> MaxFeePerGas op then
            Some (GoError ''legacy fee mode: maxPriorityFeePerGas must equal maxFeePerGas'')
          else None
      | Inr (Some bf) \<Rightarrow>
          if MaxPriorityFeePerGas op > MaxFeePerGas op then
            Some (GoError ''maxFeePerGas: must be equal to or greater than maxPriorityFeePerGas'')
          else if MaxFeePerGas op < bf then
            Some (GoError ''maxFeePerGas: must be equal to or greater than current block.basefee'')
          else None)"

definition minPriceBump :: int where "minPriceBump = 10"

definition calcNewThresholds :: "int \<Rightarrow> int \<Rightarrow> int \<times> int" where
  "calcNewThresholds cap tip =
     (let a = 100 + minPriceBump; aFeeCap = a * cap; aTip = a * tip; b = 100
      in (aFeeCap div b, aTip div b))"

text \<open>The loop over the pending operations leaves the last one with the nonce.\<close>

fun find_old :: "int \<Rightarrow> user_op list \<Rightarrow> user_op option \<Rightarrow> user_op option" where
  "find_old nonce [] oldOp = oldOp"
| "find_old nonce (penOp # penOps) oldOp = find_old nonce penOps (if nonce = Nonce penOp then Some penOp else oldOp)"

definition ValidatePendingOps :: "user_op \<Rightarrow> user_op list \<Rightarrow> int \<Rightarrow> get_stake \<Rightarrow> op_ctx \<Rightarrow>
    go_error option \<times> op_ctx" where
  "ValidatePendingOps op penOps maxOpsForUnstakedSender gs c =
     (case gs (Sender op) c of
        (Inl err, c') \<Rightarrow> (Some err, c')
      | (Inr dep, c') \<Rightarrow>
          if length penOps > 0 then
            (case find_old (Nonce op) penOps None of
               Some oldOp \<Rightarrow>
                 let (newMf, newMpf) = calcNewThresholds (MaxFeePerGas oldOp) (MaxPriorityFeePerGas oldOp) in
                 if MaxFeePerGas op < newMf \<or> MaxPriorityFeePerGas op < newMpf then
                   (Some (GoError (''pending ops: replacement op must increase maxFeePerGas and MaxPriorityFeePerGas by >= ''
                      @ Itoa minPriceBump @ ''%'')), c')
                 else (None, c')
             | None \<Rightarrow>
                 if \<not> Staked dep \<and> int (length penOps) \<ge> maxOpsForUnstakedSender then
                   (Some (GoError (''pending ops: sender must be staked to have more than ''
                      @ Itoa maxOpsForUnstakedSender @ '' ops in the mempool'')), c')
                 else (None, c'))
          else (None, c'))"

definition ValidateGasAvailable :: "'y userop_lib_scheme \<Rightarrow> user_op \<Rightarrow> int \<Rightarrow> go_error option" where
  "ValidateGasAvailable L op maxBatchGasLimit =
     (case CalcPreVerificationGas L NewDefaultOverhead op of
        Inl err \<Rightarrow> Some err
      | Inr static \<Rightarrow>
          let mgl = GetMaxGasAvailable op - PreVerificationGas op; mga = mgl + static in
          if mga > maxBatchGasLimit then
            Some (GoError (''gasLimit: exceeds maxBatchGasLimit of '' @ Itoa maxBatchGasLimit))
          else None)"

subsection \<open>Code hashes\<close>

record code_hash =
  ch_Address :: address
  ch_Hash :: hash

fun getCodeHashes :: "'y userop_lib_scheme \<Rightarrow> address list \<Rightarrow> (address \<Rightarrow> bytes res) \<Rightarrow> code_hash list res" where
  "getCodeHashes L [] gc = Inr []"
| "getCodeHashes L (addr # ic) gc =
     bind_res (gc addr) (\<lambda>bytecode.
     bind_res (getCodeHashes L ic gc) (\<lambda>ret.
       Inr (\<lparr>ch_Address = addr, ch_Hash = Keccak256 L bytecode\<rparr> # ret)))"

definition hasCodeHashChanges :: "'y userop_lib_scheme \<Rightarrow> code_hash list \<Rightarrow> (address \<Rightarrow> bytes res) \<Rightarrow> bool res" where
  "hasCodeHashChanges L chs gc =
     (let prev = fold (\<lambda>ch m. m(ch_Address ch \<mapsto> ch_Hash ch)) chs Map.empty;
          ic = map ch_Address chs in
      bind_res (getCodeHashes L ic gc) (\<lambda>current.
        Inr (\<exists>ch \<in> set current. Some (ch_Hash ch) \<noteq> prev (ch_Address ch))))"

definition codeHashesPrefix :: string where
  "codeHashesPrefix = JoinValues [JoinValues [''checks''], ''codeHashes'']"

definition getCodeHashesKey :: "'y userop_lib_scheme \<Rightarrow> hash \<Rightarrow> string" where
  "getCodeHashesKey L userOpHash = JoinValues [codeHashesPrefix, hexutil_Encode L userOpHash]"

text \<open>
  The JSON of the list: addresses and hashes are written as hexadecimal texts of their bytes. A
  hash is an array of 32 bytes and an address one of 20: a text of another length is an error, a
  missing key the zero value.
\<close>

definition marshal_code_hash :: "'y userop_lib_scheme \<Rightarrow> code_hash \<Rightarrow> json" where
  "marshal_code_hash L ch = JObj
     [(''address'', JStr (hexutil_Encode L (address_bytes (ch_Address ch)))),
      (''hash'', JStr (hexutil_Encode L (ch_Hash ch)))]"

definition fixed_bytes :: "'y userop_lib_scheme \<Rightarrow> nat \<Rightarrow> json option \<Rightarrow> bytes res" where
  "fixed_bytes L n v =
     (case v of
        None \<Rightarrow> Inr (replicate n 0)
      | Some (JStr s) \<Rightarrow>
          bind_res (hexutil_Decode L s) (\<lambda>b. if length b = n then Inr b else Inl (GoError ''hex string has invalid length''))
      | Some _ \<Rightarrow> Inl (GoError ''json: cannot unmarshal non-string''))"

definition unmarshal_code_hash :: "'y userop_lib_scheme \<Rightarrow> json \<Rightarrow> code_hash res" where
  "unmarshal_code_hash L v =
     (case v of
        JObj kvs \<Rightarrow>
          bind_res (fixed_bytes L 20 (map_of (rev kvs) ''address'')) (\<lambda>a.
          bind_res (fixed_bytes L 32 (map_of (rev kvs) ''hash'')) (\<lambda>h.
            Inr \<lparr>ch_Address = address_of_bytes a, ch_Hash = h\<rparr>))
      | _ \<Rightarrow> Inl (GoError ''json: cannot unmarshal''))"

definition saveCodeHashes :: "'y userop_lib_scheme \<Rightarrow> 'd badger \<Rightarrow> hash \<Rightarrow> code_hash list \<Rightarrow> 'd \<Rightarrow>
    go_error option \<times> 'd" where
  "saveCodeHashes L B userOpHash codeHashes =
     db_Update B (\<lambda>txn. txn_Set B txn (getCodeHashesKey L userOpHash)
       (DocVal (JArr (map (marshal_code_hash L) codeHashes))))"

definition getSavedCodeHashes :: "'y userop_lib_scheme \<Rightarrow> 'd badger \<Rightarrow> hash \<Rightarrow> 'd \<Rightarrow> code_hash list res" where
  "getSavedCodeHashes L B userOpHash txn =
     bind_res (txn_Get B txn (getCodeHashesKey L userOpHash)) (\<lambda>val.
       (case val of
          DocVal (JArr vs) \<Rightarrow> map_res (unmarshal_code_hash L) vs
        | _ \<Rightarrow> Inl (GoError ''json: cannot unmarshal'')))"

definition removeSavedCodeHashes :: "'y userop_lib_scheme \<Rightarrow> 'd badger \<Rightarrow> hash list \<Rightarrow> 'd \<Rightarrow> go_error option \<times> 'd" where
  "removeSavedCodeHashes L B userOpHashes =
     db_Update B (delete_keys B (map (getCodeHashesKey L) userOpHashes))"

subsection \<open>The modules\<close>

record standalone =
  st_ov :: overhead
  st_alt :: directory
  st_maxVerificationGas :: int
  st_maxBatchGasLimit :: int
  st_maxOpsForUnstakedSender :: int

definition New_standalone :: "overhead \<Rightarrow> directory \<Rightarrow> int \<Rightarrow> int \<Rightarrow> int \<Rightarrow> standalone" where
  "New_standalone ov alt maxVerificationGas maxBatchGasLimit maxOpsForUnstakedSender =
     \<lparr>st_ov = ov, st_alt = alt, st_maxVerificationGas = maxVerificationGas,
      st_maxBatchGasLimit = maxBatchGasLimit, st_maxOpsForUnstakedSender = maxOpsForUnstakedSender\<rparr>"

definition errgroup_Wait :: "(go_error list \<Rightarrow> go_error) \<Rightarrow> go_error option list \<Rightarrow> go_error option" where
  "errgroup_Wait pick results =
     (let errs = List.map_filter id results in if errs = [] then None else Some (pick errs))"

definition ValidateOpValues :: "'y userop_lib_scheme \<Rightarrow> node_view \<Rightarrow> (go_error list \<Rightarrow> go_error) \<Rightarrow> standalone \<Rightarrow>
    'w op_handler" where
  "ValidateOpValues L N pick s = (\<lambda>(w, c).
     let op = UserOp c; penOps = GetPendingOps c; gc = getCodeWithEthClient N;
         gbf = GetBaseFeeWithEthClient (nv_HeadBaseFee N) in
     case nv_NewEntrypoint N (oc_EntryPoint c) of
       Some err \<Rightarrow> (Some err, w, c)
     | None \<Rightarrow>
         let gs = getStakeWithEthClient N;
             e1 = ValidateSender op gc;
             (e2, c2) = ValidateInitCode op gs c;
             e3 = ValidateVerificationGas L op (st_ov s) (st_maxVerificationGas s);
             (e4, c4) = ValidatePaymasterAndData op gc gs c2;
             e5 = (if \<not> HasIntent L op then ValidateCallGasLimit op (st_ov s) else None);
             e6 = (if \<not> HasIntent L op then ValidateFeePerGas op gbf else None);
             (e7, c7) = ValidatePendingOps op penOps (st_maxOpsForUnstakedSender s) gs c4;
             e8 = ValidateGasAvailable L op (st_maxBatchGasLimit s) in
         case errgroup_Wait pick [e1, e2, e3, e4, e5, e6, e7, e8] of
           Some err \<Rightarrow> (Some (NewRPCError INVALID_FIELDS (Error err) (StrData (Error err))), w, c7)
         | None \<Rightarrow> (None, w, c7))"

definition simulate_part :: "'y rev_lib_scheme \<Rightarrow> node_view \<Rightarrow> int \<Rightarrow> op_ctx \<Rightarrow> go_error option" where
  "simulate_part L N now c =
     (case SimulateValidation L (nv_NewEntrypoint N (oc_EntryPoint c)) (nv_simulate N (oc_EntryPoint c) (UserOp c)) of
        Inl err \<Rightarrow> Some (NewRPCError REJECTED_BY_EP_OR_ACCOUNT (Error err) (StrData (Error err)))
      | Inr sim \<Rightarrow>
          if ri_SigFailed (ReturnInfo sim) then
            Some (NewRPCError INVALID_SIGNATURE ''Invalid UserOp signature or paymaster signature'' NilData)
          else if ri_ValidUntil (ReturnInfo sim) \<noteq> 0 \<and> now \<ge> wrap64 (ri_ValidUntil (ReturnInfo sim)) - 30 then
            Some (NewRPCError SHORT_DEADLINE ''expires too soon'' NilData)
          else None)"

definition entity_stakes_of :: "op_ctx \<Rightarrow> entity_stakes" where
  "entity_stakes_of c =
     map (\<lambda>a. (a, GetDepositInfo c a)) (remdups [GetFactory (UserOp c), Sender (UserOp c), GetPaymaster (UserOp c)])"

definition trace_part :: "'y trace_lib_scheme \<Rightarrow> 'd badger \<Rightarrow> node_view \<Rightarrow> string list \<Rightarrow> standalone \<Rightarrow> op_ctx \<Rightarrow> 'd \<Rightarrow>
    go_error option \<times> 'd" where
  "trace_part L B N titles s c d =
     (case TraceSimulateValidation L titles (nv_trace N (oc_EntryPoint c) (UserOp c))
         \<lparr>ti_EntryPoint = oc_EntryPoint c, ti_Op = UserOp c, ti_ChainID = oc_ChainID c,
          ti_Stakes = entity_stakes_of c, ti_AltMempools = st_alt s\<rparr> of
        Inl err \<Rightarrow> (Some (NewRPCError BANNED_OPCODE (Error err) (StrData (Error err))), d)
      | Inr out \<Rightarrow>
          (case getCodeHashes L (TouchedContracts out) (getCodeWithEthClient N) of
             Inl err \<Rightarrow> (Some (NewRPCError BANNED_OPCODE (Error err) (StrData (Error err))), d)
           | Inr ch \<Rightarrow> saveCodeHashes L B (GetUserOpHash L (UserOp c) (oc_EntryPoint c) (oc_ChainID c)) ch d))"

definition SimulateOp :: "'y trace_lib_scheme \<Rightarrow> 'd badger \<Rightarrow> node_view \<Rightarrow> (go_error list \<Rightarrow> go_error) \<Rightarrow> string list \<Rightarrow> int \<Rightarrow>
    standalone \<Rightarrow> ('d, 's, 'x) mempool_scheme op_handler" where
  "SimulateOp L B N pick titles now s = (\<lambda>(w, c).
     if HasIntent L (UserOp c) then (None, w, c)
     else
       let e1 = simulate_part L N now c;
           (e2, d) = trace_part L B N titles s c (mp_db w)
       in (errgroup_Wait pick [e1, e2], w\<lparr>mp_db := d\<rparr>, c))"

definition code_test :: "'y userop_lib_scheme \<Rightarrow> 'd badger \<Rightarrow> node_view \<Rightarrow> address \<Rightarrow> int \<Rightarrow>
    nat \<Rightarrow> user_op \<Rightarrow> ('d, 's, 'x) mempool_scheme \<Rightarrow> bool res \<times> ('d, 's, 'x) mempool_scheme" where
  "code_test L B N entryPoint chainID i op w =
     (if HasIntent L op then (Inr False, w)
      else (bind_res (getSavedCodeHashes L B (GetUserOpHash L op entryPoint chainID) (mp_db w)) (\<lambda>chs.
              hasCodeHashChanges L chs (getCodeWithEthClient N)), w))"

definition CodeHashes :: "'y userop_lib_scheme \<Rightarrow> 'd badger \<Rightarrow> node_view \<Rightarrow> ('d, 's, 'x) mempool_scheme batch_handler" where
  "CodeHashes L B N = (\<lambda>(w, c).
     mark_backwards (code_test L B N (EntryPoint c) (ChainID c)) (length (Batch c)) (w, c))"

text \<open>
  \<open>PaymasterDeposit\<close> ranges over the batch as it was at the start: \<open>i\<close> indexes that batch, while
  the marks are applied to the current one.
\<close>

fun deposit_loop :: "'y userop_lib_scheme \<Rightarrow> node_view \<Rightarrow> int \<Rightarrow> user_op list \<Rightarrow> (address \<rightharpoonup> int) \<Rightarrow> batch_ctx \<Rightarrow>
    go_error option \<times> batch_ctx" where
  "deposit_loop L N i [] deps c = (None, c)"
| "deposit_loop L N i (op # ops) deps c =
     (if HasIntent L op then deposit_loop L N (i + 1) ops deps c
      else let pm = GetPaymaster op in
        if pm = 0 then deposit_loop L N (i + 1) ops deps c
        else
          case (case deps pm of
                  Some d \<Rightarrow> Inr d
                | None \<Rightarrow> map_sum id Deposit (nv_DepositInfo N (EntryPoint c) pm)) of
            Inl err \<Rightarrow> (Some err, c)
          | Inr dep \<Rightarrow>
              let left = dep - GetMaxPrefund op in
              deposit_loop L N (i + 1) ops (deps(pm \<mapsto> left))
                (if left < 0 then MarkOpIndexForRemoval i c else c))"

definition PaymasterDeposit :: "'y userop_lib_scheme \<Rightarrow> node_view \<Rightarrow> 'w batch_handler" where
  "PaymasterDeposit L N = (\<lambda>(w, c).
     case nv_NewEntrypoint N (EntryPoint c) of
       Some err \<Rightarrow> (Some err, w, c)
     | None \<Rightarrow> (let (e, c') = deposit_loop L N 0 (Batch c) Map.empty c in (e, w, c')))"

definition Clean :: "'y userop_lib_scheme \<Rightarrow> 'd badger \<Rightarrow> ('d, 's, 'x) mempool_scheme batch_handler" where
  "Clean L B = (\<lambda>(w, c).
     let hashes = map (\<lambda>op. GetUserOpHash L op (EntryPoint c) (ChainID c)) (Batch c @ PendingRemoval c);
         (e, d) = removeSavedCodeHashes L B hashes (mp_db w)
     in (e, w\<lparr>mp_db := d\<rparr>, c))"

subsection \<open>The batch handlers meet the contract\<close>

lemma deposit_loop_mark: "deposit_loop L N i ops deps c = (e, c') \<Longrightarrow> ctx_mark c c'"
proof (induction ops arbitrary: i deps c)
  case (Cons op ops)
  show ?case
  proof (cases "HasIntent L op \<or> GetPaymaster op = 0")
    case True
    with Cons show ?thesis by (auto simp: Let_def split: if_splits)
  next
    case False
    let ?pm = "GetPaymaster op"
    let ?dep = "case deps ?pm of Some d \<Rightarrow> Inr d | None \<Rightarrow> map_sum id Deposit (nv_DepositInfo N (EntryPoint c) ?pm)"
    show ?thesis
    proof (cases ?dep)
      case (Inl err)
      with False Cons.prems show ?thesis by (auto simp: Let_def)
    next
      case (Inr dep)
      let ?c = "if dep - GetMaxPrefund op < 0 then MarkOpIndexForRemoval i c else c"
      have "deposit_loop L N (i + 1) ops (deps(?pm \<mapsto> dep - GetMaxPrefund op)) ?c = (e, c')"
        using False Inr Cons.prems by (simp add: Let_def)
      from Cons.IH [OF this] show ?thesis by (auto intro: ctx_mark_trans [OF MarkOpIndexForRemoval_mark] split: if_splits)
    qed
  qed
qed simp

interpretation code_hashes: marking_module "CodeHashes L B N" for L B N
  by unfold_locales (auto simp: CodeHashes_def intro: mark_backwards_mark)

interpretation paymaster_deposit: marking_module "PaymasterDeposit L N" for L N
  by unfold_locales (auto simp: PaymasterDeposit_def dest: deposit_loop_mark split: option.splits prod.splits)

interpretation clean: marking_module "Clean L B" for L B
  by unfold_locales (auto simp: Clean_def Let_def split: prod.splits)

subsection \<open>Lemmas\<close>

lemma errgroup_Wait_None: "errgroup_Wait pick rs = None \<longleftrightarrow> (\<forall>r \<in> set rs. r = None)"
  by (induction rs) (auto simp: errgroup_Wait_def List.map_filter_def Let_def split: option.splits)

lemma errgroup_Wait_Some:
  assumes "\<And>errs. errs \<noteq> [] \<Longrightarrow> pick errs \<in> set errs" "errgroup_Wait pick rs = Some e"
  shows "Some e \<in> set rs"
proof -
  have "set (List.map_filter id rs) = {e. Some e \<in> set rs}"
    by (induction rs) (auto simp: List.map_filter_def)
  then show ?thesis using assms by (auto simp: errgroup_Wait_def Let_def split: if_splits)
qed

lemma address_bytes_word: "foldl (\<lambda>a b. a * 256 + ucast (b :: 8 word)) (0 :: 160 word) bs
    = word_of_nat (foldl (\<lambda>a b. a * 256 + unat b) 0 bs)"
proof -
  have "foldl (\<lambda>a b. a * 256 + ucast b) (word_of_nat n :: 160 word) bs
      = word_of_nat (foldl (\<lambda>a b. a * 256 + unat b) n bs)" for n
  proof (induction bs arbitrary: n)
    case (Cons b bs)
    have eq: "word_of_nat n * 256 + ucast b = (word_of_nat (n * 256 + unat b) :: 160 word)" by simp
    show ?case unfolding foldl_Cons eq by (rule Cons.IH)
  qed simp
  from this [of 0] show ?thesis by simp
qed

lemma foldl_base256:
  "foldl (\<lambda>a i. a * 256 + (x div 2 ^ (8 * i)) mod 256) 0 (rev [0..<k]) = x mod 2 ^ (8 * k)" for x :: nat
proof -
  have "foldl (\<lambda>a i. a * 256 + (x div 2 ^ (8 * i)) mod 256) c (rev [0..<k]) = c * 2 ^ (8 * k) + x mod 2 ^ (8 * k)" for c
  proof (induction k arbitrary: c)
    case (Suc k)
    have "x mod 2 ^ (8 * Suc k) = 2 ^ (8 * k) * ((x div 2 ^ (8 * k)) mod 256) + x mod 2 ^ (8 * k)"
      using mod_mult2_eq [of x "2 ^ (8 * k)" 256] by (simp add: power_add mult.commute)
    with Suc show ?case by (simp add: algebra_simps power_add)
  qed simp
  from this [of 0] show ?thesis by simp
qed

lemma unat_address_byte: "unat (ucast (drop_bit n (a :: 160 word)) :: 8 word) = (unat a div 2 ^ n) mod 256"
  unfolding unsigned_ucast_eq unat_drop_bit_eq by (simp add: drop_bit_eq_div take_bit_eq_mod)

lemma address_of_bytes_bytes: "address_of_bytes (address_bytes a) = a"
proof -
  have "foldl (\<lambda>a b. a * 256 + unat b) 0 (address_bytes a)
      = foldl (\<lambda>s i. s * 256 + (unat a div 2 ^ (8 * i)) mod 256) 0 (rev [0..<20])"
    unfolding address_bytes_def foldl_map unat_address_byte ..
  also have "\<dots> = unat a mod 2 ^ (8 * 20)" by (rule foldl_base256)
  also have "\<dots> = unat a" using unsigned_less [of a, where 'a = nat] by simp
  finally show ?thesis unfolding address_of_bytes_def address_bytes_word by simp
qed

lemma length_address_bytes: "length (address_bytes a) = 20"
  by (simp add: address_bytes_def)

lemma unmarshal_marshal:
  assumes "eth_lib_ok L" "length (ch_Hash ch) = 32"
  shows "unmarshal_code_hash L (marshal_code_hash L ch) = Inr ch"
  using assms(2) eth_lib_okD(4,5) [OF assms(1)]
  by (simp add: unmarshal_code_hash_def marshal_code_hash_def fixed_bytes_def
      length_address_bytes address_of_bytes_bytes)

lemma map_res_unmarshal:
  assumes "eth_lib_ok L"
  shows "\<forall>ch \<in> set chs. length (ch_Hash ch) = 32 \<Longrightarrow>
    map_res (unmarshal_code_hash L) (map (marshal_code_hash L) chs) = Inr chs"
  by (induction chs) (simp_all add: unmarshal_marshal [OF assms])

lemma saved_code_hashes:
  assumes "eth_lib_ok L" "badger_ok B" "saveCodeHashes L B h chs d = (None, d')"
    and "\<forall>ch \<in> set chs. length (ch_Hash ch) = 32"
  shows "getSavedCodeHashes L B h d' = Inr chs"
proof -
  have "txn_Set B d (getCodeHashesKey L h) (DocVal (JArr (map (marshal_code_hash L) chs))) = Inr d'"
    using assms(3) by (simp add: saveCodeHashes_def db_Update_None)
  from badger_okD(1) [OF assms(2) this] show ?thesis
    by (simp add: getSavedCodeHashes_def map_res_unmarshal [OF assms(1,4)])
qed

lemma getCodeHashes_Inr:
  assumes "\<forall>a \<in> set ic. gc a = Inr (code a)"
  shows "getCodeHashes L ic gc = Inr (map (\<lambda>a. \<lparr>ch_Address = a, ch_Hash = Keccak256 L (code a)\<rparr>) ic)"
  using assms by (induction ic) auto

lemma getCodeHashes_codes:
  "getCodeHashes L ic gc = Inr chs \<Longrightarrow>
    map ch_Address chs = ic \<and> (\<forall>ch \<in> set chs. \<exists>code. gc (ch_Address ch) = Inr code \<and> ch_Hash ch = Keccak256 L code)"
  by (induction ic arbitrary: chs) (auto simp: bind_res_eq_Inr)

lemma fold_code_hashes_other:
  "a \<notin> ch_Address ` set chs \<Longrightarrow> fold (\<lambda>ch m. m(ch_Address ch \<mapsto> ch_Hash ch)) chs m a = m a"
  by (induction chs arbitrary: m) auto

lemma fold_code_hashes:
  assumes "distinct (map ch_Address chs)" "ch \<in> set chs"
  shows "fold (\<lambda>ch m. m(ch_Address ch \<mapsto> ch_Hash ch)) chs m (ch_Address ch) = Some (ch_Hash ch)"
  using assms
proof (induction chs arbitrary: m)
  case (Cons x chs)
  show ?case
  proof (cases "ch = x")
    case True
    with Cons.prems(1) have "ch_Address x \<notin> ch_Address ` set chs" by simp
    from fold_code_hashes_other [OF this] True show ?thesis by (simp only: fold.simps comp_apply fun_upd_same)
  next
    case False
    with Cons show ?thesis by simp
  qed
qed simp

text \<open>With distinct addresses the check compares each saved hash with the current code.\<close>

lemma hasCodeHashChanges_iff:
  assumes "distinct (map ch_Address chs)" "\<forall>ch \<in> set chs. gc (ch_Address ch) = Inr (code (ch_Address ch))"
  shows "hasCodeHashChanges L chs gc
    = Inr (\<exists>ch \<in> set chs. Keccak256 L (code (ch_Address ch)) \<noteq> ch_Hash ch)"
proof -
  have "fold (\<lambda>ch m. m(ch_Address ch \<mapsto> ch_Hash ch)) chs Map.empty (ch_Address ch) = Some (ch_Hash ch)"
    if "ch \<in> set chs" for ch
    by (rule fold_code_hashes [OF assms(1) that])
  moreover have "getCodeHashes L (map ch_Address chs) gc
      = Inr (map (\<lambda>a. \<lparr>ch_Address = a, ch_Hash = Keccak256 L (code a)\<rparr>) (map ch_Address chs))"
    by (rule getCodeHashes_Inr) (use assms(2) in auto)
  ultimately show ?thesis by (auto simp: hasCodeHashChanges_def Let_def)
qed

lemma CodeHashes_filter:
  assumes "\<forall>op \<in> set (Batch c). \<not> HasIntent L op \<longrightarrow>
    bind_res (getSavedCodeHashes L B (GetUserOpHash L op (EntryPoint c) (ChainID c)) (mp_db w)) (\<lambda>chs.
      hasCodeHashChanges L chs (getCodeWithEthClient N)) = Inr (changed op)"
  shows "CodeHashes L B N (w, c) = (None, w,
    c\<lparr>Batch := filter (\<lambda>op. \<not> (\<not> HasIntent L op \<and> changed op)) (Batch c),
      PendingRemoval := PendingRemoval c @ rev (filter (\<lambda>op. \<not> HasIntent L op \<and> changed op) (Batch c))\<rparr>)"
proof -
  let ?P = "\<lambda>op. \<not> HasIntent L op \<and> changed op"
  have step: "\<exists>w'. code_test L B N (EntryPoint c) (ChainID c) i (Batch c ! i) v = (Inr (?P (Batch c ! i)), w') \<and> w' = w"
    if "i < length (Batch c)" "v = w" for i v
    using assms that by (auto simp: code_test_def)
  show ?thesis
    using mark_backwards_filter [where R = "\<lambda>i v. v = w" and c = c and P = ?P and n = "length (Batch c)" and w = w
        and test = "code_test L B N (EntryPoint c) (ChainID c)", OF step]
    by (simp add: CodeHashes_def)
qed

text \<open>The deposit loop marks nothing while every paymaster can pay.\<close>

fun prefunds :: "'y userop_lib_scheme \<Rightarrow> address \<Rightarrow> user_op list \<Rightarrow> int" where
  "prefunds L pm [] = 0"
| "prefunds L pm (op # ops) =
     (if \<not> HasIntent L op \<and> GetPaymaster op = pm then GetMaxPrefund op else 0) + prefunds L pm ops"

lemma prefunds_nonneg: "\<forall>op \<in> set ops. wf_op op \<Longrightarrow> 0 \<le> prefunds L pm ops"
  by (induction ops) (auto simp: GetMaxPrefund_nonneg)

definition can_pay :: "'y userop_lib_scheme \<Rightarrow> node_view \<Rightarrow> address \<Rightarrow> (address \<rightharpoonup> int) \<Rightarrow> user_op list \<Rightarrow> address \<Rightarrow> bool" where
  "can_pay L N entryPoint deps ops pm \<longleftrightarrow>
     (case deps pm of
        Some d \<Rightarrow> prefunds L pm ops \<le> d
      | None \<Rightarrow> (case nv_DepositInfo N entryPoint pm of Inl e \<Rightarrow> False | Inr info \<Rightarrow> prefunds L pm ops \<le> Deposit info))"

lemma can_pay_skip:
  "can_pay L N entryPoint deps (op # ops) pm \<Longrightarrow> HasIntent L op \<or> GetPaymaster op \<noteq> pm \<Longrightarrow>
    can_pay L N entryPoint deps ops pm"
  unfolding can_pay_def by (cases "deps pm"; cases "nv_DepositInfo N entryPoint pm") auto

lemma can_pay_take:
  assumes "can_pay L N entryPoint deps (op # ops) (GetPaymaster op)" "\<not> HasIntent L op"
  shows "\<exists>d. (case deps (GetPaymaster op) of Some d \<Rightarrow> Inr d
      | None \<Rightarrow> map_sum id Deposit (nv_DepositInfo N entryPoint (GetPaymaster op))) = Inr d \<and>
    GetMaxPrefund op + prefunds L (GetPaymaster op) ops \<le> d"
  using assms unfolding can_pay_def
  by (cases "deps (GetPaymaster op)"; cases "nv_DepositInfo N entryPoint (GetPaymaster op)") auto

lemma deposit_loop_enough:
  assumes "\<forall>op \<in> set ops. wf_op op" "\<forall>pm. pm \<noteq> 0 \<longrightarrow> can_pay L N (EntryPoint c) deps ops pm"
  shows "deposit_loop L N i ops deps c = (None, c)"
  using assms
proof (induction ops arbitrary: i deps)
  case (Cons op ops)
  let ?pm = "GetPaymaster op"
  have wf: "\<forall>x \<in> set ops. wf_op x" using Cons.prems(1) by simp
  show ?case
  proof (cases "HasIntent L op \<or> ?pm = 0")
    case True
    have "\<forall>pm. pm \<noteq> 0 \<longrightarrow> can_pay L N (EntryPoint c) deps ops pm"
      using Cons.prems(2) True can_pay_skip by metis
    with True Cons.IH [OF wf this, of "i + 1"] show ?thesis by (auto simp: Let_def)
  next
    case False
    have pay: "can_pay L N (EntryPoint c) deps (op # ops) ?pm" using Cons.prems(2) False by simp
    from can_pay_take [OF pay] False obtain d where
      d: "(case deps ?pm of Some d \<Rightarrow> Inr d
        | None \<Rightarrow> map_sum id Deposit (nv_DepositInfo N (EntryPoint c) ?pm)) = Inr d"
        "GetMaxPrefund op + prefunds L ?pm ops \<le> d" by blast
    have left: "\<not> d - GetMaxPrefund op < 0" using d(2) prefunds_nonneg [OF wf, of L ?pm] by simp
    have "\<forall>pm. pm \<noteq> 0 \<longrightarrow> can_pay L N (EntryPoint c) (deps(?pm \<mapsto> d - GetMaxPrefund op)) ops pm"
    proof (intro allI impI)
      fix pm :: address assume pm: "pm \<noteq> 0"
      show "can_pay L N (EntryPoint c) (deps(?pm \<mapsto> d - GetMaxPrefund op)) ops pm"
      proof (cases "pm = ?pm")
        case True
        with d(2) show ?thesis by (simp add: can_pay_def)
      next
        case other: False
        have "can_pay L N (EntryPoint c) deps ops pm"
          by (rule can_pay_skip [of L N _ deps op]) (use Cons.prems(2) pm other in auto)
        with other show ?thesis by (simp add: can_pay_def)
      qed
    qed
    from Cons.IH [OF wf this, of "i + 1"] show ?thesis
      unfolding deposit_loop.simps Let_def d(1) sum.case using False left by (simp only: de_Morgan_disj if_False)
  qed
qed simp


subsection \<open>What the operation checks accept\<close>

text \<open>
  The conditions on the fields of an operation, each read off the answers of the node. The stakes
  that are read are kept in the context for the simulation.
\<close>

definition fees_ok :: "user_op \<Rightarrow> int option \<Rightarrow> bool" where
  "fees_ok op baseFee \<longleftrightarrow>
     (case baseFee of
        None \<Rightarrow> MaxPriorityFeePerGas op = MaxFeePerGas op
      | Some bf \<Rightarrow> MaxPriorityFeePerGas op \<le> MaxFeePerGas op \<and> bf \<le> MaxFeePerGas op)"

definition replaces :: "user_op \<Rightarrow> user_op \<Rightarrow> bool" where
  "replaces op old \<longleftrightarrow> 110 * MaxFeePerGas old div 100 \<le> MaxFeePerGas op \<and>
     110 * MaxPriorityFeePerGas old div 100 \<le> MaxPriorityFeePerGas op"

definition pending_ok :: "user_op \<Rightarrow> user_op list \<Rightarrow> int \<Rightarrow> bool \<Rightarrow> bool" where
  "pending_ok op penOps maxOps staked \<longleftrightarrow>
     penOps = [] \<or>
     (if \<exists>p \<in> set penOps. Nonce p = Nonce op
      then replaces op (last (filter (\<lambda>p. Nonce p = Nonce op) penOps))
      else staked \<or> int (length penOps) < maxOps)"

definition op_values_ok :: "'y userop_lib_scheme \<Rightarrow> node_view \<Rightarrow> standalone \<Rightarrow> op_ctx \<Rightarrow> bool" where
  "op_values_ok L N s c \<longleftrightarrow>
     (let op = UserOp c; ep = oc_EntryPoint c; intent = HasIntent L op; pm = GetPaymaster op in
      (\<exists>code. nv_CodeAt N (Sender op) = Inr code \<and> (code = [] \<longleftrightarrow> InitCode op \<noteq> [])) \<and>
      (InitCode op = [] \<or> GetFactory op \<noteq> 0 \<and> (\<exists>d. nv_DepositInfo N ep (GetFactory op) = Inr d)) \<and>
      VerificationGasLimit op \<le> st_maxVerificationGas s \<and>
      (intent \<or> (\<exists>pvg. CalcPreVerificationGas L (st_ov s) op = Inr pvg \<and> pvg \<le> PreVerificationGas op)) \<and>
      (PaymasterAndData op = [] \<or> 20 \<le> length (PaymasterAndData op) \<and>
         (\<exists>code. nv_CodeAt N pm = Inr code \<and> code \<noteq> []) \<and>
         (\<exists>d. nv_DepositInfo N ep pm = Inr d \<and> GetMaxPrefund op \<le> Deposit d)) \<and>
      (intent \<or> NonZeroValueCall (st_ov s) \<le> CallGasLimit op) \<and>
      (intent \<or> (\<exists>bf. nv_HeadBaseFee N = Inr bf \<and> fees_ok op bf)) \<and>
      (\<exists>d. nv_DepositInfo N ep (Sender op) = Inr d \<and>
         pending_ok op (pendingOps c) (st_maxOpsForUnstakedSender s) (Staked d)) \<and>
      (\<exists>static. CalcPreVerificationGas L NewDefaultOverhead op = Inr static \<and>
         GetMaxGasAvailable op - PreVerificationGas op + static \<le> st_maxBatchGasLimit s))"

definition reads_stakes :: "node_view \<Rightarrow> op_ctx \<Rightarrow> op_ctx \<Rightarrow> bool" where
  "reads_stakes N c c' \<longleftrightarrow> oc_EntryPoint c' = oc_EntryPoint c \<and> UserOp c' = UserOp c \<and>
     oc_ChainID c' = oc_ChainID c \<and> pendingOps c' = pendingOps c \<and>
     (\<forall>a. deposits c' a = deposits c a \<or>
        (\<exists>d. nv_DepositInfo N (oc_EntryPoint c) a = Inr d \<and> deposits c' a = Some d))"

lemma reads_stakes_refl [simp]: "reads_stakes N c c"
  by (simp add: reads_stakes_def)

lemma reads_stakes_trans: "reads_stakes N a b \<Longrightarrow> reads_stakes N b c \<Longrightarrow> reads_stakes N a c"
  by (simp add: reads_stakes_def) metis

lemma reads_stakes_fields:
  "reads_stakes N c c' \<Longrightarrow> oc_EntryPoint c' = oc_EntryPoint c \<and> UserOp c' = UserOp c \<and> oc_ChainID c' = oc_ChainID c
    \<and> pendingOps c' = pendingOps c"
  by (simp add: reads_stakes_def)

lemma getStake_cases:
  obtains (error) err where "nv_DepositInfo N (oc_EntryPoint c) a = Inl err" "getStakeWithEthClient N a c = (Inl err, c)"
  | (ok) dep where "nv_DepositInfo N (oc_EntryPoint c) a = Inr dep"
      "getStakeWithEthClient N a c = (Inr dep, AddDepositInfo a dep c)" "reads_stakes N c (AddDepositInfo a dep c)"
  by (cases "nv_DepositInfo N (oc_EntryPoint c) a")
    (auto simp: getStakeWithEthClient_def reads_stakes_def AddDepositInfo_def)

lemma find_old_last:
  "find_old n ps old = (if \<exists>p \<in> set ps. Nonce p = n then Some (last (filter (\<lambda>p. Nonce p = n) ps)) else old)"
  by (induction ps arbitrary: old) (auto simp: filter_empty_conv)


lemma ValidateSender_None:
  "ValidateSender op (getCodeWithEthClient N) = None \<longleftrightarrow>
    (\<exists>code. nv_CodeAt N (Sender op) = Inr code \<and> (code = [] \<longleftrightarrow> InitCode op \<noteq> []))"
  by (auto simp: ValidateSender_def getCodeWithEthClient_def split: sum.splits)

lemma ValidateInitCode_None:
  "(fst (ValidateInitCode op (getStakeWithEthClient N) c) = None \<longleftrightarrow>
      InitCode op = [] \<or> GetFactory op \<noteq> 0 \<and> (\<exists>d. nv_DepositInfo N (oc_EntryPoint c) (GetFactory op) = Inr d)) \<and>
    reads_stakes N c (snd (ValidateInitCode op (getStakeWithEthClient N) c))"
  by (cases rule: getStake_cases [of N c "GetFactory op"]) (auto simp: ValidateInitCode_def Let_def)

lemma ValidateVerificationGas_None:
  "ValidateVerificationGas L op ov m = None \<longleftrightarrow> VerificationGasLimit op \<le> m \<and>
    (HasIntent L op \<or> (\<exists>pvg. CalcPreVerificationGas L ov op = Inr pvg \<and> pvg \<le> PreVerificationGas op))"
  by (auto simp: ValidateVerificationGas_def split: sum.splits)

lemma ValidatePaymasterAndData_None:
  "(fst (ValidatePaymasterAndData op (getCodeWithEthClient N) (getStakeWithEthClient N) c) = None \<longleftrightarrow>
      PaymasterAndData op = [] \<or> 20 \<le> length (PaymasterAndData op) \<and>
         (\<exists>code. nv_CodeAt N (GetPaymaster op) = Inr code \<and> code \<noteq> []) \<and>
         (\<exists>d. nv_DepositInfo N (oc_EntryPoint c) (GetPaymaster op) = Inr d \<and> GetMaxPrefund op \<le> Deposit d)) \<and>
    reads_stakes N c (snd (ValidatePaymasterAndData op (getCodeWithEthClient N) (getStakeWithEthClient N) c))"
  by (cases rule: getStake_cases [of N c "GetPaymaster op"])
    (auto simp: ValidatePaymasterAndData_def Let_def getCodeWithEthClient_def split: sum.splits)

lemma ValidateFeePerGas_None:
  "ValidateFeePerGas op (GetBaseFeeWithEthClient r) = None \<longleftrightarrow> (\<exists>bf. r = Inr bf \<and> fees_ok op bf)"
  by (auto simp: ValidateFeePerGas_def GetBaseFeeWithEthClient_def fees_ok_def split: sum.splits option.splits)

lemma ValidatePendingOps_None:
  "(fst (ValidatePendingOps op ps m (getStakeWithEthClient N) c) = None \<longleftrightarrow>
      (\<exists>d. nv_DepositInfo N (oc_EntryPoint c) (Sender op) = Inr d \<and> pending_ok op ps m (Staked d))) \<and>
    reads_stakes N c (snd (ValidatePendingOps op ps m (getStakeWithEthClient N) c)) \<and>
    (fst (ValidatePendingOps op ps m (getStakeWithEthClient N) c) = None \<longrightarrow>
      GetDepositInfo (snd (ValidatePendingOps op ps m (getStakeWithEthClient N) c)) (Sender op)
        = (case nv_DepositInfo N (oc_EntryPoint c) (Sender op) of Inl e \<Rightarrow> None | Inr d \<Rightarrow> Some d))"
  by (cases rule: getStake_cases [of N c "Sender op"])
    (auto simp: ValidatePendingOps_def pending_ok_def replaces_def find_old_last Let_def calcNewThresholds_def
      minPriceBump_def GetDepositInfo_def AddDepositInfo_def)

lemma ValidateGasAvailable_None:
  "ValidateGasAvailable L op m = None \<longleftrightarrow> (\<exists>static. CalcPreVerificationGas L NewDefaultOverhead op = Inr static \<and>
    GetMaxGasAvailable op - PreVerificationGas op + static \<le> m)"
  by (auto simp: ValidateGasAvailable_def Let_def split: sum.splits)

lemmas op_checks_None = ValidateSender_None ValidateInitCode_None ValidateVerificationGas_None
  ValidatePaymasterAndData_None ValidateFeePerGas_None ValidatePendingOps_None ValidateGasAvailable_None


subsection \<open>Properties\<close>



definition sample_node :: node_view where
  "sample_node = \<lparr>nv_NewEntrypoint = (\<lambda>a. None), nv_CodeAt = (\<lambda>a. Inr [1]),
     nv_DepositInfo = (\<lambda>ep a. Inr \<lparr>Deposit = 1000, Staked = True, Stake = 0, UnstakeDelaySec = 0, WithdrawTime = 0\<rparr>),
     nv_HeadBaseFee = Inr (Some 10), nv_simulate = (\<lambda>ep op. None), nv_trace = (\<lambda>ep op. Inl (GoError ''trace''))\<rparr>"

definition sample_standalone :: standalone where
  "sample_standalone = New_standalone NewDefaultOverhead Map.empty 100000 153931 4"

lemma sample_node_simps:
  "nv_NewEntrypoint sample_node a = None" "nv_CodeAt sample_node a = Inr [1]" "nv_HeadBaseFee sample_node = Inr (Some 10)"
  "nv_DepositInfo sample_node ep a
    = Inr \<lparr>Deposit = 1000, Staked = True, Stake = 0, UnstakeDelaySec = 0, WithdrawTime = 0\<rparr>"
  by (simp_all add: sample_node_def)

lemma sample_NonZeroValueCall: "NonZeroValueCall NewDefaultOverhead = 12100"
  using NonZeroValueCall_default [of calcPVGFuncNoop] by (simp add: NewDefaultOverhead_def)

lemma sample_op_values_ok:
  "op_values_ok userop_ref sample_node sample_standalone (NewUserOpHandlerContext (sample_op 5 3) [] 9 1)"
proof -
  have "GetMaxGasAvailable (sample_op 5 3) - PreVerificationGas (sample_op 5 3) = 110000"
    by (simp add: GetMaxGasAvailable_def GetPaymaster_def sample_op_def)
  then show ?thesis
    unfolding op_values_ok_def Let_def
    by (simp add: sample_node_simps sample_standalone_def New_standalone_def NewUserOpHandlerContext_def
        sample_pvg sample_NonZeroValueCall pending_ok_def fees_ok_def) (simp add: sample_op_def)
qed


text \<open>
  An operation whose static gas is exactly the batch limit passes the check of new operations
  (which compares with \<open>>\<close>), but every batch that it heads is emptied by \<open>MaintainGasLimit\<close> (which
  compares with \<open>>=\<close>), and nothing is marked for removal: it is accepted and never included.
\<close>

lemma gas_limit_boundary:
  assumes "batch_gas L op = Inr m" "Batch c = op # ops"
  shows "ValidateGasAvailable L op m = None \<and>
    MaintainGasLimit L m (w, c) = (None, w, c\<lparr>Batch := []\<rparr>)"
proof -
  have "ValidateGasAvailable L op m = None"
    using assms(1) by (auto simp: ValidateGasAvailable_None batch_gas_def bind_res_eq_Inr Let_def)
  then show ?thesis using assms by (simp add: MaintainGasLimit_def)
qed

lemma gas_limit_boundary_example:
  "ValidateGasAvailable userop_ref (sample_op 5 3) 153931 = None \<and>
    MaintainGasLimit userop_ref 153931 ((), sample_ctx [sample_op 5 3]) = (None, (), sample_ctx [sample_op 5 3]\<lparr>Batch := []\<rparr>)"
  by (rule gas_limit_boundary [OF sample_gas, of _ "[]"]) (simp add: sample_ctx_def NewBatchHandlerContext_def)


text \<open>The saved hashes are those of the code that the node reported during the simulation.\<close>

definition code_of :: "node_view \<Rightarrow> address \<Rightarrow> bytes" where
  "code_of N a = (case nv_CodeAt N a of Inl err \<Rightarrow> [] | Inr code \<Rightarrow> code)"

definition hashes_at :: "'y userop_lib_scheme \<Rightarrow> node_view \<Rightarrow> address list \<Rightarrow> code_hash list" where
  "hashes_at L N ic = map (\<lambda>a. \<lparr>ch_Address = a, ch_Hash = Keccak256 L (code_of N a)\<rparr>) ic"

lemma getCodeHashes_hashes_at:
  "getCodeHashes L ic (getCodeWithEthClient N) = Inr chs \<Longrightarrow>
    chs = hashes_at L N ic \<and> (\<forall>a \<in> set ic. nv_CodeAt N a = Inr (code_of N a))"
  by (induction ic arbitrary: chs) (auto simp: hashes_at_def bind_res_eq_Inr getCodeWithEthClient_def code_of_def)

lemma fold_hashes_at:
  "fold (\<lambda>ch m. m(ch_Address ch \<mapsto> ch_Hash ch)) (hashes_at L N ic) m a
    = (if a \<in> set ic then Some (Keccak256 L (code_of N a)) else m a)"
  unfolding hashes_at_def by (induction ic arbitrary: m) auto

lemma hasCodeHashChanges_hashes_at:
  assumes "\<forall>a \<in> set ic. nv_CodeAt N a = Inr (code_of N a)"
  shows "hasCodeHashChanges L (hashes_at L N0 ic) (getCodeWithEthClient N)
    = Inr (\<exists>a \<in> set ic. Keccak256 L (code_of N a) \<noteq> Keccak256 L (code_of N0 a))"
proof -
  have ic: "map ch_Address (hashes_at L N0 ic) = ic" by (simp add: hashes_at_def comp_def)
  have "getCodeHashes L ic (getCodeWithEthClient N)
      = Inr (map (\<lambda>a. \<lparr>ch_Address = a, ch_Hash = Keccak256 L (code_of N a)\<rparr>) ic)"
    by (rule getCodeHashes_Inr) (use assms in \<open>auto simp: getCodeWithEthClient_def\<close>)
  then show ?thesis by (auto simp: hasCodeHashChanges_def Let_def ic fold_hashes_at)
qed

lemma getCodeHashesKey_inject: "eth_lib_ok L \<Longrightarrow> getCodeHashesKey L h = getCodeHashesKey L h' \<longleftrightarrow> h = h'"
  by (simp add: getCodeHashesKey_def JoinValues_def hexutil_Encode_inject)



definition sim_ref :: trace_lib where
  "sim_ref = trace_ref\<lparr>abi_error_Unpack := (\<lambda>name bs. Inr (ArgList
     [AReturn \<lparr>ri_PreOpGas = 1, ri_Prefund = 1, ri_SigFailed = False, ri_ValidAfter = 0, ri_ValidUntil = 100, ri_PaymasterContext = []\<rparr>,
      AStake \<lparr>si_Stake = 0, si_UnstakeDelaySec = 0\<rparr>, AStake \<lparr>si_Stake = 0, si_UnstakeDelaySec = 0\<rparr>,
      AStake \<lparr>si_Stake = 0, si_UnstakeDelaySec = 0\<rparr>]))\<rparr>"

definition sim_node :: node_view where
  "sim_node = sample_node\<lparr>nv_simulate := (\<lambda>ep op. Some (DataError ''execution reverted'' (JStr ''0x''))),
     nv_trace := (\<lambda>ep op. Inr sample_trace)\<rparr>"

lemma sim_ref_simps:
  "abi_error_Unpack sim_ref name bs = Inr (ArgList
     [AReturn \<lparr>ri_PreOpGas = 1, ri_Prefund = 1, ri_SigFailed = False, ri_ValidAfter = 0, ri_ValidUntil = 100, ri_PaymasterContext = []\<rparr>,
      AStake \<lparr>si_Stake = 0, si_UnstakeDelaySec = 0\<rparr>, AStake \<lparr>si_Stake = 0, si_UnstakeDelaySec = 0\<rparr>,
      AStake \<lparr>si_Stake = 0, si_UnstakeDelaySec = 0\<rparr>])"
  "json_return_info sim_ref (AReturn ri) = Inr ri" "json_stake_info sim_ref (AStake si) = Inr si"
  by (simp_all add: sim_ref_def trace_ref_def rev_ref_defs trace_lib.defs)

lemma sim_ref_ok: "eth_lib_ok sim_ref"
  using rev_ref_ok by (simp add: eth_lib_ok_def sim_ref_def trace_ref_def rev_lib.defs trace_lib.defs) metis

lemma sim_ref_HasIntent: "\<not> HasIntent sim_ref (sample_op a n)"
  by (simp add: HasIntent_def sim_ref_def trace_ref_def rev_ref_defs trace_lib.defs userop_ref_def sample_op_def)

abbreviation sample_op_ctx :: op_ctx where
  "sample_op_ctx \<equiv> NewUserOpHandlerContext (sample_op 5 3) [] 9 1"

lemma sim_trace:
  "TraceSimulateValidation sim_ref [''account'', ''factory'', ''paymaster''] (Inr sample_trace)
     \<lparr>ti_EntryPoint = 9, ti_Op = sample_op 5 3, ti_ChainID = 1, ti_Stakes = entity_stakes_of sample_op_ctx,
      ti_AltMempools = Map.empty\<rparr>
   = Inr \<lparr>TouchedContracts = [], AltMempoolIds = []\<rparr>"
proof -
  have stakes: "entity_stakes_of sample_op_ctx = [(5, None), (0, None)]"
    by (simp add: entity_stakes_of_def NewUserOpHandlerContext_def GetFactory_def GetPaymaster_def GetDepositInfo_def sample_op_def)
  have ok: "newKnownEntity (sample_op 5 3) sample_trace [(5, None), (0, None)]
      = Inr (map_of (entities_of (sample_op 5 3) sample_trace [(5, None), (0, None)]))"
    unfolding newKnownEntity_Inr by (simp add: sample_trace_def)
  show ?thesis
    by (simp add: stakes TraceSimulateValidation_def ok Let_def List.map_filter_def entities_of_def
        sample_fields bannedOpCodes_def create2_check_def create2OpCode_def
        newStorageSlotsByEntity_def validator_Process_def entity_validator_def newCallStack_def)
qed

lemma sim_validation:
  "SimulateValidation sim_ref None (Some (DataError ''execution reverted'' (JStr ''0x'')))
    = Inr \<lparr>ReturnInfo = \<lparr>ri_PreOpGas = 1, ri_Prefund = 1, ri_SigFailed = False, ri_ValidAfter = 0, ri_ValidUntil = 100, ri_PaymasterContext = []\<rparr>,
        SenderInfo = \<lparr>si_Stake = 0, si_UnstakeDelaySec = 0\<rparr>, FactoryInfo = \<lparr>si_Stake = 0, si_UnstakeDelaySec = 0\<rparr>,
        PaymasterInfo = \<lparr>si_Stake = 0, si_UnstakeDelaySec = 0\<rparr>\<rparr>"
  by (simp add: SimulateValidation_def NewValidationResult_def revert_bytes_def sim_ref_simps prefix_error_def)



text \<open>
  C8: when every operation of the batch that is not an intent has saved hashes of the code of the
  contracts its simulation touched, \<open>CodeHashes\<close> marks for removal exactly the operations of which
  some contract has now code with another hash, and keeps the others in their order.
\<close>

theorem CodeHashes_filters:
  fixes w :: "('d, 's, 'x) mempool_scheme"
  assumes "\<forall>op \<in> set (Batch c). \<not> HasIntent L op \<longrightarrow>
      getSavedCodeHashes L B (GetUserOpHash L op (EntryPoint c) (ChainID c)) (mp_db w)
        = Inr (hashes_at L (before op) (touched op)) \<and>
      (\<forall>a \<in> set (touched op). nv_CodeAt N a = Inr (code_of N a))"
  shows "CodeHashes L B N (w, c) =
    (let changed = (\<lambda>op. \<not> HasIntent L op \<and>
           (\<exists>a \<in> set (touched op). Keccak256 L (code_of N a) \<noteq> Keccak256 L (code_of (before op) a)))
     in (None, w, c\<lparr>Batch := filter (\<lambda>op. \<not> changed op) (Batch c),
           PendingRemoval := PendingRemoval c @ rev (filter changed (Batch c))\<rparr>))"
  unfolding Let_def
  by (rule CodeHashes_filter) (use assms in \<open>simp add: hasCodeHashChanges_hashes_at\<close>)

definition saved_pool :: "((string \<times> db_value) list, user_op node list) mempool" where
  "saved_pool = \<lparr>mp_db = snd (saveCodeHashes userop_ref badger_ref (GetUserOpHash userop_ref (sample_op 5 3) 9 1)
     (hashes_at userop_ref sample_node [7]) []), mp_queue = Map.empty, mp_content = (\<lambda>ep x. x)\<rparr>"

lemma saved_pool_hashes:
  "getSavedCodeHashes userop_ref badger_ref (GetUserOpHash userop_ref (sample_op 5 3) 9 1) (mp_db saved_pool)
    = Inr (hashes_at userop_ref sample_node [7])"
proof (rule saved_code_hashes [OF userop_ref_ok badger_ref_ok])
  show "saveCodeHashes userop_ref badger_ref (GetUserOpHash userop_ref (sample_op 5 3) 9 1)
      (hashes_at userop_ref sample_node [7]) [] = (None, mp_db saved_pool)"
    by (simp add: saved_pool_def saveCodeHashes_def db_Update_def badger_ref_def)
  show "\<forall>ch \<in> set (hashes_at userop_ref sample_node [7]). length (ch_Hash ch) = 32"
    using eth_lib_okD(6) [OF userop_ref_ok] by (simp add: hashes_at_def)
qed

lemma userop_ref_HasIntent: "\<not> HasIntent userop_ref (sample_op a n)"
  by (simp add: HasIntent_def userop_ref_def sample_op_def)

theorem CodeHashes_filters_witness:
  "CodeHashes userop_ref badger_ref (sample_node\<lparr>nv_CodeAt := \<lambda>a. Inr [2]\<rparr>) (saved_pool, sample_ctx [sample_op 5 3])
    = (None, saved_pool, (sample_ctx [])\<lparr>PendingRemoval := [sample_op 5 3]\<rparr>)"
proof -
  let ?N = "sample_node\<lparr>nv_CodeAt := \<lambda>a. Inr [2]\<rparr>"
  have "\<forall>op \<in> set (Batch (sample_ctx [sample_op 5 3])). \<not> HasIntent userop_ref op \<longrightarrow>
      getSavedCodeHashes userop_ref badger_ref
        (GetUserOpHash userop_ref op (EntryPoint (sample_ctx [sample_op 5 3])) (ChainID (sample_ctx [sample_op 5 3]))) (mp_db saved_pool)
        = Inr (hashes_at userop_ref sample_node [7]) \<and>
      (\<forall>a \<in> set [7]. nv_CodeAt ?N a = Inr (code_of ?N a))"
    by (simp add: sample_ctx_def NewBatchHandlerContext_def saved_pool_hashes code_of_def)
  note CodeHashes_filters [where before = "\<lambda>op. sample_node" and touched = "\<lambda>op. [7]", OF this]
  moreover have "Keccak256 userop_ref [2] \<noteq> Keccak256 userop_ref [1]"
    by (simp add: userop_ref_def eth_ref_def)
  ultimately show ?thesis
    by (simp add: sample_ctx_def NewBatchHandlerContext_def userop_ref_HasIntent code_of_def sample_node_simps)
qed


definition paid_op :: "address \<Rightarrow> address \<Rightarrow> user_op" where
  "paid_op a pm = (sample_op a 1)\<lparr>PaymasterAndData := address_bytes pm\<rparr>"

lemma paid_op_simps:
  "GetPaymaster (paid_op a pm) = pm" "\<not> HasIntent userop_ref (paid_op a pm)" "Sender (paid_op a pm) = a"
  by (simp_all add: paid_op_def GetPaymaster_def sample_op_def length_address_bytes address_of_bytes_bytes HasIntent_def userop_ref_def)

lemma paid_op_prefund: "pm \<noteq> 0 \<Longrightarrow> GetMaxPrefund (paid_op a pm) = 8250000"
  using paid_op_simps(1) [of a pm]
  by (simp add: GetMaxPrefund_def GetMaxGasAvailable_def paid_op_def sample_op_def)


text \<open>
  After two removals \<open>PaymasterDeposit\<close> removes the wrong operation. It indexes the batch as it
  was at the start, but marks in the batch that has already shrunk: of three operations, the first
  two with a paymaster that cannot pay and the third without a paymaster, the first and the third
  are removed and the second, which cannot be paid, stays.
\<close>

lemma PaymasterDeposit_shifts:
  "PaymasterDeposit userop_ref sample_node ((), sample_ctx [paid_op 5 7, paid_op 6 7, sample_op 8 1])
    = (None, (), (sample_ctx [paid_op 6 7])\<lparr>PendingRemoval := [paid_op 5 7, sample_op 8 1]\<rparr>)"
proof -
  have pm: "GetPaymaster (sample_op 8 1) = 0" by (simp add: GetPaymaster_def sample_op_def)
  show ?thesis
    by (simp add: PaymasterDeposit_def sample_ctx_def NewBatchHandlerContext_def paid_op_simps paid_op_prefund pm
        sample_node_simps Let_def MarkOpIndexForRemoval_def)
qed

text \<open>
  After \<open>Clean\<close> has succeeded, no operation of the batch or of the pending removals has saved code
  hashes, and those of all other operations are as before.
\<close>

lemma Clean_forgets:
  assumes "eth_lib_ok L" "badger_ok B" "Clean L B (w, c) = (None, w', c')"
  shows "c' = c \<and>
    (\<forall>op \<in> set (Batch c) \<union> set (PendingRemoval c).
      getSavedCodeHashes L B (GetUserOpHash L op (EntryPoint c) (ChainID c)) (mp_db w') = Inl ErrKeyNotFound) \<and>
    (\<forall>h. h \<notin> (\<lambda>op. GetUserOpHash L op (EntryPoint c) (ChainID c)) ` (set (Batch c) \<union> set (PendingRemoval c)) \<longrightarrow>
      getSavedCodeHashes L B h (mp_db w') = getSavedCodeHashes L B h (mp_db w))"
proof -
  let ?hs = "map (\<lambda>op. GetUserOpHash L op (EntryPoint c) (ChainID c)) (Batch c @ PendingRemoval c)"
  obtain d where d: "removeSavedCodeHashes L B ?hs (mp_db w) = (None, d)" "w' = w\<lparr>mp_db := d\<rparr>" "c' = c"
    using assms(3) by (auto simp: Clean_def Let_def split: prod.splits)
  then have del: "delete_keys B (map (getCodeHashesKey L) ?hs) (mp_db w) = Inr d"
    by (simp add: removeSavedCodeHashes_def db_Update_None)
  note get = delete_keys_Get [OF assms(2) del]
  have gone: "getSavedCodeHashes L B h d = Inl ErrKeyNotFound" if "h \<in> set ?hs" for h
    using get that by (auto simp: getSavedCodeHashes_def)
  have kept: "getSavedCodeHashes L B h d = getSavedCodeHashes L B h (mp_db w)" if "h \<notin> set ?hs" for h
  proof -
    have "getCodeHashesKey L h \<notin> set (map (getCodeHashesKey L) ?hs)"
      using that getCodeHashesKey_inject [OF assms(1)] by auto
    with get show ?thesis by (simp add: getSavedCodeHashes_def)
  qed
  have hs: "set ?hs = (\<lambda>op. GetUserOpHash L op (EntryPoint c) (ChainID c)) ` (set (Batch c) \<union> set (PendingRemoval c))"
    by (simp add: image_Un)
  show ?thesis using gone kept d(2,3) unfolding hs by simp
qed

lemma Clean_forgets_example:
  "getSavedCodeHashes userop_ref badger_ref (GetUserOpHash userop_ref (sample_op 5 3) 9 1)
    (mp_db (fst (snd (Clean userop_ref badger_ref (saved_pool, sample_ctx [sample_op 5 3]))))) = Inl ErrKeyNotFound"
proof -
  obtain e w' c' where r: "Clean userop_ref badger_ref (saved_pool, sample_ctx [sample_op 5 3]) = (e, w', c')"
    by (cases "Clean userop_ref badger_ref (saved_pool, sample_ctx [sample_op 5 3])")
  have "e = None"
    using r by (auto simp: Clean_def Let_def removeSavedCodeHashes_def db_Update_def badger_ref_def
        sample_ctx_def NewBatchHandlerContext_def)
  with r Clean_forgets [OF userop_ref_ok badger_ref_ok, of saved_pool "sample_ctx [sample_op 5 3]" w' c']
  show ?thesis by (simp add: sample_ctx_def NewBatchHandlerContext_def)
qed

end
