(* ===== verification/Paymaster.thy ===== *)
theory Paymaster
  imports Checks
begin

text \<open>
  \<open>pkg/modules/paymaster\<close>: the reputation of paymasters. The database holds, per paymaster, the
  text \<open>opsSeen:opsIncluded:lastUpdated\<close>. Counters are 64-bit integers. \<open>clk i\<close> is the \<open>i\<close>-th reading
  of the clock during a call, in nanoseconds.
\<close>

datatype status = StatusOk | Throttled | Banned

definition minInclusionRateDenominator :: int where "minInclusionRateDenominator = 10"
definition throttlingSlack :: int where "throttlingSlack = 10"
definition banSlack :: int where "banSlack = 50"
definition emaHours :: int where "emaHours = 24"

definition opsCountPrefix :: string where
  "opsCountPrefix = JoinValues [''paymaster'', ''opsCount'']"

definition getOpsCountKey :: "'y eth_lib_scheme \<Rightarrow> address \<Rightarrow> string" where
  "getOpsCountKey L pm = JoinValues [opsCountPrefix, AddressString L pm]"

definition Unix :: "int \<Rightarrow> int" where
  "Unix t = t div 1000000000"

definition getOpsCountValue :: "int \<Rightarrow> int \<Rightarrow> int \<Rightarrow> string" where
  "getOpsCountValue opsSeen opsIncluded now = JoinValues [Itoa opsSeen, Itoa opsIncluded, Itoa (Unix now)]"

text \<open>
  \<open>int(time.Since(t).Hours())\<close>: the duration saturates at the ends of \<open>int64\<close>; its whole hours (the
  \<open>float64\<close> quotient can only round up in the last nanosecond of an hour, after 4096 hours).
\<close>

definition hours_since :: "int \<Rightarrow> int \<Rightarrow> int" where
  "hours_since lastUpdated now =
     go_div (max (- (2 ^ 63)) (min (2 ^ 63 - 1) (now - lastUpdated * 1000000000))) 3600000000000"

fun decay :: "nat \<Rightarrow> int \<Rightarrow> int \<Rightarrow> int \<times> int" where
  "decay 0 opsSeen opsIncluded = (opsSeen, opsIncluded)"
| "decay (Suc i) opsSeen opsIncluded =
     (if opsSeen < 24 \<and> opsIncluded < 24 then (opsSeen, opsIncluded)
      else decay i (opsSeen - go_div opsSeen emaHours) (opsIncluded - go_div opsIncluded emaHours))"

definition read_counts :: "string \<Rightarrow> (int \<times> int \<times> int) res" where
  "read_counts value =
     (let counts = SplitValues value in
      bind_res (Atoi (counts ! 0)) (\<lambda>opsSeen.
      if length counts < 2 then Inl (Panicked ''index out of range'')
      else bind_res (Atoi (counts ! 1)) (\<lambda>opsIncluded.
        if length counts < 3 then Inl (Panicked ''index out of range'')
        else bind_res (ParseInt64 (counts ! 2)) (\<lambda>lastUpdated. Inr (opsSeen, opsIncluded, lastUpdated)))))"

definition applyExpWeights :: "'d badger \<Rightarrow> (nat \<Rightarrow> int) \<Rightarrow> string \<Rightarrow> string \<Rightarrow> 'd \<Rightarrow> (int \<times> int \<times> 'd) res" where
  "applyExpWeights B clk key val txn =
     bind_res (read_counts val) (\<lambda>(opsSeen, opsIncluded, lastUpdated).
     let (opsSeen, opsIncluded) = decay (nat (hours_since lastUpdated (clk 0))) opsSeen opsIncluded in
     bind_res (txn_Set B txn key (TextVal (getOpsCountValue opsSeen opsIncluded (clk 1)))) (\<lambda>txn.
       Inr (opsSeen, opsIncluded, txn)))"

definition getOpsCountByPaymaster :: "'y eth_lib_scheme \<Rightarrow> 'd badger \<Rightarrow> (nat \<Rightarrow> int) \<Rightarrow> address \<Rightarrow> 'd \<Rightarrow>
    (int \<times> int \<times> 'd) res" where
  "getOpsCountByPaymaster L B clk pm txn =
     (let key = getOpsCountKey L pm in
      case txn_Get B txn key of
        Inl err \<Rightarrow> if err = ErrKeyNotFound then Inr (0, 0, txn) else Inl err
      | Inr (TextVal val) \<Rightarrow> applyExpWeights B clk key val txn
      | Inr (DocVal j) \<Rightarrow> Inl (GoError ''strconv.Atoi: parsing: invalid syntax''))"

definition incrementOpsSeenByPaymaster :: "'y eth_lib_scheme \<Rightarrow> 'd badger \<Rightarrow> (nat \<Rightarrow> int) \<Rightarrow> address \<Rightarrow> 'd \<Rightarrow> 'd res" where
  "incrementOpsSeenByPaymaster L B clk pm txn =
     bind_res (getOpsCountByPaymaster L B clk pm txn) (\<lambda>(opsSeen, opsIncluded, txn).
       txn_Set B txn (getOpsCountKey L pm) (TextVal (getOpsCountValue (wrap64 (opsSeen + 1)) opsIncluded (clk 2))))"

type_synonym addressCounter = "string \<rightharpoonup> int"

fun incrementOpsIncludedByPaymasters :: "'y eth_lib_scheme \<Rightarrow> 'd badger \<Rightarrow> (nat \<Rightarrow> int) \<Rightarrow> addressCounter \<Rightarrow>
    address list \<Rightarrow> 'd \<Rightarrow> 'd res" where
  "incrementOpsIncludedByPaymasters L B clk cnt [] txn = Inr txn"
| "incrementOpsIncludedByPaymasters L B clk cnt (pm # pms) txn =
     bind_res (getOpsCountByPaymaster L B clk pm txn) (\<lambda>(opsSeen, opsIncluded, txn).
     let n = (case cnt (AddressString L pm) of None \<Rightarrow> 0 | Some k \<Rightarrow> k) in
     bind_res (txn_Set B txn (getOpsCountKey L pm)
         (TextVal (getOpsCountValue opsSeen (wrap64 (opsIncluded + n)) (clk 2)))) (\<lambda>txn.
       incrementOpsIncludedByPaymasters L B (\<lambda>i. clk (i + 3)) cnt pms txn))"

definition getStatus :: "'y eth_lib_scheme \<Rightarrow> 'd badger \<Rightarrow> (nat \<Rightarrow> int) \<Rightarrow> address \<Rightarrow> 'd \<Rightarrow> (status \<times> 'd) res" where
  "getStatus L B clk pm txn =
     bind_res (getOpsCountByPaymaster L B clk pm txn) (\<lambda>(opsSeen, opsIncluded, txn).
       if opsSeen = 0 then Inr (StatusOk, txn)
       else let minExpectedIncluded = go_div opsSeen minInclusionRateDenominator in
         if minExpectedIncluded \<le> wrap64 (opsIncluded + throttlingSlack) then Inr (StatusOk, txn)
         else if minExpectedIncluded \<le> wrap64 (opsIncluded + banSlack) then Inr (Throttled, txn)
         else Inr (Banned, txn))"

subsection \<open>The modules\<close>

definition CheckStatus :: "'y eth_lib_scheme \<Rightarrow> 'd badger \<Rightarrow> (nat \<Rightarrow> int) \<Rightarrow> ('d, 's, 'x) mempool_scheme op_handler" where
  "CheckStatus L B clk = (\<lambda>(w, c).
     let (e, d) = db_Update B (\<lambda>txn.
           let pm = GetPaymaster (UserOp c) in
           if pm = 0 then Inr txn
           else bind_res (getStatus L B clk pm txn) (\<lambda>(status, txn).
             if status = Banned then Inl (GoError ''paymaster: is currently banned'') else Inr txn)) (mp_db w)
     in (e, w\<lparr>mp_db := d\<rparr>, c))"

definition IncOpsSeen :: "'y eth_lib_scheme \<Rightarrow> 'd badger \<Rightarrow> (nat \<Rightarrow> int) \<Rightarrow> ('d, 's, 'x) mempool_scheme op_handler" where
  "IncOpsSeen L B clk = (\<lambda>(w, c).
     let (e, d) = db_Update B (\<lambda>txn.
           let pm = GetPaymaster (UserOp c) in
           if pm = 0 then Inr txn else incrementOpsSeenByPaymaster L B clk pm txn) (mp_db w)
     in (e, w\<lparr>mp_db := d\<rparr>, c))"

text \<open>\<open>count_ops\<close> is the loop over the batch; \<open>toSlice\<close> is the order in which the set of paymasters is listed.\<close>

fun count_ops :: "'y eth_lib_scheme \<Rightarrow> user_op list \<Rightarrow> addressCounter \<Rightarrow> address set \<Rightarrow> addressCounter \<times> address set" where
  "count_ops L [] c ps = (c, ps)"
| "count_ops L (op # ops) c ps =
     (let pm = GetPaymaster op in
      if pm \<noteq> 0 then
        let key = AddressString L pm;
            c = (if c key = None then c(key \<mapsto> 0) else c)
        in count_ops L ops (c(key \<mapsto> the (c key) + 1)) (insert pm ps)
      else count_ops L ops c ps)"

definition IncOpsIncluded :: "'y eth_lib_scheme \<Rightarrow> 'd badger \<Rightarrow> (address set \<Rightarrow> address list) \<Rightarrow> (nat \<Rightarrow> int) \<Rightarrow>
    ('d, 's, 'x) mempool_scheme batch_handler" where
  "IncOpsIncluded L B toSlice clk = (\<lambda>(w, c).
     let (e, d) = db_Update B (\<lambda>txn.
           let (cnt, ps) = count_ops L (Batch c) Map.empty {} in
           incrementOpsIncludedByPaymasters L B clk cnt (toSlice ps) txn) (mp_db w)
     in (e, w\<lparr>mp_db := d\<rparr>, c))"

interpretation inc_included: marking_module "IncOpsIncluded L B toSlice clk" for L B toSlice clk
  by unfold_locales (auto simp: IncOpsIncluded_def Let_def split: prod.splits)

subsection \<open>Decay\<close>

lemma decay_step_bounds:
  assumes "0 \<le> (x :: int)"
  shows "0 \<le> x - go_div x emaHours" "x - go_div x emaHours \<le> x"
    "24 \<le> x \<Longrightarrow> x - go_div x emaHours < x" "24 \<le> x \<Longrightarrow> 23 \<le> x - go_div x emaHours"
    "x < 24 \<Longrightarrow> x - go_div x emaHours = x"
  using assms by (auto simp: emaHours_def go_div_nonneg)

lemma decay_bounds:
  assumes "0 \<le> s" "0 \<le> i" "decay n s i = (s', i')"
  shows "min s 23 \<le> s' \<and> s' \<le> s \<and> min i 23 \<le> i' \<and> i' \<le> i"
  using assms
proof (induction n s i rule: decay.induct)
  case (2 n s i)
  show ?case
  proof (cases "s < 24 \<and> i < 24")
    case False
    let ?s = "s - go_div s emaHours" and ?i = "i - go_div i emaHours"
    have "decay n ?s ?i = (s', i')" using "2.prems" False by auto
    with "2.IH" False decay_step_bounds [OF "2.prems"(1)] decay_step_bounds [OF "2.prems"(2)]
    have "min ?s 23 \<le> s' \<and> s' \<le> ?s \<and> min ?i 23 \<le> i' \<and> i' \<le> ?i" by simp
    moreover have "min s 23 \<le> min ?s 23" "min i 23 \<le> min ?i 23"
      using decay_step_bounds(4,5) [OF "2.prems"(1)] decay_step_bounds(4,5) [OF "2.prems"(2)] by force+
    ultimately show ?thesis
      using decay_step_bounds(2) [OF "2.prems"(1)] decay_step_bounds(2) [OF "2.prems"(2)] by linarith
  qed (use "2.prems" in auto)
qed auto

lemma decay_stops:
  assumes "0 \<le> s" "0 \<le> i" "nat s + nat i \<le> n"
  shows "fst (decay n s i) < 24 \<and> snd (decay n s i) < 24"
  using assms
proof (induction n s i rule: decay.induct)
  case (2 n s i)
  show ?case
  proof (cases "s < 24 \<and> i < 24")
    case False
    let ?s = "s - go_div s emaHours" and ?i = "i - go_div i emaHours"
    have "?s + ?i < s + i"
      using False decay_step_bounds(2,3) [OF "2.prems"(1)] decay_step_bounds(2,3) [OF "2.prems"(2)] by linarith
    with "2.prems" decay_step_bounds(1) [OF "2.prems"(1)] decay_step_bounds(1) [OF "2.prems"(2)]
    have "nat ?s + nat ?i \<le> n" by linarith
    with "2.IH" [OF False] False decay_step_bounds(1) [OF "2.prems"(1)] decay_step_bounds(1) [OF "2.prems"(2)]
    show ?thesis by simp
  qed auto
qed auto


subsection \<open>The stored counters\<close>

definition has_counts :: "'y eth_lib_scheme \<Rightarrow> 'd badger \<Rightarrow> 'd \<Rightarrow> address \<Rightarrow> int \<Rightarrow> int \<Rightarrow> int \<Rightarrow> bool" where
  "has_counts L B d pm s i t \<longleftrightarrow>
     txn_Get B d (getOpsCountKey L pm) = Inr (TextVal (JoinValues [Itoa s, Itoa i, Itoa t]))"

text \<open>\<open>r\<close> is the entry of a paymaster: none, or its counters and the time of their last update, in range.\<close>

definition known_counts :: "'y eth_lib_scheme \<Rightarrow> 'd badger \<Rightarrow> 'd \<Rightarrow> address \<Rightarrow> (int \<times> int \<times> int) option \<Rightarrow> bool" where
  "known_counts L B d pm r \<longleftrightarrow>
     (case r of
        None \<Rightarrow> txn_Get B d (getOpsCountKey L pm) = Inl ErrKeyNotFound
      | Some (s, i, t) \<Rightarrow> has_counts L B d pm s i t \<and> 0 \<le> s \<and> s < 2 ^ 62 \<and> 0 \<le> i \<and> i < 2 ^ 62 \<and> \<bar>t\<bar> < 2 ^ 62)"

definition aged :: "(int \<times> int \<times> int) option \<Rightarrow> int \<Rightarrow> int \<times> int" where
  "aged r now = (case r of None \<Rightarrow> (0, 0) | Some (s, i, t) \<Rightarrow> decay (nat (hours_since t now)) s i)"

lemma aged_bounds:
  assumes "known_counts L B d pm r" "aged r now = (s', i')"
  shows "0 \<le> s' \<and> s' < 2 ^ 62 \<and> 0 \<le> i' \<and> i' < 2 ^ 62"
proof (cases r)
  case (Some p)
  obtain s i t where "p = (s, i, t)" by (cases p)
  with Some assms show ?thesis using decay_bounds [of s i "nat (hours_since t now)" s' i']
    by (simp add: known_counts_def aged_def) linarith
qed (use assms in \<open>simp add: aged_def\<close>)

lemma read_counts_Join:
  assumes "\<bar>s\<bar> < 2 ^ 63" "\<bar>i\<bar> < 2 ^ 63" "\<bar>t\<bar> < 2 ^ 63"
  shows "read_counts (JoinValues [Itoa s, Itoa i, Itoa t]) = Inr (s, i, t)"
proof -
  have "SplitValues (JoinValues [Itoa s, Itoa i, Itoa t]) = [Itoa s, Itoa i, Itoa t]"
    by (simp add: SplitValues_def JoinValues_def Split1_sep Split1_no_sep)
  then show ?thesis using assms by (simp add: read_counts_def ParseInt64_Itoa)
qed

lemma getOpsCountKey_inject: "eth_lib_ok L \<Longrightarrow> getOpsCountKey L a = getOpsCountKey L b \<longleftrightarrow> a = b"
  by (simp add: getOpsCountKey_def JoinValues_def AddressString_inject)

lemma getOpsCount_known:
  assumes "badger_ok B" "known_counts L B d pm r" "getOpsCountByPaymaster L B clk pm d = Inr (s, i, d')"
  shows "(s, i) = aged r (clk 0) \<and> (\<forall>k. k \<noteq> getOpsCountKey L pm \<longrightarrow> txn_Get B d' k = txn_Get B d k) \<and>
    (if r = None then d' = d else has_counts L B d' pm s i (Unix (clk 1)))"
proof (cases r)
  case None
  with assms(2,3) show ?thesis
    by (simp add: known_counts_def aged_def getOpsCountByPaymaster_def)
next
  case (Some p)
  obtain s0 i0 t0 where p: "p = (s0, i0, t0)" by (cases p)
  with Some assms(2) have known: "has_counts L B d pm s0 i0 t0"
    and range: "\<bar>s0\<bar> < 2 ^ 63" "\<bar>i0\<bar> < 2 ^ 63" "\<bar>t0\<bar> < 2 ^ 63"
    by (auto simp: known_counts_def)
  from known assms(3) have set: "txn_Set B d (getOpsCountKey L pm) (TextVal (getOpsCountValue s i (clk 1))) = Inr d'"
    "(s, i) = decay (nat (hours_since t0 (clk 0))) s0 i0"
    by (auto simp: getOpsCountByPaymaster_def has_counts_def applyExpWeights_def read_counts_Join [OF range]
        bind_res_eq_Inr Let_def split: prod.splits)
  with badger_okD(1,2) [OF assms(1) set(1)] Some p show ?thesis
    by (simp add: aged_def has_counts_def getOpsCountValue_def)
qed

lemma incrementOpsSeen_known:
  assumes "badger_ok B" "known_counts L B d pm r" "incrementOpsSeenByPaymaster L B clk pm d = Inr d'"
    and "aged r (clk 0) = (s, i)"
  shows "has_counts L B d' pm (s + 1) i (Unix (clk 2)) \<and>
    (\<forall>k. k \<noteq> getOpsCountKey L pm \<longrightarrow> txn_Get B d' k = txn_Get B d k)"
proof -
  from assms(3) obtain s' i' d1 where get: "getOpsCountByPaymaster L B clk pm d = Inr (s', i', d1)"
    and set: "txn_Set B d1 (getOpsCountKey L pm) (TextVal (getOpsCountValue (wrap64 (s' + 1)) i' (clk 2))) = Inr d'"
    by (auto simp: incrementOpsSeenByPaymaster_def bind_res_eq_Inr)
  note known = getOpsCount_known [OF assms(1,2) get]
  then have eq: "s' = s" "i' = i" using assms(4) by auto
  have "wrap64 (s + 1) = s + 1" using aged_bounds [OF assms(2,4)] by (intro wrap64_id) auto
  with known eq badger_okD(1,2) [OF assms(1) set] show ?thesis
    by (simp add: has_counts_def getOpsCountValue_def)
qed

lemma known_counts_frame:
  "txn_Get B d' (getOpsCountKey L pm) = txn_Get B d (getOpsCountKey L pm) \<Longrightarrow>
    known_counts L B d' pm r = known_counts L B d pm r"
  by (cases r) (auto simp: known_counts_def has_counts_def)

lemma incrementOpsIncluded_known:
  assumes "eth_lib_ok L" "badger_ok B" "distinct pms" "\<forall>pm \<in> set pms. known_counts L B d pm (r pm)"
    and "\<forall>pm \<in> set pms. \<exists>n. cnt (AddressString L pm) = Some (int n) \<and> n < 2 ^ 62"
    and "incrementOpsIncludedByPaymasters L B clk cnt pms d = Inr d'"
  shows "(\<forall>pm \<in> set pms. \<exists>j. has_counts L B d' pm (fst (aged (r pm) (clk j)))
        (snd (aged (r pm) (clk j)) + the (cnt (AddressString L pm))) (Unix (clk (j + 2)))) \<and>
    (\<forall>k. k \<notin> getOpsCountKey L ` set pms \<longrightarrow> txn_Get B d' k = txn_Get B d k)"
  using assms(3-6)
proof (induction pms arbitrary: d clk)
  case (Cons pm pms)
  from Cons.prems(3) obtain n where n: "cnt (AddressString L pm) = Some (int n)" "n < 2 ^ 62" by auto
  from Cons.prems(4) n obtain s i d1 d2 where get: "getOpsCountByPaymaster L B clk pm d = Inr (s, i, d1)"
    and set: "txn_Set B d1 (getOpsCountKey L pm) (TextVal (getOpsCountValue s (wrap64 (i + int n)) (clk 2))) = Inr d2"
    and rest: "incrementOpsIncludedByPaymasters L B (\<lambda>i. clk (i + 3)) cnt pms d2 = Inr d'"
    by (auto simp: bind_res_eq_Inr Let_def)
  have known: "known_counts L B d pm (r pm)" using Cons.prems(2) by simp
  note g = getOpsCount_known [OF assms(2) known get]
  have wrap: "wrap64 (i + int n) = i + int n"
    using aged_bounds [OF known, of "clk 0" s i] g n(2) by (intro wrap64_id) auto
  have other: "txn_Get B d2 k = txn_Get B d k" if "k \<noteq> getOpsCountKey L pm" for k
    using g badger_okD(2) [OF assms(2) set] that by simp
  have here: "has_counts L B d2 pm s (i + int n) (Unix (clk 2))"
    using badger_okD(1) [OF assms(2) set] by (simp add: has_counts_def getOpsCountValue_def wrap)
  have "\<forall>x \<in> set pms. known_counts L B d2 x (r x)"
  proof
    fix x assume x: "x \<in> set pms"
    then have "x \<noteq> pm" using Cons.prems(1) by auto
    then have "getOpsCountKey L x \<noteq> getOpsCountKey L pm" by (simp add: getOpsCountKey_inject [OF assms(1)])
    from known_counts_frame [OF other [OF this], of "r x"] show "known_counts L B d2 x (r x)"
      using Cons.prems(2) x by simp
  qed
  with Cons.IH [OF _ _ _ rest] Cons.prems(1,3)
  have IH: "\<forall>x \<in> set pms. \<exists>j. has_counts L B d' x (fst (aged (r x) (clk (j + 3))))
        (snd (aged (r x) (clk (j + 3))) + the (cnt (AddressString L x))) (Unix (clk (j + 2 + 3)))"
    and frame: "\<forall>k. k \<notin> getOpsCountKey L ` set pms \<longrightarrow> txn_Get B d' k = txn_Get B d2 k"
    by simp_all
  have "getOpsCountKey L pm \<notin> getOpsCountKey L ` set pms"
    using Cons.prems(1) by (auto simp: getOpsCountKey_inject [OF assms(1)])
  then have "has_counts L B d' pm s (i + int n) (Unix (clk 2))"
    using frame here by (simp add: has_counts_def)
  then have first: "\<exists>j. has_counts L B d' pm (fst (aged (r pm) (clk j)))
        (snd (aged (r pm) (clk j)) + the (cnt (AddressString L pm))) (Unix (clk (j + 2)))"
    using g n(1) by (intro exI [of _ 0]) (metis add_0 fst_conv snd_conv option.sel)
  have others: "\<exists>j. has_counts L B d' x (fst (aged (r x) (clk j)))
        (snd (aged (r x) (clk j)) + the (cnt (AddressString L x))) (Unix (clk (j + 2)))" if "x \<in> set pms" for x
  proof -
    from IH that obtain j where "has_counts L B d' x (fst (aged (r x) (clk (j + 3))))
        (snd (aged (r x) (clk (j + 3))) + the (cnt (AddressString L x))) (Unix (clk (j + 2 + 3)))" by blast
    then show ?thesis by (intro exI [of _ "j + 3"]) (simp add: add.commute add.left_commute)
  qed
  show ?case using first others frame other by simp
qed simp

lemma count_ops_count:
  assumes "eth_lib_ok L" "pm \<noteq> 0"
  shows "(case fst (count_ops L ops c ps) (AddressString L pm) of None \<Rightarrow> 0 | Some n \<Rightarrow> n)
    = (case c (AddressString L pm) of None \<Rightarrow> 0 | Some n \<Rightarrow> n) + int (length (filter (\<lambda>op. GetPaymaster op = pm) ops)) \<and>
    (pm \<in> GetPaymaster ` set ops \<or> c (AddressString L pm) \<noteq> None \<longrightarrow> fst (count_ops L ops c ps) (AddressString L pm) \<noteq> None)"
  by (induction ops arbitrary: c ps)
    (auto simp: Let_def AddressString_inject [OF assms(1)] assms(2) split: option.splits)

lemma count_ops_set: "snd (count_ops L ops c ps) = ps \<union> (GetPaymaster ` set ops - {0})"
  by (induction ops arbitrary: c ps) (auto simp: Let_def)


subsection \<open>Properties\<close>

text \<open>
  C25: \<open>IncOpsIncluded\<close> adds to the counter of included operations of each paymaster of the batch the
  number of its operations in the batch, after the decay for the hours since the last update, and
  touches no other key of the database; \<open>toSlice\<close> may list the paymasters in any order.
\<close>

theorem IncOpsIncluded_counts:
  fixes w :: "('d, 's, 'x) mempool_scheme"
  assumes "eth_lib_ok L" "badger_ok B" "\<forall>S. finite S \<longrightarrow> set (toSlice S) = S \<and> distinct (toSlice S)"
    and "length (Batch c) < 2 ^ 62"
    and "\<forall>pm \<in> GetPaymaster ` set (Batch c) - {0}. known_counts L B (mp_db w) pm (r pm)"
    and "IncOpsIncluded L B toSlice clk (w, c) = (None, w', c')"
  shows "c' = c \<and>
    (\<forall>pm \<in> GetPaymaster ` set (Batch c) - {0}. \<exists>j.
      has_counts L B (mp_db w') pm (fst (aged (r pm) (clk j)))
        (snd (aged (r pm) (clk j)) + int (length (filter (\<lambda>op. GetPaymaster op = pm) (Batch c)))) (Unix (clk (j + 2)))) \<and>
    (\<forall>k. k \<notin> getOpsCountKey L ` (GetPaymaster ` set (Batch c) - {0}) \<longrightarrow>
      txn_Get B (mp_db w') k = txn_Get B (mp_db w) k)"
proof -
  obtain cnt ps where c: "count_ops L (Batch c) Map.empty {} = (cnt, ps)" by (cases "count_ops L (Batch c) Map.empty {}")
  let ?ps = "GetPaymaster ` set (Batch c) - {0}"
  let ?n = "\<lambda>pm. length (filter (\<lambda>op. GetPaymaster op = pm) (Batch c))"
  have ps: "ps = ?ps" using count_ops_set [of L "Batch c" Map.empty "{}"] c by simp
  have slice: "set (toSlice ps) = ?ps" "distinct (toSlice ps)" using assms(3) ps by simp_all
  have cnt: "cnt (AddressString L pm) = Some (int (?n pm))" if "pm \<in> ?ps" for pm
    using count_ops_count [OF assms(1), of pm "Batch c" Map.empty "{}"] c that by (auto split: option.splits)
  have "?n pm < 2 ^ 62" for pm
    using assms(4) length_filter_le [of "\<lambda>op. GetPaymaster op = pm" "Batch c"] by linarith
  with cnt have cnt': "\<forall>pm \<in> set (toSlice ps). \<exists>n. cnt (AddressString L pm) = Some (int n) \<and> n < 2 ^ 62"
    unfolding slice(1) by blast
  obtain d where run: "incrementOpsIncludedByPaymasters L B clk cnt (toSlice ps) (mp_db w) = Inr d"
    and res: "w' = w\<lparr>mp_db := d\<rparr>" "c' = c"
    using assms(6) by (auto simp: IncOpsIncluded_def c Let_def db_Update_None split: prod.splits)
  have "\<forall>pm \<in> set (toSlice ps). known_counts L B (mp_db w) pm (r pm)" unfolding slice(1) by (rule assms(5))
  from incrementOpsIncluded_known [OF assms(1,2) slice(2) this cnt' run] show ?thesis
    unfolding slice(1) res using cnt by auto
qed

definition pool0 :: "((string \<times> db_value) list, user_op node list) mempool" where
  "pool0 = \<lparr>mp_db = [], mp_queue = Map.empty, mp_content = (\<lambda>ep x. x)\<rparr>"

lemma pool0_known: "known_counts userop_ref badger_ref (mp_db pool0) pm None"
  by (simp add: known_counts_def pool0_def badger_ref_def)

lemma toSlice_ok: "\<forall>S :: address set. finite S \<longrightarrow> set (sorted_list_of_set S) = S \<and> distinct (sorted_list_of_set S)"
  by simp

theorem IncOpsIncluded_counts_witness:
  "has_counts userop_ref badger_ref
    (mp_db (fst (snd (IncOpsIncluded userop_ref badger_ref sorted_list_of_set (\<lambda>i. 5000000000) (pool0, sample_ctx [paid_op 5 7, paid_op 6 7])))))
    7 0 2 5"
proof -
  let ?c = "sample_ctx [paid_op 5 7, paid_op 6 7]"
  have batch: "Batch ?c = [paid_op 5 7, paid_op 6 7]" by (simp add: sample_ctx_def NewBatchHandlerContext_def)
  obtain e w' c' where r: "IncOpsIncluded userop_ref badger_ref sorted_list_of_set (\<lambda>i. 5000000000) (pool0, ?c) = (e, w', c')"
    by (cases "IncOpsIncluded userop_ref badger_ref sorted_list_of_set (\<lambda>i. 5000000000) (pool0, ?c)")
  have "e = None"
    using r by (auto simp: IncOpsIncluded_def batch paid_op_simps Let_def db_Update_def badger_ref_def pool0_def
        getOpsCountByPaymaster_def)
  with r have r': "IncOpsIncluded userop_ref badger_ref sorted_list_of_set (\<lambda>i. 5000000000) (pool0, ?c) = (None, w', c')"
    by simp
  have "length (Batch ?c) < 2 ^ 62"
    "\<forall>pm \<in> GetPaymaster ` set (Batch ?c) - {0}. known_counts userop_ref badger_ref (mp_db pool0) pm None"
    by (simp_all add: batch pool0_known)
  from IncOpsIncluded_counts [where r = "\<lambda>pm. None", OF userop_ref_ok badger_ref_ok toSlice_ok this r'] r
  show ?thesis by (simp add: batch paid_op_simps aged_def Unix_def)
qed

definition badger_total :: "'d badger \<Rightarrow> bool" where
  "badger_total B \<longleftrightarrow> (\<forall>d k v. \<exists>d'. txn_Set B d k v = Inr d') \<and> (\<forall>d. db_Commit B d = None)"

lemma badger_ref_total: "badger_total badger_ref"
  by (simp add: badger_total_def badger_ref_def)

lemma getOpsCount_total:
  assumes "badger_total B" "known_counts L B d pm r"
  shows "\<exists>s i d'. getOpsCountByPaymaster L B clk pm d = Inr (s, i, d')"
proof (cases r)
  case (Some p)
  obtain s i t where "p = (s, i, t)" by (cases p)
  with Some assms have known: "has_counts L B d pm s i t" "\<bar>s\<bar> < 2 ^ 63" "\<bar>i\<bar> < 2 ^ 63" "\<bar>t\<bar> < 2 ^ 63"
    by (auto simp: known_counts_def)
  obtain s' i' where "decay (nat (hours_since t (clk 0))) s i = (s', i')"
    by (cases "decay (nat (hours_since t (clk 0))) s i")
  moreover obtain d' where "txn_Set B d (getOpsCountKey L pm) (TextVal (getOpsCountValue s' i' (clk 1))) = Inr d'"
    using assms(1) unfolding badger_total_def by blast
  ultimately show ?thesis using known(1)
    by (simp add: getOpsCountByPaymaster_def has_counts_def applyExpWeights_def read_counts_Join [OF known(2-)] Let_def)
qed (use assms(2) in \<open>simp add: getOpsCountByPaymaster_def known_counts_def\<close>)


definition pool_counts :: "int \<Rightarrow> int \<Rightarrow> int \<Rightarrow> ((string \<times> db_value) list, user_op node list) mempool" where
  "pool_counts s i t = \<lparr>mp_db = [(getOpsCountKey userop_ref 7, TextVal (JoinValues [Itoa s, Itoa i, Itoa t]))], mp_queue = Map.empty, mp_content = (\<lambda>ep x. x)\<rparr>"

lemma pool_counts_known:
  "0 \<le> s \<Longrightarrow> s < 2 ^ 62 \<Longrightarrow> 0 \<le> i \<Longrightarrow> i < 2 ^ 62 \<Longrightarrow> \<bar>t\<bar> < 2 ^ 62 \<Longrightarrow>
    known_counts userop_ref badger_ref (mp_db (pool_counts s i t)) 7 (Some (s, i, t))"
  by (simp add: known_counts_def pool_counts_def badger_ref_def has_counts_def)


fun seen_run :: "'y eth_lib_scheme \<Rightarrow> 'd badger \<Rightarrow> address \<Rightarrow> int list \<Rightarrow> 'd \<Rightarrow> 'd res" where
  "seen_run L B pm [] d = Inr d"
| "seen_run L B pm (now # ts) d = bind_res (incrementOpsSeenByPaymaster L B (\<lambda>i. now) pm d) (seen_run L B pm ts)"

fun within_hours :: "int \<Rightarrow> int list \<Rightarrow> bool" where
  "within_hours t [] = True"
| "within_hours t (now # ts) \<longleftrightarrow> t * 1000000000 \<le> now \<and> now < (t + 3600) * 1000000000 \<and>
     now < 2 ^ 62 \<and> within_hours (Unix now) ts"

text \<open>
  The decay never applies to a paymaster that is used often: every access stores the current
  time as the last update, also when less than an hour has passed, so after any number of
  operations, each less than an hour after the one before, the counter of operations seen has
  grown by exactly their number, whatever the total time.
\<close>

lemma IncOpsSeen_no_decay:
  assumes "badger_ok B" "has_counts L B d pm s i t" "0 \<le> s" "s + int (length ts) < 2 ^ 62" "0 \<le> i" "i < 2 ^ 62"
    and "0 \<le> t" "t < 2 ^ 62" "within_hours t ts" "seen_run L B pm ts d = Inr d'"
  shows "\<exists>t'. has_counts L B d' pm (s + int (length ts)) i t'"
  using assms(2-4,7-)
proof (induction ts arbitrary: d s t)
  case (Cons now ts)
  from Cons.prems(7) obtain d1 where d1: "incrementOpsSeenByPaymaster L B (\<lambda>i. now) pm d = Inr d1" "seen_run L B pm ts d1 = Inr d'"
    by (auto simp: bind_res_eq_Inr)
  have known: "known_counts L B d pm (Some (s, i, t))" using Cons.prems assms(5,6) by (simp add: known_counts_def)
  have "0 \<le> now - t * 1000000000" "now - t * 1000000000 < 3600000000000" using Cons.prems(6) by auto
  then have "hours_since t now = 0" by (simp add: hours_since_def go_div_nonneg)
  then have "aged (Some (s, i, t)) now = (s, i)" by (simp add: aged_def)
  from incrementOpsSeen_known [OF assms(1) known d1(1) this]
  have step: "has_counts L B d1 pm (s + 1) i (Unix now)" by simp
  have "0 \<le> Unix now" "Unix now < 2 ^ 62" using Cons.prems(4,6) by (auto simp: Unix_def)
  with Cons.IH [OF step _ _ _ _ _ d1(2)] Cons.prems show ?case by (simp add: add.assoc)
qed auto

lemma IncOpsSeen_no_decay_example:
  "\<exists>d' t'. seen_run userop_ref badger_ref 7 [3599000000000, 7198000000000] (mp_db (pool_counts 600 11 0)) = Inr d' \<and>
    has_counts userop_ref badger_ref d' 7 602 11 t'"
proof -
  have "read_counts (JoinValues [Itoa 600, Itoa 11, Itoa 0]) = Inr (600, 11, 0)"
    by (rule read_counts_Join) simp_all
  moreover have "hours_since 0 3599000000000 = 0" "hours_since 3599 7198000000000 = 0"
    by (simp_all add: hours_since_def go_div_def)
  moreover have "read_counts (JoinValues [Itoa 601, Itoa 11, Itoa 3599]) = Inr (601, 11, 3599)"
    by (rule read_counts_Join) simp_all
  ultimately obtain d' where d': "seen_run userop_ref badger_ref 7 [3599000000000, 7198000000000] (mp_db (pool_counts 600 11 0)) = Inr d'"
    by (simp add: incrementOpsSeenByPaymaster_def getOpsCountByPaymaster_def applyExpWeights_def pool_counts_def
        badger_ref_def getOpsCountValue_def Unix_def wrap64_id)
  have "has_counts userop_ref badger_ref (mp_db (pool_counts 600 11 0)) 7 600 11 0"
    by (simp add: has_counts_def pool_counts_def badger_ref_def)
  from IncOpsSeen_no_decay [OF badger_ref_ok this _ _ _ _ _ _ _ d'] d' show ?thesis
    by (simp add: Unix_def)
qed

end
