(* ===== verification/Sending.thy ===== *)
theory Sending
  imports Transaction Paymaster
begin

text \<open>
  \<open>pkg/modules/relay\<close> and \<open>pkg/modules/builder\<close>: the modules that send a batch. Their estimation
  loops need not end, so a module is here a function to an option: \<open>None\<close> is a call that does not
  return. \<open>batch_runner\<close> is what the bundler needs of the composed modules: the contract of
  \<open>batch_module\<close> for the context, and that the pool is left alone.
\<close>

type_synonym 'w batch_run = "'w \<times> batch_ctx \<Rightarrow> (go_error option \<times> ('w \<times> batch_ctx)) option"

definition returns :: "'w batch_handler \<Rightarrow> 'w batch_run" where
  "returns h s = Some (h s)"

fun compose_runs :: "'w batch_run list \<Rightarrow> 'w batch_run" where
  "compose_runs [] s = Some (None, s)"
| "compose_runs (fn # fns) s =
     (case fn s of
        None \<Rightarrow> None
      | Some (Some err, s') \<Rightarrow> Some (Some err, s')
      | Some (None, s') \<Rightarrow> compose_runs fns s')"

text \<open>Composing handlers that return agrees with the composition of handlers.\<close>

lemma compose_runs_returns: "compose_runs (map returns fns) s = Some (compose_handlers fns s)"
  by (induction fns arbitrary: s) (auto simp: returns_def split: prod.splits option.splits)

lemma compose_runs_single [simp]: "compose_runs [h] = h"
  by (rule ext) (auto split: option.splits prod.splits)

lemma compose_runs_append:
  "compose_runs (fns @ gns) s = (case compose_runs fns s of
     Some (None, s') \<Rightarrow> compose_runs gns s' | r \<Rightarrow> r)"
  by (induction fns arbitrary: s) (auto split: option.splits prod.splits)

subsection \<open>The contract of a running module\<close>

text \<open>
  The queues and the database keys of the pool are as before, and no sender or nonce of an operation is
  written.
\<close>

definition pool_step :: "'d badger \<Rightarrow> ('d, 's, 'x) mempool_scheme \<Rightarrow> ('d, 's, 'x) mempool_scheme \<Rightarrow> bool" where
  "pool_step B w w' \<longleftrightarrow> mp_queue w' = mp_queue w \<and>
     (\<forall>k. prefix mempool_keyPrefix k \<longrightarrow> txn_Get B (mp_db w') k = txn_Get B (mp_db w) k) \<and>
     (\<forall>ep x. op_id (mp_content w' ep x) = op_id (mp_content w ep x))"

lemma pool_step_refl [simp]: "pool_step B w w"
  by (simp add: pool_step_def)

lemma pool_step_trans: "pool_step B u v \<Longrightarrow> pool_step B v w \<Longrightarrow> pool_step B u w"
  by (auto simp: pool_step_def)

lemma pool_step_write: "op_id new = op_id old \<Longrightarrow> pool_step B w (write_object ep old new w)"
  by (auto simp: pool_step_def write_object_def)

lemma pool_step_inv:
  assumes "pool_step B w w'" "pool_inv L B S nodes w"
  shows "pool_inv L B S nodes w'" "pool_stored L nodes w' = pool_stored L nodes w"
  using assms by (simp_all add: pool_step_def pool_inv_def pool_stored_def db_agrees_def content_ok_def op_id_def)

text \<open>No operation is written at all.\<close>

definition pool_same :: "'d badger \<Rightarrow> ('d, 's, 'x) mempool_scheme \<Rightarrow> ('d, 's, 'x) mempool_scheme \<Rightarrow> bool" where
  "pool_same B w w' \<longleftrightarrow> pool_step B w w' \<and> mp_content w' = mp_content w"

lemma pool_same_refl [simp]: "pool_same B w w"
  by (simp add: pool_same_def)

lemma pool_same_trans: "pool_same B u v \<Longrightarrow> pool_same B v w \<Longrightarrow> pool_same B u w"
  by (auto simp: pool_same_def intro: pool_step_trans)

lemma pool_same_inv:
  assumes "pool_same B w w'" "pool_inv L B S nodes w"
  shows "pool_inv L B S nodes w'" "pool_look L nodes w' = pool_look L nodes w"
  using pool_step_inv [of B w w' L S nodes] assms by (simp_all add: pool_same_def pool_look_def pool_stored_def)

text \<open>The operations keep their places in the pool.\<close>

lemma pool_step_dump:
  "pool_step B w w' \<Longrightarrow> map op_id (fst (Dump S ep w')) = map op_id (fst (Dump S ep w))"
  by (simp add: pool_step_def Dump_fst comp_def)

lemma same_ids_set: "map f xs = map f ys \<Longrightarrow> f ` set xs = f ` set ys"
  by (metis set_map)

locale batch_runner =
  fixes B :: "'d badger" and run :: "('d, 's, 'x) mempool_scheme batch_run"
  assumes run_ctx: "run (w, c) = Some (e, w', c') \<Longrightarrow> ctx_step c c'"
    and run_pool: "run (w, c) = Some (e, w', c') \<Longrightarrow> pool_step B w w'"
begin

lemma run_ids:
  assumes "run (w, c) = Some (e, w', c')"
  shows "op_id ` (set (Batch c') \<union> set (PendingRemoval c')) \<subseteq> op_id ` (set (Batch c) \<union> set (PendingRemoval c))"
proof -
  have "batch_ids c' \<subseteq># batch_ids c" using run_ctx [OF assms] by (simp add: ctx_step_def)
  from set_mset_mono [OF this] show ?thesis by (auto simp: batch_ids_def image_Un)
qed

lemma run_pool_inv:
  assumes "run (w, c) = Some (e, w', c')" "pool_inv L B S nodes w"
  shows "pool_inv L B S nodes w'" "map op_id (fst (Dump S ep w')) = map op_id (fst (Dump S ep w))"
  using pool_step_inv(1) [OF run_pool [OF assms(1)] assms(2)] pool_step_dump [OF run_pool [OF assms(1)]] by simp_all

end

lemma compose_batch_runner:
  assumes "\<forall>run \<in> set fns. batch_runner B run"
  shows "batch_runner B (compose_runs fns)"
proof
  fix w c e w' c'
  assume run: "compose_runs fns (w, c) = Some (e, w', c')"
  have "ctx_step c c' \<and> pool_step B w w'"
    using run assms
  proof (induction fns arbitrary: w c)
    case (Cons h fns)
    obtain e1 w1 c1 where h: "h (w, c) = Some (e1, w1, c1)"
      using Cons.prems(1) by (auto split: option.splits prod.splits)
    have "batch_runner B h" using Cons.prems(2) by simp
    from batch_runner.run_ctx [OF this h] batch_runner.run_pool [OF this h]
    have first: "ctx_step c c1" "pool_step B w w1" .
    show ?case
    proof (cases e1)
      case None
      have "compose_runs fns (w1, c1) = Some (e, w', c')" using Cons.prems(1) h None by simp
      from Cons.IH [OF this] Cons.prems(2) first show ?thesis by (auto intro: ctx_step_trans pool_step_trans)
    next
      case (Some err)
      with Cons.prems(1) h first show ?thesis by simp
    qed
  qed simp
  then show "ctx_step c c'" "pool_step B w w'" by blast+
qed

lemma returns_runner:
  assumes "batch_module h" "\<And>w c e w' c'. h (w, c) = (e, w', c') \<Longrightarrow> pool_step B w w'"
  shows "batch_runner B (returns h)"
  using assms by unfold_locales (auto simp: returns_def batch_module_def)

text \<open>Modules that read or write other keys of the database.\<close>

lemma pool_step_db: "(\<And>k. prefix mempool_keyPrefix k \<Longrightarrow> txn_Get B d k = txn_Get B (mp_db w) k) \<Longrightarrow>
    pool_step B w (w\<lparr>mp_db := d\<rparr>)"
  by (simp add: pool_step_def)

lemma pool_same_db: "(\<And>k. prefix mempool_keyPrefix k \<Longrightarrow> txn_Get B d k = txn_Get B (mp_db w) k) \<Longrightarrow>
    pool_same B w (w\<lparr>mp_db := d\<rparr>)"
  by (simp add: pool_same_def pool_step_db)

lemma mark_backwards_world:
  assumes "mark_backwards test n (w, c) = (e, w', c')"
    and "\<And>i op w r w'. test i op w = (r, w') \<Longrightarrow> pool_step B w w'"
  shows "pool_step B w w'"
  using assms(1)
proof (induction n arbitrary: w c)
  case (Suc i)
  show ?case
  proof (cases "i < length (Batch c)")
    case True
    obtain r w1 where t: "test i (Batch c ! i) w = (r, w1)" by (cases "test i (Batch c ! i) w")
    have first: "pool_step B w w1" by (rule assms(2) [OF t])
    show ?thesis
    proof (cases r)
      case (Inr mark)
      with Suc.prems True t
      have "mark_backwards test i (w1, if mark then MarkOpIndexForRemoval (int i) c else c) = (e, w', c')" by simp
      from pool_step_trans [OF first Suc.IH [OF this]] show ?thesis .
    qed (use Suc.prems True t first in auto)
  qed (use Suc.prems in simp)
qed simp

lemma sort_nonce_runner: "batch_runner B (returns SortByNonce)"
  by (rule returns_runner [OF sort_nonce.batch_module_axioms]) (auto simp: SortByNonce_def)

lemma sort_price_runner: "batch_runner B (returns SortByGasPrice)"
  by (rule returns_runner [OF sort_price.batch_module_axioms]) (auto simp: SortByGasPrice_def split: option.splits)

lemma underpriced_runner: "batch_runner B (returns (FilterUnderpriced L))"
  by (rule returns_runner [OF underpriced.batch_module_axioms]) (auto simp: FilterUnderpriced_def)

lemma gas_limit_runner: "batch_runner B (returns (MaintainGasLimit L m))"
  by (rule returns_runner [OF gas_limit.batch_module_axioms]) (auto simp: MaintainGasLimit_def split: sum.splits)

lemma expire_runner:
  "batch_runner B (returns (DropExpired L ttl now :: ('d, 's, 'x) world_scheme batch_handler))"
proof (rule returns_runner [OF expire.batch_module_axioms])
  fix w :: "('d, 's, 'x) world_scheme" and c e w' c'
  assume "DropExpired L ttl now (w, c) = (e, w', c')"
  then show "pool_step B w w'"
    unfolding DropExpired_def prod.case
    by (rule mark_backwards_world) (auto simp: expire_test_def pool_step_def Let_def split: option.splits if_splits)
qed

lemma code_hashes_runner: "batch_runner B (returns (CodeHashes L B' N))"
proof (rule returns_runner [OF code_hashes.batch_module_axioms])
  fix w :: "('a, 'b, 'c) mempool_scheme" and c e w' c'
  assume "CodeHashes L B' N (w, c) = (e, w', c')"
  then show "pool_step B w w'"
    unfolding CodeHashes_def prod.case
    by (rule mark_backwards_world) (auto simp: code_test_def split: if_splits)
qed

lemma paymaster_deposit_runner: "batch_runner B (returns (PaymasterDeposit L N))"
  by (rule returns_runner [OF paymaster_deposit.batch_module_axioms]) (auto simp: PaymasterDeposit_def split: option.splits prod.splits)

lemma delete_other_keys:
  assumes "badger_ok B" "\<forall>k \<in> set ks. \<not> prefix p k" "delete_keys B ks d = Inr d'" "prefix p k"
  shows "txn_Get B d' k = txn_Get B d k"
  using delete_keys_Get [OF assms(1,3), of k] assms(2,4) by blast

lemma clean_runner:
  assumes "badger_ok B"
  shows "batch_runner B (returns (Clean L B))"
proof (rule returns_runner [OF clean.batch_module_axioms])
  fix w :: "('a, 'b, 'c) mempool_scheme" and c e w' c'
  assume "Clean L B (w, c) = (e, w', c')"
  then obtain hs d where d: "removeSavedCodeHashes L B hs (mp_db w) = (e, d)" "w' = w\<lparr>mp_db := d\<rparr>"
    by (auto simp: Clean_def Let_def split: prod.splits)
  have other: "\<forall>k \<in> set (map (getCodeHashesKey L) hs). \<not> prefix mempool_keyPrefix k"
    by (auto simp: getCodeHashesKey_def codeHashesPrefix_def JoinValues_def mempool_keyPrefix_def)
  show "pool_step B w w'"
    unfolding d(2)
  proof (rule pool_step_db)
    fix k assume "prefix mempool_keyPrefix k"
    then show "txn_Get B d k = txn_Get B (mp_db w) k"
      using d(1) delete_other_keys [OF assms other]
      by (cases rule: db_Update_cases [of B "delete_keys B (map (getCodeHashesKey L) hs)" "mp_db w"])
        (auto simp: removeSavedCodeHashes_def)
  qed
qed


lemma getOpsCount_frame:
  assumes "badger_ok B" "getOpsCountByPaymaster L B clk pm d = Inr (s, i, d')" "prefix mempool_keyPrefix k"
  shows "txn_Get B d' k = txn_Get B d k"
proof -
  have k: "k \<noteq> getOpsCountKey L pm"
    using assms(3) by (auto simp: getOpsCountKey_def opsCountPrefix_def JoinValues_def mempool_keyPrefix_def)
  from assms(2) consider "d' = d" | v where "txn_Set B d (getOpsCountKey L pm) v = Inr d'"
    by (auto simp: getOpsCountByPaymaster_def applyExpWeights_def bind_res_eq_Inr Let_def case_prod_unfold
        split: sum.splits db_value.splits if_splits)
  then show ?thesis using badger_okD(2) [OF assms(1)] k by cases auto
qed

lemma incrementOpsIncluded_frame:
  assumes "badger_ok B" "prefix mempool_keyPrefix k"
  shows "incrementOpsIncludedByPaymasters L B clk cnt pms d = Inr d' \<Longrightarrow> txn_Get B d' k = txn_Get B d k"
proof (induction pms arbitrary: d clk)
  case (Cons pm pms)
  from Cons.prems obtain s i d1 v d2 where step: "getOpsCountByPaymaster L B clk pm d = Inr (s, i, d1)"
    "txn_Set B d1 (getOpsCountKey L pm) v = Inr d2"
    "incrementOpsIncludedByPaymasters L B (\<lambda>i. clk (i + 3)) cnt pms d2 = Inr d'"
    by (auto simp: bind_res_eq_Inr Let_def)
  have "k \<noteq> getOpsCountKey L pm"
    using assms(2) by (auto simp: getOpsCountKey_def opsCountPrefix_def JoinValues_def mempool_keyPrefix_def)
  then show ?case
    using Cons.IH [OF step(3)] badger_okD(2) [OF assms(1) step(2)] getOpsCount_frame [OF assms(1) step(1) assms(2)] by simp
qed simp

lemma inc_included_runner:
  assumes "badger_ok B"
  shows "batch_runner B (returns (IncOpsIncluded L B toSlice clk))"
proof (rule returns_runner [OF inc_included.batch_module_axioms])
  fix w :: "('a, 'b, 'c) mempool_scheme" and c e w' c'
  assume "IncOpsIncluded L B toSlice clk (w, c) = (e, w', c')"
  then obtain f d where d: "db_Update B f (mp_db w) = (e, d)" "w' = w\<lparr>mp_db := d\<rparr>"
    and f: "f = (\<lambda>txn. let (cnt, ps) = count_ops L (Batch c) Map.empty {} in
      incrementOpsIncludedByPaymasters L B clk cnt (toSlice ps) txn)"
    by (auto simp: IncOpsIncluded_def Let_def split: prod.splits)
  show "pool_step B w w'"
    unfolding d(2)
  proof (rule pool_step_db)
    fix k assume k: "prefix mempool_keyPrefix k"
    show "txn_Get B d k = txn_Get B (mp_db w) k"
      using d(1) incrementOpsIncluded_frame [OF assms k]
      by (cases rule: db_Update_cases [of B f "mp_db w"]) (auto simp: f split: prod.splits)
  qed
qed

subsection \<open>relayer.go\<close>

record relayer =
  rl_beneficiary :: address
  rl_waitTimeout :: int

definition relay_DefaultWaitTimeout :: int where "relay_DefaultWaitTimeout = 72 * 1000000000"

definition New_relayer :: "address \<Rightarrow> relayer" where
  "New_relayer beneficiary = \<lparr>rl_beneficiary = beneficiary, rl_waitTimeout = relay_DefaultWaitTimeout\<rparr>"

definition relay_SetWaitTimeout :: "int \<Rightarrow> relayer \<Rightarrow> relayer" where
  "relay_SetWaitTimeout timeout r = r\<lparr>rl_waitTimeout := timeout\<rparr>"

definition getCallOptions :: "relayer \<Rightarrow> batch_ctx \<Rightarrow> user_op list \<Rightarrow> tx_opts" where
  "getCallOptions r c batch = \<lparr>to_ChainID = ChainID c, to_EntryPoint = EntryPoint c, to_Batch = batch,
     to_Beneficiary = rl_beneficiary r, to_BaseFee = BaseFee c, to_Tip = Tip c, to_GasPrice = GasPrice c,
     to_GasLimit = 0, to_NoSend = False, to_WaitTimeout = rl_waitTimeout r\<rparr>"

text \<open>The loop that sorts the batch into solved intents and conventional operations.\<close>

fun split_batch :: "'y userop_lib_scheme \<Rightarrow> user_op list \<Rightarrow> user_op list \<Rightarrow> user_op list \<Rightarrow> user_op list \<times> user_op list" where
  "split_batch L [] nonIntents intents = (nonIntents, intents)"
| "split_batch L (op # ops) nonIntents intents =
     (if IsSolvedIntent L op then split_batch L ops nonIntents (intents @ [op])
      else if \<not> HasIntent L op then split_batch L ops (nonIntents @ [op]) intents
      else split_batch L ops nonIntents intents)"

text \<open>
  The estimation loop. \<open>live\<close> is the loop condition as a function of the context; \<open>n\<close> counts the
  requests. The options, and with them the batch that is estimated, never change.
\<close>

partial_function (option) estimate_loop :: "('tx, 'y) chain_lib_scheme \<Rightarrow> tx_opts \<Rightarrow> (batch_ctx \<Rightarrow> bool) \<Rightarrow> nat \<Rightarrow>
    batch_ctx \<Rightarrow> string list \<Rightarrow> (int option res \<times> string list \<times> batch_ctx) option" where
  "estimate_loop L opts live n c estRev =
     (if live c then
        (case EstimateHandleOpsGas L n opts of
           Inl err \<Rightarrow> Some (Inl err, estRev, c)
         | Inr r \<Rightarrow>
             (case r of
                Inl est \<Rightarrow> Some (Inr (Some est), estRev, c)
              | Inr revert \<Rightarrow>
                  estimate_loop L opts live (n + 1) (MarkOpIndexForRemoval (OpIndex revert) c) (estRev @ [Reason revert])))
      else Some (Inr None, estRev, c))"

definition set_data :: "string \<Rightarrow> json \<Rightarrow> batch_ctx \<Rightarrow> batch_ctx" where
  "set_data k v c = c\<lparr>Data := (Data c)(k \<mapsto> v)\<rparr>"

definition handleOps :: "('tx, 'y) chain_lib_scheme \<Rightarrow> batch_ctx \<Rightarrow> tx_opts \<Rightarrow> go_error option \<times> batch_ctx" where
  "handleOps L c opts =
     (case HandleOps L opts of
        Inl err \<Rightarrow> (Some err, c)
      | Inr txn \<Rightarrow> (None, set_data ''txn_hash'' (JStr (tx_Hash L txn)) c))"

text \<open>An error of the transaction of the intents is printed and dropped; only a panic goes on.\<close>

definition intent_error :: "('tx, 'y) chain_lib_scheme \<Rightarrow> go_error option \<Rightarrow> go_error option" where
  "intent_error L e =
     (case e of
        None \<Rightarrow> None
      | Some (Panicked p) \<Rightarrow> Some (Panicked p)
      | Some err \<Rightarrow> (case NewFailedOp L (Some err) of Inl (Panicked p) \<Rightarrow> Some (Panicked p) | r \<Rightarrow> None))"

definition relay_SendUserOperation :: "('tx, 'y) chain_lib_scheme \<Rightarrow> relayer \<Rightarrow> 'w batch_run" where
  "relay_SendUserOperation L r = (\<lambda>(w, c).
     let (nonIntentsBatch, intentsBatch) = split_batch L (Batch c) [] [] in
     if length nonIntentsBatch > 0 then
       let opts = getCallOptions r c nonIntentsBatch in
       (case estimate_loop L opts (\<lambda>c. length nonIntentsBatch > 0) 0 c [] of
          None \<Rightarrow> None
        | Some (Inl err, estRev, c) \<Rightarrow> Some (Some err, w, c)
        | Some (Inr est, estRev, c) \<Rightarrow>
            let opts = (case est of None \<Rightarrow> opts | Some g \<Rightarrow> opts\<lparr>to_GasLimit := g\<rparr>);
                c = set_data ''relayer_est_revert_reasons'' (JArr (map JStr estRev)) c;
                (e, c) = handleOps L c opts
            in Some (e, w, c))
     else if length intentsBatch > 0 then
       let opts = getCallOptions r c intentsBatch; (e, c) = handleOps L c opts in
       Some (intent_error L e, w, c)
     else Some (None, w, c))"

subsection \<open>client.go of the builder\<close>

record builder =
  bd_beneficiary :: address
  bd_blocksInTheFuture :: int
  bd_waitTimeout :: int

definition builder_DefaultWaitTimeout :: int where "builder_DefaultWaitTimeout = 72 * 1000000000"

definition New_builder :: "address \<Rightarrow> int \<Rightarrow> builder" where
  "New_builder beneficiary blocksInTheFuture =
     \<lparr>bd_beneficiary = beneficiary, bd_blocksInTheFuture = blocksInTheFuture, bd_waitTimeout = builder_DefaultWaitTimeout\<rparr>"

definition builder_SetWaitTimeout :: "int \<Rightarrow> builder \<Rightarrow> builder" where
  "builder_SetWaitTimeout timeout b = b\<lparr>bd_waitTimeout := timeout\<rparr>"

definition CompatibleChainIDs :: "int set" where "CompatibleChainIDs = {1, 5, 11155111}"

definition ErrFlashbotsBroadcastBundle :: string where
  "ErrFlashbotsBroadcastBundle = ''flashbots broadcast bundle error''"

text \<open>The base fee after a number of full blocks; a nil base fee is dereferenced in the first round.\<close>

fun max_base_fee :: "nat \<Rightarrow> int option \<Rightarrow> int option res" where
  "max_base_fee 0 mbf = Inr mbf"
| "max_base_fee (Suc i) mbf =
     (case mbf of
        None \<Rightarrow> Inl (Panicked ''nil pointer dereference'')
      | Some f \<Rightarrow> max_base_fee i (Some (f * 1125 div 1000 + 1)))"

text \<open>
  \<open>BlockNumber\<close> and \<open>BroadcastBundle\<close> are the answers of the node and of the block builders: for a
  raw transaction and a block number, one error or none per builder.
\<close>

record builder_node =
  bn_BlockNumber :: "int res"
  bn_BroadcastBundle :: "string \<Rightarrow> string \<Rightarrow> go_error option list"

fun broadcast :: "('tx, 'y) chain_lib_scheme \<Rightarrow> builder_node \<Rightarrow> 'tx \<Rightarrow> int \<Rightarrow> nat \<Rightarrow> nat \<Rightarrow> bool \<Rightarrow> go_error list \<Rightarrow> bool \<times> go_error list" where
  "broadcast L E txn nbn i 0 shouldFail errs = (shouldFail, errs)"
| "broadcast L E txn nbn i (Suc n) shouldFail errs =
     (let results = bn_BroadcastBundle E (ToRawTxHex L txn) (EncodeBig L (nbn + int i)) in
      broadcast L E txn nbn (i + 1) n (shouldFail \<and> None \<notin> set results) (errs @ List.map_filter id results))"

text \<open>What follows the estimate: base fee, transaction, broadcast and wait.\<close>

definition builder_submit :: "('tx, 'y) chain_lib_scheme \<Rightarrow> builder_node \<Rightarrow> (go_error list \<Rightarrow> string) \<Rightarrow> builder \<Rightarrow>
    tx_opts \<Rightarrow> batch_ctx \<Rightarrow> go_error option \<times> batch_ctx" where
  "builder_submit L E join b opts c =
     (case bn_BlockNumber E of
        Inl err \<Rightarrow> (Some err, c)
      | Inr bn \<Rightarrow>
          let nbn = bn + 1; blocks = nat (bd_blocksInTheFuture b) in
          (case max_base_fee blocks (BaseFee c) of
             Inl err \<Rightarrow> (Some err, c)
           | Inr mbf \<Rightarrow>
               let opts = opts\<lparr>to_BaseFee := mbf\<rparr> in
               (case HandleOps L opts of
                  Inl err \<Rightarrow> (Some err, c)
                | Inr txn \<Rightarrow>
                    let (shouldFail, errs) = broadcast L E txn nbn 0 blocks True [] in
                    if shouldFail then
                      (Some (GoError (ErrFlashbotsBroadcastBundle @ '': '' @ [CHR 0x0A, CHR 0x0A] @ join errs)), c)
                    else
                      (case Wait L txn (to_WaitTimeout opts) of
                         Inl err \<Rightarrow> (Some err, c)
                       | Inr txn' \<Rightarrow> (None, set_data ''txn_hash'' (JStr (tx_Hash L txn)) c)))))"

definition builder_options :: "builder \<Rightarrow> batch_ctx \<Rightarrow> tx_opts" where
  "builder_options b c = \<lparr>to_ChainID = ChainID c, to_EntryPoint = EntryPoint c, to_Batch = Batch c,
     to_Beneficiary = bd_beneficiary b, to_BaseFee = BaseFee c, to_Tip = Tip c, to_GasPrice = GasPrice c,
     to_GasLimit = 0, to_NoSend = True, to_WaitTimeout = bd_waitTimeout b\<rparr>"

definition builder_SendUserOperation :: "('tx, 'y) chain_lib_scheme \<Rightarrow> builder_node \<Rightarrow> (go_error list \<Rightarrow> string) \<Rightarrow> builder \<Rightarrow>
    'w batch_run" where
  "builder_SendUserOperation L E join b = (\<lambda>(w, c).
     let opts = builder_options b c in
     case estimate_loop L opts (\<lambda>c. length (Batch c) > 0) 0 c [] of
       None \<Rightarrow> None
     | Some (Inl err, estRev, c) \<Rightarrow> Some (Some err, w, c)
     | Some (Inr est, estRev, c) \<Rightarrow>
         let opts = (case est of None \<Rightarrow> opts | Some g \<Rightarrow> opts\<lparr>to_GasLimit := g\<rparr>);
             c = set_data ''estimate_revert_reasons'' (JArr (map JStr estRev)) c in
         if length (Batch c) = 0 then Some (None, w, c)
         else let (e, c) = builder_submit L E join b opts c in Some (e, w, c))"

subsection \<open>The sending modules meet the contract\<close>

lemma estimate_loop_mark:
  assumes "estimate_loop L opts live n c estRev = Some (r, estRev', c')"
  shows "ctx_mark c c'"
proof -
  have "ctx_mark c (snd (snd (r, estRev', c')))"
  proof (rule estimate_loop.raw_induct [where P = "\<lambda>L opts live n c estRev x. ctx_mark c (snd (snd x))", OF _ assms])
    fix f L opts live n c estRev x
    assume IH: "\<And>L opts live n c estRev x. f L opts live n c estRev = Some x \<Longrightarrow> ctx_mark c (snd (snd x))"
      and eq: "(if live c then
        (case EstimateHandleOpsGas L n opts of
           Inl err \<Rightarrow> Some (Inl err, estRev, c)
         | Inr r \<Rightarrow>
             (case r of
                Inl est \<Rightarrow> Some (Inr (Some est), estRev, c)
              | Inr revert \<Rightarrow>
                  f L opts live (n + 1) (MarkOpIndexForRemoval (OpIndex revert) c) (estRev @ [Reason revert])))
      else Some (Inr None, estRev, c)) = Some x"
    show "ctx_mark c (snd (snd x))"
    proof (cases "live c")
      case True
      show ?thesis
      proof (cases "EstimateHandleOpsGas L n opts")
        case (Inl err)
        with eq True show ?thesis by auto
      next
        case (Inr r)
        show ?thesis
        proof (cases r)
          case (Inl est)
          with eq True Inr show ?thesis by auto
        next
          case rev: (Inr revert)
          with eq True Inr
          have "f L opts live (n + 1) (MarkOpIndexForRemoval (OpIndex revert) c) (estRev @ [Reason revert]) = Some x" by simp
          from ctx_mark_trans [OF MarkOpIndexForRemoval_mark IH [OF this]] show ?thesis .
        qed
      qed
    qed (use eq in auto)
  qed
  then show ?thesis by simp
qed

lemma set_data_mark [simp]: "ctx_mark c (set_data k v c)"
  by (simp add: set_data_def ctx_mark_def batch_ids_def)

lemma handleOps_mark: "handleOps L c opts = (e, c') \<Longrightarrow> ctx_mark c c'"
  by (auto simp: handleOps_def split: sum.splits)

lemma runner_marks:
  assumes "\<And>w c e w' c'. run (w, c) = Some (e, w', c') \<Longrightarrow> ctx_mark c c' \<and> w' = w"
  shows "batch_runner B run"
proof
  fix w c e w' c'
  assume "run (w, c) = Some (e, w', c')"
  from assms [OF this] show "ctx_step c c'" "pool_step B w w'" by (auto intro: ctx_mark_step)
qed

lemma relay_mark:
  assumes "relay_SendUserOperation L r (w, c) = Some (e, w', c')"
  shows "ctx_mark c c' \<and> w' = w"
proof -
  obtain ni it where sp: "split_batch L (Batch c) [] [] = (ni, it)" by (cases "split_batch L (Batch c) [] []")
  note run = assms [unfolded relay_SendUserOperation_def prod.case sp Let_def]
  show ?thesis
  proof (cases "length ni > 0")
    case True
    then obtain x estRev c1 where est: "estimate_loop L (getCallOptions r c ni) (\<lambda>c. length ni > 0) 0 c [] = Some (x, estRev, c1)"
      using run by (auto split: option.splits)
    have m1: "ctx_mark c c1" by (rule estimate_loop_mark [OF est])
    show ?thesis
    proof (cases x)
      case (Inl err)
      with run True est m1 show ?thesis by simp
    next
      case (Inr g)
      let ?c2 = "set_data ''relayer_est_revert_reasons'' (JArr (map JStr estRev)) c1"
      from run True est Inr obtain opts where h: "handleOps L ?c2 opts = (e, c')" "w' = w"
        by (auto split: prod.splits)
      have "ctx_mark c1 ?c2" by simp
      from ctx_mark_trans [OF m1 ctx_mark_trans [OF this handleOps_mark [OF h(1)]]] h(2) show ?thesis by simp
    qed
  next
    case False
    show ?thesis
    proof (cases "length it > 0")
      case True
      with run False obtain e1 where "handleOps L c (getCallOptions r c it) = (e1, c')" "w' = w"
        by (auto split: prod.splits)
      with handleOps_mark show ?thesis by blast
    next
      case none: False
      with run False show ?thesis by simp
    qed
  qed
qed

lemma builder_submit_mark: "builder_submit L E join b opts c = (e, c') \<Longrightarrow> ctx_mark c c'"
  by (auto simp: builder_submit_def Let_def split: sum.splits prod.splits if_splits)

lemma builder_mark:
  assumes "builder_SendUserOperation L E join b (w, c) = Some (e, w', c')"
  shows "ctx_mark c c' \<and> w' = w"
proof -
  note run = assms [unfolded builder_SendUserOperation_def prod.case Let_def]
  obtain x estRev c1 where est: "estimate_loop L (builder_options b c) (\<lambda>c. length (Batch c) > 0) 0 c [] = Some (x, estRev, c1)"
    using run by (auto split: option.splits)
  have m1: "ctx_mark c c1" by (rule estimate_loop_mark [OF est])
  let ?c2 = "set_data ''estimate_revert_reasons'' (JArr (map JStr estRev)) c1"
  have m2: "ctx_mark c ?c2" by (rule ctx_mark_trans [OF m1 set_data_mark])
  show ?thesis
  proof (cases x)
    case (Inl err)
    with run est m1 show ?thesis by simp
  next
    case (Inr g)
    show ?thesis
    proof (cases "length (Batch ?c2) = 0")
      case True
      with run est Inr m2 show ?thesis by simp
    next
      case False
      with run est Inr obtain opts where sub: "builder_submit L E join b opts ?c2 = (e, c')" "w' = w"
        by (auto split: prod.splits)
      from ctx_mark_trans [OF m2 builder_submit_mark [OF sub(1)]] sub(2) show ?thesis by simp
    qed
  qed
qed

lemma relay_runner: "batch_runner B (relay_SendUserOperation L r)"
  by (rule runner_marks) (rule relay_mark)

lemma builder_runner: "batch_runner B (builder_SendUserOperation L E join b)"
  by (rule runner_marks) (rule builder_mark)

interpretation relay_module: batch_runner B "relay_SendUserOperation L r" for B L r
  by (rule relay_runner)

interpretation builder_module: batch_runner B "builder_SendUserOperation L E join b" for B L E join b
  by (rule builder_runner)

subsection \<open>What the sending modules do\<close>

lemma split_batch_filter:
  "split_batch L ops ni it = (ni @ filter (\<lambda>op. \<not> IsSolvedIntent L op \<and> \<not> HasIntent L op) ops,
    it @ filter (IsSolvedIntent L) ops)"
  by (induction ops arbitrary: ni it) auto

lemma estimate_loop_diverges:
  assumes "\<And>c. live c" "\<And>n. \<exists>revert. EstimateHandleOpsGas L n opts = Inr (Inr revert)"
  shows "estimate_loop L opts live n c estRev = None"
proof (rule ccontr)
  assume "estimate_loop L opts live n c estRev \<noteq> None"
  then obtain x where x: "estimate_loop L opts live n c estRev = Some x" by blast
  have "\<not> (L = L \<and> opts = opts \<and> live = live)"
  proof (rule estimate_loop.raw_induct [where P = "\<lambda>L' opts' live' n c estRev x. \<not> (L' = L \<and> opts' = opts \<and> live' = live)", OF _ x])
    fix f L' opts' live' n c estRev y
    assume IH: "\<And>L' opts' live' n c estRev x. f L' opts' live' n c estRev = Some x \<Longrightarrow> \<not> (L' = L \<and> opts' = opts \<and> live' = live)"
      and eq: "(if live' c then
        (case EstimateHandleOpsGas L' n opts' of
           Inl err \<Rightarrow> Some (Inl err, estRev, c)
         | Inr r \<Rightarrow>
             (case r of
                Inl est \<Rightarrow> Some (Inr (Some est), estRev, c)
              | Inr revert \<Rightarrow>
                  f L' opts' live' (n + 1) (MarkOpIndexForRemoval (OpIndex revert) c) (estRev @ [Reason revert])))
      else Some (Inr None, estRev, c)) = Some y"
    show "\<not> (L' = L \<and> opts' = opts \<and> live' = live)"
    proof
      assume same: "L' = L \<and> opts' = opts \<and> live' = live"
      obtain revert where "EstimateHandleOpsGas L n opts = Inr (Inr revert)" using assms(2) by blast
      with eq same assms(1) [of c]
      have "f L' opts' live' (n + 1) (MarkOpIndexForRemoval (OpIndex revert) c) (estRev @ [Reason revert]) = Some y" by simp
      from IH [OF this] same show False by simp
    qed
  qed
  then show False by simp
qed

lemma estimate_loop_first:
  assumes "live c" "EstimateHandleOpsGas L n opts = Inr (Inl g)"
  shows "estimate_loop L opts live n c estRev = Some (Inr (Some g), estRev, c)"
  using assms by (subst estimate_loop.simps) simp

lemma estimate_loop_empties:
  assumes "\<And>n. EstimateHandleOpsGas L n opts = Inr (Inr \<lparr>OpIndex = 0, Reason = why\<rparr>)"
  shows "estimate_loop L opts (\<lambda>c. length (Batch c) > 0) n c estRev
    = Some (Inr None, estRev @ replicate (length (Batch c)) why,
        c\<lparr>Batch := [], PendingRemoval := PendingRemoval c @ Batch c\<rparr>)"
proof (induction "Batch c" arbitrary: c n estRev)
  case Nil
  then have "c = c\<lparr>Batch := [], PendingRemoval := PendingRemoval c @ Batch c\<rparr>" by (cases c) simp
  with Nil show ?case by (subst estimate_loop.simps) simp
next
  case (Cons op ops)
  have mark: "MarkOpIndexForRemoval 0 c = c\<lparr>Batch := ops, PendingRemoval := PendingRemoval c @ [op]\<rparr>"
    using MarkOpIndexForRemoval_in [of 0 c] Cons.hyps(2) [symmetric] by simp
  have "estimate_loop L opts (\<lambda>c. length (Batch c) > 0) n c estRev
      = estimate_loop L opts (\<lambda>c. length (Batch c) > 0) (n + 1) (MarkOpIndexForRemoval 0 c) (estRev @ [why])"
    using Cons.hyps(2) [symmetric] by (subst estimate_loop.simps) (simp add: assms)
  also have "\<dots> = Some (Inr None, (estRev @ [why]) @ replicate (length ops) why,
      c\<lparr>Batch := [], PendingRemoval := PendingRemoval c @ op # ops\<rparr>)"
    using Cons.hyps(1) [of "MarkOpIndexForRemoval 0 c"] by (simp add: mark)
  finally show ?case using Cons.hyps(2) [symmetric] by (simp add: replicate_app_Cons_same)
qed

lemma relay_conventional:
  assumes "ni = filter (\<lambda>op. \<not> IsSolvedIntent L op \<and> \<not> HasIntent L op) (Batch c)" "ni \<noteq> []"
    and "EstimateHandleOpsGas L 0 (getCallOptions r c ni) = Inr (Inl g)"
  shows "\<exists>e c'. relay_SendUserOperation L r (w, c) = Some (e, w, c') \<and>
    Batch c' = Batch c \<and> PendingRemoval c' = PendingRemoval c \<and>
    (case HandleOps L ((getCallOptions r c ni)\<lparr>to_GasLimit := g\<rparr>) of
       Inl err \<Rightarrow> e = Some err
     | Inr txn \<Rightarrow> e = None \<and> Data c' ''txn_hash'' = Some (JStr (tx_Hash L txn)))"
proof -
  have len: "length ni > 0" using assms(2) by simp
  have est: "estimate_loop L (getCallOptions r c ni) (\<lambda>c. length ni > 0) 0 c [] = Some (Inr (Some g), [], c)"
    by (rule estimate_loop_first [OF len assms(3)])
  show ?thesis
    using len est assms(1)
    by (cases "HandleOps L ((getCallOptions r c ni)\<lparr>to_GasLimit := g\<rparr>)")
      (auto simp: relay_SendUserOperation_def split_batch_filter handleOps_def set_data_def)
qed

subsection \<open>Properties\<close>

text \<open>
  C15: while the node reports a failing operation, the relayer does not get past its estimation loop.
  The loop asks for the same batch again, since an operation that is marked leaves the context but
  not the options of the transaction, and its condition never changes: a batch that keeps reverting
  is never sent, and the call never returns.
\<close>

theorem relay_diverges:
  assumes "\<exists>op \<in> set (Batch c). \<not> IsSolvedIntent L op \<and> \<not> HasIntent L op"
    and "\<And>n. \<exists>revert. EstimateHandleOpsGas L n
      (getCallOptions r c (filter (\<lambda>op. \<not> IsSolvedIntent L op \<and> \<not> HasIntent L op) (Batch c))) = Inr (Inr revert)"
  shows "relay_SendUserOperation L r (w, c) = None"
proof -
  let ?ni = "filter (\<lambda>op. \<not> IsSolvedIntent L op \<and> \<not> HasIntent L op) (Batch c)"
  have "length ?ni > 0" using assms(1) by (auto simp: filter_empty_conv)
  moreover have "estimate_loop L (getCallOptions r c ?ni) (\<lambda>c. length ?ni > 0) 0 c [] = None"
    by (rule estimate_loop_diverges) (use calculation assms(2) in auto)
  ultimately show ?thesis by (simp add: relay_SendUserOperation_def split_batch_filter)
qed

definition failing_chain :: "unit chain_lib" where
  "failing_chain = rev_lib.extend (rev_ref\<lparr>abi_error_Unpack := (\<lambda>name bs. Inr (ArgList [ABig 0, AStr ''AA23 reverted'']))\<rparr>)
     (chain_lib.fields (\<lambda>a. None) (\<lambda>n. None) (\<lambda>au ops a. Inr ()) (\<lambda>n tx. Inl (DataError ''execution reverted'' (JStr ''0x'')))
       (Inr 0) (\<lambda>tx t. Inr True) (\<lambda>tx. ''0x01'') (\<lambda>tx. []))"

lemma failing_chain_estimate:
  "EstimateHandleOpsGas failing_chain n opts = Inr (Inr \<lparr>OpIndex = 0, Reason = ''AA23 reverted''\<rparr>)"
  by (simp add: EstimateHandleOpsGas_def failing_chain_def rev_lib.defs chain_lib.defs err_res_def NewFailedOp_def
      revert_bytes_def wrap64_id)

lemma failing_chain_plain: "\<not> IsSolvedIntent failing_chain (sample_op a n) \<and> \<not> HasIntent failing_chain (sample_op a n)"
  by (simp add: IsSolvedIntent_def HasIntent_def failing_chain_def rev_ref_defs chain_lib.defs userop_ref_def sample_op_def)

theorem relay_diverges_witness:
  "relay_SendUserOperation failing_chain (New_relayer 8) ((), sample_ctx [sample_op 5 3, sample_op 6 1]) = None"
  by (rule relay_diverges)
    (simp_all add: failing_chain_estimate sample_ctx_def NewBatchHandlerContext_def failing_chain_plain)

text \<open>
  C16: in a batch with conventional operations the relayer sends exactly these, with the estimated gas;
  the solved intents of the batch are not sent, and stay in the context.
\<close>

theorem relay_sends_conventional:
  assumes "ni = filter (\<lambda>op. \<not> IsSolvedIntent L op \<and> \<not> HasIntent L op) (Batch c)" "ni \<noteq> []"
    and "EstimateHandleOpsGas L 0 (getCallOptions r c ni) = Inr (Inl g)"
  shows "\<exists>e c'. relay_SendUserOperation L r (w, c) = Some (e, w, c') \<and>
    Batch c' = Batch c \<and> PendingRemoval c' = PendingRemoval c \<and>
    (case HandleOps L ((getCallOptions r c ni)\<lparr>to_GasLimit := g\<rparr>) of
       Inl err \<Rightarrow> e = Some err
     | Inr txn \<Rightarrow> e = None \<and> Data c' ''txn_hash'' = Some (JStr (tx_Hash L txn)))"
  by (rule relay_conventional [OF assms])

definition good_chain :: "unit chain_lib" where
  "good_chain = rev_lib.extend (rev_ref\<lparr>model_Validate := (\<lambda>op. Inr (if take 1 (CallData op) = [123] then SolvedUserOp else OtherUserOp))\<rparr>)
     (chain_lib.fields (\<lambda>a. None) (\<lambda>n. None) (\<lambda>au ops a. Inr ()) (\<lambda>n tx. Inr 90000)
       (Inr 0) (\<lambda>tx t. Inr True) (\<lambda>tx. ''0x01'') (\<lambda>tx. []))"

definition solved_op :: "address \<Rightarrow> int \<Rightarrow> user_op" where
  "solved_op a n = (sample_op a n)\<lparr>CallData := [123]\<rparr>"

lemma good_chain_intents:
  "\<not> IsSolvedIntent good_chain (sample_op a n)" "\<not> HasIntent good_chain (sample_op a n)" "IsSolvedIntent good_chain (solved_op a n)"
  "HasIntent good_chain (solved_op a n)"
  by (simp_all add: IsSolvedIntent_def HasIntent_def good_chain_def rev_ref_defs chain_lib.defs userop_ref_def sample_op_def solved_op_def)

theorem relay_sends_conventional_witness:
  "\<exists>e c'. relay_SendUserOperation good_chain (New_relayer 8) ((), sample_ctx [solved_op 6 1, sample_op 5 3]) = Some (e, (), c') \<and>
    Batch c' = [solved_op 6 1, sample_op 5 3]"
proof -
  let ?c = "sample_ctx [solved_op 6 1, sample_op 5 3]"
  have batch: "Batch ?c = [solved_op 6 1, sample_op 5 3]" by (simp add: sample_ctx_def NewBatchHandlerContext_def)
  have ni: "[sample_op 5 3] = filter (\<lambda>op. \<not> IsSolvedIntent good_chain op \<and> \<not> HasIntent good_chain op) (Batch ?c)"
    by (simp add: batch good_chain_intents)
  have "EstimateHandleOpsGas good_chain 0 (getCallOptions (New_relayer 8) ?c [sample_op 5 3]) = Inr (Inl 90000)"
    by (simp add: EstimateHandleOpsGas_def good_chain_def rev_lib.defs chain_lib.defs err_res_def)
  from relay_sends_conventional [OF ni _ this, of "()"] batch show ?thesis by auto
qed

text \<open>
  C17: when the estimate of a bundle blames its first operation every time it is asked, the builder
  module removes all operations of the batch, also those that no estimate has blamed: it asks for
  the unchanged bundle again, and marks the first of the operations that are left.
\<close>

theorem builder_drops_all:
  assumes "\<And>n. EstimateHandleOpsGas L n (builder_options b c) = Inr (Inr \<lparr>OpIndex = 0, Reason = why\<rparr>)"
  shows "\<exists>c'. builder_SendUserOperation L E join b (w, c) = Some (None, w, c') \<and>
    Batch c' = [] \<and> PendingRemoval c' = PendingRemoval c @ Batch c"
  using estimate_loop_empties [OF assms, of 0 c "[]"]
  by (simp add: builder_SendUserOperation_def set_data_def)

theorem builder_drops_all_witness:
  "\<exists>c'. builder_SendUserOperation failing_chain \<lparr>bn_BlockNumber = Inr 0, bn_BroadcastBundle = \<lambda>tx bn. []\<rparr> (\<lambda>errs. [])
      (New_builder 8 6) ((), sample_ctx [sample_op 5 3, sample_op 6 1]) = Some (None, (), c') \<and>
    Batch c' = [] \<and> PendingRemoval c' = [sample_op 5 3, sample_op 6 1]"
  using builder_drops_all [where E = "\<lparr>bn_BlockNumber = Inr 0, bn_BroadcastBundle = \<lambda>tx bn. []\<rparr>"
      and join = "\<lambda>errs. []" and b = "New_builder 8 6" and c = "sample_ctx [sample_op 5 3, sample_op 6 1]" and w = "()", OF failing_chain_estimate]
  by (simp add: sample_ctx_def NewBatchHandlerContext_def)

text \<open>
  The base fee that the builder module pays covers every sequence of blocks of the chain: each
  block raises the base fee by at most an eighth, or by one.
\<close>

lemma max_base_fee_covers:
  assumes "\<And>i. 0 \<le> fee i" "\<And>i. fee (Suc i) \<le> fee i + max (fee i div 8) 1" "fee 0 \<le> f"
  shows "\<exists>g. max_base_fee k (Some f) = Inr (Some g) \<and> fee k \<le> g"
  using assms
proof (induction k arbitrary: f fee)
  case (Suc k)
  have "f * 1125 div 1000 = f + f div 8"
    using div_mult_mult1 [of 125 "f * 9" 8] by (simp add: mult.commute)
  moreover have "fee 0 div 8 \<le> f div 8" by (rule zdiv_mono1) (use Suc.prems(3) in auto)
  moreover have "0 \<le> f div 8" using Suc.prems(1) [of 0] Suc.prems(3) by simp
  ultimately have "fee (Suc 0) \<le> f * 1125 div 1000 + 1" using Suc.prems(2) [of 0] Suc.prems(3) by linarith
  from Suc.IH [of "\<lambda>i. fee (Suc i)", OF _ _ this] Suc.prems(1,2) show ?case by simp
qed auto

lemma max_base_fee_covers_example:
  "\<exists>g. max_base_fee 2 (Some 100) = Inr (Some g) \<and> 126 \<le> g"
  using max_base_fee_covers [of "\<lambda>i. if i = 0 then 100 else if i = 1 then 112 else 126" 100 2] by simp

end
