(* ===== verification/Solution.thy ===== *)
theory Solution
  imports Sending
begin

text \<open>
  \<open>pkg/modules/solution/solveintents.go\<close>: intents are sent to the solver, and its answer decides for
  each whether it is replaced by its solution or removed. The hash and the classification of
  operations (\<open>github.com/blndgs/model\<close>) are parameters, and so is the answer of the solver:
  \<open>sendToSolver\<close> decodes it into its own copy of the body, so the caller sees the elements that are
  written into the arrays the two copies share, and never other lengths. A \<open>null\<close> operation in the
  answer is a nil pointer (\<open>None\<close>).

  The operations of the batch are values here, and a solution is also written into the object that the
  queues of the pool point to (\<open>write_object\<close>).
\<close>

datatype processing_status = Unsolved | Expired | Invalid | Received | Solved | UnknownStatus string

record user_op_ext =
  OriginalHashValue :: string
  ProcessingStatus :: processing_status

record body_of_userops =
  UserOps :: "user_op option list"
  UserOpsExt :: "user_op_ext list"

type_synonym solver = "body_of_userops \<Rightarrow> ((nat \<Rightarrow> user_op option option) \<times> (nat \<Rightarrow> user_op_ext option)) res"

definition overwrite :: "(nat \<Rightarrow> 'a option) \<Rightarrow> 'a list \<Rightarrow> 'a list" where
  "overwrite f xs = map (\<lambda>i. case f i of None \<Rightarrow> xs ! i | Some y \<Rightarrow> y) [0..<length xs]"

fun bufferIntentOps :: "'y userop_lib_scheme \<Rightarrow> (user_op \<Rightarrow> string) \<Rightarrow> nat \<Rightarrow> user_op list \<Rightarrow>
    body_of_userops \<times> (string \<rightharpoonup> nat) \<Rightarrow> body_of_userops \<times> (string \<rightharpoonup> nat)" where
  "bufferIntentOps L H idx [] r = r"
| "bufferIntentOps L H idx (op # ops) (body, indices) =
     bufferIntentOps L H (idx + 1) ops
       (if HasIntent L op then
          (\<lparr>UserOps = UserOps body @ [Some op],
            UserOpsExt = UserOpsExt body @ [\<lparr>OriginalHashValue = H op, ProcessingStatus = Received\<rparr>]\<rparr>,
           indices(H op \<mapsto> idx))
        else (body, indices))"

definition sendToSolver :: "solver \<Rightarrow> body_of_userops \<Rightarrow> body_of_userops res" where
  "sendToSolver S body =
     bind_res (S body) (\<lambda>(ops, exts).
       Inr \<lparr>UserOps = overwrite ops (UserOps body), UserOpsExt = overwrite exts (UserOpsExt body)\<rparr>)"

text \<open>The fields of the batch operation that are set from the solution.\<close>

definition apply_solution :: "user_op \<Rightarrow> user_op \<Rightarrow> user_op" where
  "apply_solution s op = op\<lparr>CallData := CallData s, Signature := Signature s, CallGasLimit := CallGasLimit s,
     VerificationGasLimit := VerificationGasLimit s, PreVerificationGas := PreVerificationGas s,
     MaxFeePerGas := MaxFeePerGas s, MaxPriorityFeePerGas := MaxPriorityFeePerGas s\<rparr>"

text \<open>The loop over the answer; an unknown hash has the zero value of the map, index 0.\<close>

fun solution_loop :: "(string \<rightharpoonup> nat) \<Rightarrow> (user_op_ext \<times> user_op option) list \<Rightarrow>
    ('d, 's, 'x) mempool_scheme batch_handler" where
  "solution_loop indices [] (w, c) = (None, w, c)"
| "solution_loop indices ((opExt, bodyOp) # rest) (w, c) =
     (let batchIndex = (case indices (OriginalHashValue opExt) of None \<Rightarrow> 0 | Some i \<Rightarrow> i) in
      case ProcessingStatus opExt of
        Solved \<Rightarrow>
          if batchIndex < length (Batch c) then
            (case bodyOp of
               None \<Rightarrow> (Some (Panicked ''nil pointer dereference''), w, c)
             | Some s \<Rightarrow>
                 let op = Batch c ! batchIndex; solved = apply_solution s op in
                 solution_loop indices rest
                   (write_object (EntryPoint c) op solved w, c\<lparr>Batch := (Batch c)[batchIndex := solved]\<rparr>))
          else (Some (Panicked ''index out of range''), w, c)
      | UnknownStatus s \<Rightarrow> (Some (GoError (''unknown processing status: '' @ s)), w, c)
      | _ \<Rightarrow>
          let c = MarkOpIndexForRemoval (int batchIndex) c in
          (case bodyOp of
             None \<Rightarrow> (Some (Panicked ''nil pointer dereference''), w, c)
           | Some s \<Rightarrow> solution_loop indices rest (w, c)))"

definition SolveIntents :: "'y userop_lib_scheme \<Rightarrow> (user_op \<Rightarrow> address \<Rightarrow> int \<Rightarrow> string) \<Rightarrow> solver \<Rightarrow>
    ('d, 's, 'x) mempool_scheme batch_handler" where
  "SolveIntents L hash S = (\<lambda>(w, c).
     let (body, indices) = bufferIntentOps L (\<lambda>op. hash op (EntryPoint c) (ChainID c)) 0 (Batch c)
           (\<lparr>UserOps = [], UserOpsExt = []\<rparr>, Map.empty) in
     if length (UserOps body) = 0 then (None, w, c)
     else
       (case sendToSolver S body of
          Inl err \<Rightarrow> (Some err, w, c)
        | Inr body \<Rightarrow> solution_loop indices (zip (UserOpsExt body) (UserOps body)) (w, c)))"

subsection \<open>The health of the solver\<close>

text \<open>
  \<open>net/url\<close> and \<open>net/http\<close> are parameters: a URL is the three parts that the code sets and the rest,
  \<open>hw_Copy\<close> is the error of copying a body to the standard output. The response is the pair of its
  status and its body.
\<close>

record go_url =
  url_Path :: string
  url_RawQuery :: string
  url_Fragment :: string
  url_rest :: string

record health_web =
  hw_Parse :: "string \<Rightarrow> go_url res"
  hw_String :: "go_url \<Rightarrow> string"
  hw_NewRequest :: "string \<Rightarrow> string \<Rightarrow> string res"
  hw_Do :: "string \<Rightarrow> (string \<times> bytes) res"
  hw_Copy :: "bytes \<Rightarrow> go_error option"

definition ReportSolverHealth :: "health_web \<Rightarrow> string \<Rightarrow> go_error option" where
  "ReportSolverHealth W solverURL =
     (case hw_Parse W solverURL of
        Inl err \<Rightarrow> Some err
      | Inr parsedURL \<Rightarrow>
          let solverURL = hw_String W (parsedURL\<lparr>url_Path := ''/health'', url_RawQuery := '''', url_Fragment := ''''\<rparr>) in
          (case bind_res (hw_NewRequest W ''GET'' solverURL) (hw_Do W) of
             Inl err \<Rightarrow> Some err
           | Inr (status, body) \<Rightarrow> hw_Copy W body))"

text \<open>Of the configured URL only the parts outside path, query and fragment matter.\<close>

lemma ReportSolverHealth_path:
  assumes "hw_Parse W u = Inr p" "hw_Parse W v = Inr q" "url_rest p = url_rest q"
  shows "ReportSolverHealth W u = ReportSolverHealth W v"
proof -
  have "p\<lparr>url_Path := a, url_RawQuery := b, url_Fragment := c\<rparr> = q\<lparr>url_Path := a, url_RawQuery := b, url_Fragment := c\<rparr>" for a b c
    using assms(3) by (cases p; cases q) simp
  with assms(1,2) show ?thesis by (simp add: ReportSolverHealth_def)
qed

subsection \<open>The contract\<close>

lemma solved_mark:
  assumes "i < length (Batch c)"
  shows "ctx_mark c (c\<lparr>Batch := (Batch c)[i := apply_solution s (Batch c ! i)]\<rparr>)"
proof -
  have "op_id (apply_solution s (Batch c ! i)) = op_id (Batch c ! i)"
    by (simp add: apply_solution_def op_id_def)
  then have "map op_id ((Batch c)[i := apply_solution s (Batch c ! i)]) = map op_id (Batch c)"
    using assms by (simp add: map_update list_update_same_conv)
  then show ?thesis by (simp add: ctx_mark_def batch_ids_def del: map_update)
qed

lemma apply_solution_id [simp]: "op_id (apply_solution s op) = op_id op"
  by (simp add: apply_solution_def op_id_def)

lemma solution_loop_mark:
  "solution_loop indices xs (w, c) = (e, w', c') \<Longrightarrow> ctx_mark c c' \<and> pool_step B w w'"
proof (induction indices xs "(w, c)" arbitrary: w c rule: solution_loop.induct)
  case (2 indices opExt bodyOp rest w c)
  let ?i = "case indices (OriginalHashValue opExt) of None \<Rightarrow> 0 | Some i \<Rightarrow> i"
  let ?m = "MarkOpIndexForRemoval (int ?i) c"
  have drop: "ctx_mark c c' \<and> pool_step B w w'" if "(case bodyOp of None \<Rightarrow> (Some (Panicked ''nil pointer dereference''), w, ?m)
      | Some s \<Rightarrow> solution_loop indices rest (w, ?m)) = (e, w', c')"
    "\<And>s. bodyOp = Some s \<Longrightarrow> solution_loop indices rest (w, ?m) = (e, w', c') \<Longrightarrow> ctx_mark ?m c' \<and> pool_step B w w'"
    using that by (cases bodyOp) (auto intro: ctx_mark_trans [OF MarkOpIndexForRemoval_mark])
  show ?case
  proof (cases "ProcessingStatus opExt")
    case Solved
    show ?thesis
    proof (cases "?i < length (Batch c)")
      case True
      show ?thesis
      proof (cases bodyOp)
        case None
        with Solved True "2.prems" show ?thesis by (simp add: Let_def)
      next
        case (Some s)
        let ?w = "write_object (EntryPoint c) (Batch c ! ?i) (apply_solution s (Batch c ! ?i)) w"
        have w: "pool_step B w ?w" by (rule pool_step_write) simp
        have "solution_loop indices rest (?w, c\<lparr>Batch := (Batch c)[?i := apply_solution s (Batch c ! ?i)]\<rparr>) = (e, w', c')"
          using Solved True "2.prems" Some by (simp add: Let_def)
        with "2.hyps"(5) [OF refl Solved True Some refl refl] show ?thesis
          by (blast intro: ctx_mark_trans [OF solved_mark [OF True]] pool_step_trans [OF w])
      qed
    qed (use Solved "2.prems" in \<open>simp add: Let_def\<close>)
  qed (use "2.prems" "2.hyps" drop in \<open>auto simp: Let_def\<close>)
qed simp

lemma SolveIntents_mark:
  "SolveIntents L hash S (w, c) = (e, w', c') \<Longrightarrow> ctx_mark c c' \<and> pool_step B w w'"
  by (auto simp: SolveIntents_def Let_def dest: solution_loop_mark split: prod.splits if_splits sum.splits)

interpretation solve_intents: marking_module "SolveIntents L hash S" for L hash S
  by unfold_locales (use SolveIntents_mark in blast)

lemma solve_intents_runner: "batch_runner B (returns (SolveIntents L hash S))"
  by (rule returns_runner [OF solve_intents.batch_module_axioms]) (use SolveIntents_mark in blast)


subsection \<open>What the answer of the solver does to the batch\<close>

definition intents_of :: "'y userop_lib_scheme \<Rightarrow> user_op list \<Rightarrow> user_op list" where
  "intents_of L ops = filter (HasIntent L) ops"

definition intent_body :: "(user_op \<Rightarrow> string) \<Rightarrow> processing_status \<Rightarrow> (user_op \<Rightarrow> user_op) \<Rightarrow> user_op list \<Rightarrow> body_of_userops" where
  "intent_body H st f ops = \<lparr>UserOps = map (\<lambda>op. Some (f op)) ops,
     UserOpsExt = map (\<lambda>op. \<lparr>OriginalHashValue = H op, ProcessingStatus = st\<rparr>) ops\<rparr>"

lemma bufferIntentOps_body:
  "fst (bufferIntentOps L H idx ops (body, indices)) =
     \<lparr>UserOps = UserOps body @ map Some (intents_of L ops),
      UserOpsExt = UserOpsExt body @ map (\<lambda>op. \<lparr>OriginalHashValue = H op, ProcessingStatus = Received\<rparr>) (intents_of L ops)\<rparr>"
  by (induction ops arbitrary: idx body indices) (auto simp: intents_of_def)

lemma bufferIntentOps_other:
  "k \<notin> H ` set (intents_of L ops) \<Longrightarrow> snd (bufferIntentOps L H idx ops (body, indices)) k = indices k"
  by (induction ops arbitrary: idx body indices) (auto simp: intents_of_def)

lemma bufferIntentOps_index:
  assumes "distinct (map H (intents_of L ops))" "j < length ops" "HasIntent L (ops ! j)"
  shows "snd (bufferIntentOps L H idx ops (body, indices)) (H (ops ! j)) = Some (idx + j)"
  using assms
proof (induction ops arbitrary: idx j body indices)
  case (Cons op ops)
  have dist: "distinct (map H (intents_of L ops))" using Cons.prems(1) by (auto simp: intents_of_def split: if_splits)
  show ?case
  proof (cases j)
    case 0
    with Cons.prems have "H op \<notin> H ` set (intents_of L ops)" by (auto simp: intents_of_def)
    with 0 Cons.prems(3) show ?thesis by (simp add: bufferIntentOps_other)
  next
    case (Suc i)
    with Cons.prems Cons.IH [OF dist, of i] show ?thesis by simp
  qed
qed simp

text \<open>What the objects are once the solutions of the operations in \<open>A\<close> have been written.\<close>

definition write_solutions :: "(user_op \<Rightarrow> user_op) \<Rightarrow> user_op set \<Rightarrow> address \<Rightarrow> ('d, 's, 'x) mempool_scheme \<Rightarrow> ('d, 's, 'x) mempool_scheme" where
  "write_solutions sol A ep w = w\<lparr>mp_content := (mp_content w)(ep := (\<lambda>x. let op = mp_content w ep x in
     if op \<in> A then apply_solution (sol op) op else op))\<rparr>"

lemma write_solutions_empty [simp]: "write_solutions sol {} ep w = w"
  by (simp add: write_solutions_def)

lemma write_solutions_insert:
  assumes "op_id x \<notin> op_id ` A"
  shows "write_solutions sol A ep (write_object ep x (apply_solution (sol x) x) w) = write_solutions sol (insert x A) ep w"
proof -
  have "apply_solution (sol x) x \<notin> A" using assms by (metis apply_solution_id imageI)
  then show ?thesis by (auto simp: write_solutions_def write_object_def Let_def fun_eq_iff intro!: arg_cong [where f = "\<lambda>h. w\<lparr>mp_content := h\<rparr>"])
qed

text \<open>The loop over an answer in which every intent is solved; \<open>ix\<close> gives the position of an intent.\<close>

lemma solution_loop_solved:
  assumes "distinct (map op_id ys)" "inj_on ix (set ys)"
    and "\<forall>op \<in> set ys. indices (H op) = Some (ix op) \<and> ix op < length (Batch c) \<and> Batch c ! ix op = op"
  shows "\<exists>ops. solution_loop indices (map (\<lambda>op. (\<lparr>OriginalHashValue = H op, ProcessingStatus = Solved\<rparr>, Some (sol op))) ys) (w, c)
      = (None, write_solutions sol (set ys) (EntryPoint c) w, c\<lparr>Batch := ops\<rparr>) \<and> length ops = length (Batch c) \<and>
    (\<forall>j < length (Batch c). ops ! j =
       (if j \<in> ix ` set ys then apply_solution (sol (Batch c ! j)) (Batch c ! j) else Batch c ! j))"
  using assms
proof (induction ys arbitrary: w c)
  case Nil
  show ?case by (rule exI [where x = "Batch c"]) simp
next
  case (Cons x ys)
  let ?c = "c\<lparr>Batch := (Batch c)[ix x := apply_solution (sol x) x]\<rparr>"
  have x: "indices (H x) = Some (ix x)" "ix x < length (Batch c)" "Batch c ! ix x = x"
    using Cons.prems(3) by simp_all
  have other: "ix x \<noteq> ix op" if "op \<in> set ys" for op
    using Cons.prems(1,2) that by (auto intro: rev_image_eqI)
  have "\<forall>op \<in> set ys. indices (H op) = Some (ix op) \<and> ix op < length (Batch ?c) \<and> Batch ?c ! ix op = op"
    using Cons.prems(3) other by (auto simp: nth_list_update)
  from Cons.IH [OF _ _ this, of "write_object (EntryPoint c) x (apply_solution (sol x) x) w"] Cons.prems(1,2) obtain ops where ops:
    "solution_loop indices (map (\<lambda>op. (\<lparr>OriginalHashValue = H op, ProcessingStatus = Solved\<rparr>, Some (sol op))) ys)
      (write_object (EntryPoint c) x (apply_solution (sol x) x) w, ?c)
      = (None, write_solutions sol (set (x # ys)) (EntryPoint c) w, ?c\<lparr>Batch := ops\<rparr>)" "length ops = length (Batch ?c)"
    "\<forall>j < length (Batch ?c). ops ! j =
       (if j \<in> ix ` set ys then apply_solution (sol (Batch ?c ! j)) (Batch ?c ! j) else Batch ?c ! j)"
    using write_solutions_insert [of x "set ys" sol "EntryPoint c" w] by auto
  have "ops ! j = (if j \<in> ix ` set (x # ys) then apply_solution (sol (Batch c ! j)) (Batch c ! j) else Batch c ! j)"
    if "j < length (Batch c)" for j
    using ops(3) that other x by (cases "j = ix x") (auto simp: nth_list_update)
  with ops(1,2) x show ?case by (intro exI [where x = ops]) (simp add: Let_def)
qed

lemma solve_all:
  assumes "distinct (map H (intents_of L ops))" "mset ys = mset (intents_of L ops)" "ops = Batch c"
    and "distinct (map op_id (intents_of L ops))"
  shows "solution_loop (snd (bufferIntentOps L H 0 ops (body, Map.empty)))
      (map (\<lambda>op. (\<lparr>OriginalHashValue = H op, ProcessingStatus = Solved\<rparr>, Some (sol op))) ys) (w, c)
    = (None, write_solutions sol (set (intents_of L ops)) (EntryPoint c) w, c\<lparr>Batch := map (\<lambda>op. if HasIntent L op then apply_solution (sol op) op else op) ops\<rparr>)"
proof -
  define indices where "indices = snd (bufferIntentOps L H 0 ops (body, Map.empty))"
  define ix where "ix = (\<lambda>op. the (indices (H op)))"
  have ys: "set ys = set (intents_of L ops)" by (metis assms(2) set_mset_mset)
  have "mset (map op_id ys) = mset (map op_id (intents_of L ops))" using assms(2) by simp
  with assms(4) have dist: "distinct (map op_id ys)" by (metis mset_eq_imp_distinct_iff)
  have at: "indices (H (ops ! j)) = Some j" "ix (ops ! j) = j" if "j < length ops" "HasIntent L (ops ! j)" for j
    using bufferIntentOps_index [OF assms(1) that, of 0 body Map.empty] by (simp_all add: indices_def ix_def)
  have pos: "indices (H op) = Some (ix op) \<and> ix op < length (Batch c) \<and> Batch c ! ix op = op" if "op \<in> set ys" for op
  proof -
    from that ys obtain j where "j < length ops" "HasIntent L (ops ! j)" "op = ops ! j"
      by (auto simp: intents_of_def in_set_conv_nth)
    with at [of j] show ?thesis by (simp add: assms(3))
  qed
  have inj: "inj_on ix (set ys)" by (rule inj_onI) (metis pos)
  from solution_loop_solved [OF dist inj, of indices H c sol w] pos obtain res where res:
    "solution_loop indices (map (\<lambda>op. (\<lparr>OriginalHashValue = H op, ProcessingStatus = Solved\<rparr>, Some (sol op))) ys) (w, c)
      = (None, write_solutions sol (set (intents_of L ops)) (EntryPoint c) w, c\<lparr>Batch := res\<rparr>)" "length res = length (Batch c)"
    "\<forall>j < length (Batch c). res ! j =
       (if j \<in> ix ` set ys then apply_solution (sol (Batch c ! j)) (Batch c ! j) else Batch c ! j)" unfolding ys by blast
  have "j \<in> ix ` set ys \<longleftrightarrow> HasIntent L (ops ! j)" if j: "j < length ops" for j
  proof
    assume "j \<in> ix ` set ys"
    then obtain op where "op \<in> set ys" "j = ix op" by blast
    with pos [of op] ys show "HasIntent L (ops ! j)" by (auto simp: assms(3) intents_of_def)
  next
    assume "HasIntent L (ops ! j)"
    with at [OF j] j ys show "j \<in> ix ` set ys" by (force simp: intents_of_def)
  qed
  with res(2,3) have "res = map (\<lambda>op. if HasIntent L op then apply_solution (sol op) op else op) ops"
    by (intro nth_equalityI) (simp_all add: assms(3))
  with res(1) show ?thesis by (simp add: indices_def)
qed


definition hash_by_nonce :: "user_op \<Rightarrow> address \<Rightarrow> int \<Rightarrow> string" where
  "hash_by_nonce op ep chain = replicate (nat (Nonce op)) CHR ''x''"

definition sample_solver :: "processing_status list \<Rightarrow> solver" where
  "sample_solver sts body = Inr (\<lambda>i. Some (map_option (\<lambda>op. op\<lparr>CallGasLimit := 77\<rparr>) (UserOps body ! i)),
     \<lambda>i. Some ((UserOpsExt body ! i)\<lparr>ProcessingStatus := sts ! i\<rparr>))"

lemma sample_answers:
  "apply_solution (op\<lparr>CallGasLimit := g\<rparr>) op = op\<lparr>CallGasLimit := g\<rparr>"
  "hash_by_nonce (sample_op a n) ep chain = replicate (nat n) CHR ''x''"
  "hash_by_nonce (solved_op a n) ep chain = replicate (nat n) CHR ''x''"
  by (cases op; simp add: apply_solution_def) (simp_all add: hash_by_nonce_def solved_op_def)

lemma SolveIntents_writes:
  fixes hash and c :: batch_ctx
  defines "H \<equiv> (\<lambda>op. hash op (EntryPoint c) (ChainID c))"
  assumes "distinct (map H (intents_of L (Batch c)))" "mset ys = mset (intents_of L (Batch c))"
    and "distinct (map op_id (intents_of L (Batch c)))"
    and "sendToSolver S (intent_body H Received id (intents_of L (Batch c))) = Inr (intent_body H Solved sol ys)"
  shows "SolveIntents L hash S (w, c) = (None, write_solutions sol (set (intents_of L (Batch c))) (EntryPoint c) w,
    c\<lparr>Batch := map (\<lambda>op. if HasIntent L op then apply_solution (sol op) op else op) (Batch c)\<rparr>)"
proof -
  let ?empty = "\<lparr>UserOps = [], UserOpsExt = []\<rparr>"
  obtain body indices where buf: "bufferIntentOps L H 0 (Batch c) (?empty, Map.empty) = (body, indices)" by fastforce
  have body: "body = intent_body H Received id (intents_of L (Batch c))"
    using bufferIntentOps_body [of L H 0 "Batch c" ?empty Map.empty] buf by (simp add: intent_body_def)
  show ?thesis
  proof (cases "intents_of L (Batch c) = []")
    case True
    then have "map (\<lambda>op. if HasIntent L op then apply_solution (sol op) op else op) (Batch c) = Batch c"
      by (auto simp: intents_of_def filter_empty_conv intro: map_idI)
    with True buf body show ?thesis by (simp add: SolveIntents_def H_def intent_body_def)
  next
    case False
    have "zip (UserOpsExt (intent_body H Solved sol ys)) (UserOps (intent_body H Solved sol ys))
        = map (\<lambda>op. (\<lparr>OriginalHashValue = H op, ProcessingStatus = Solved\<rparr>, Some (sol op))) ys"
      by (simp add: intent_body_def zip_map_map zip_same_conv_map)
    with solve_all [OF assms(2,3) refl assms(4), of ?empty sol w] buf assms(5) body False show ?thesis
      by (simp add: SolveIntents_def H_def intent_body_def)
  qed
qed

text \<open>
  C27: when the hashes and the keys of the intents of the batch are distinct and the solver answers all
  of them as solved, in any order, \<open>SolveIntents\<close> replaces each intent by its solution and nothing else:
  the operations keep their places, sender, nonce and paymaster, and nothing is marked for removal. The
  objects in the queues of the pool are replaced likewise, and the database is as before.
\<close>

theorem SolveIntents_solved:
  fixes hash and c :: batch_ctx
  defines "H \<equiv> (\<lambda>op. hash op (EntryPoint c) (ChainID c))"
  assumes "distinct (map H (intents_of L (Batch c)))" "mset ys = mset (intents_of L (Batch c))"
    and "distinct (map op_id (intents_of L (Batch c)))"
    and "sendToSolver S (intent_body H Received id (intents_of L (Batch c))) = Inr (intent_body H Solved sol ys)"
  shows "SolveIntents L hash S (w, c) =
    (None, w\<lparr>mp_content := (mp_content w)(EntryPoint c := (\<lambda>x. let op = mp_content w (EntryPoint c) x in
        if op \<in> set (Batch c) \<and> HasIntent L op then apply_solution (sol op) op else op))\<rparr>,
     c\<lparr>Batch := map (\<lambda>op. if HasIntent L op then apply_solution (sol op) op else op) (Batch c)\<rparr>)"
  using SolveIntents_writes [where hash = hash and c = c and L = L and ys = ys and S = S and sol = sol and w = w] assms
  by (simp add: write_solutions_def intents_of_def)

theorem SolveIntents_solved_witness:
  "snd (snd (SolveIntents good_chain hash_by_nonce (sample_solver [Solved]) (empty_pool, sample_ctx [sample_op 5 3, solved_op 6 1])))
    = sample_ctx [sample_op 5 3, (solved_op 6 1)\<lparr>CallGasLimit := 77\<rparr>]"
  by (subst SolveIntents_solved [where ys = "[solved_op 6 1]" and sol = "\<lambda>op. op\<lparr>CallGasLimit := 77\<rparr>"])
    (simp_all add: intents_of_def sample_ctx_def NewBatchHandlerContext_def good_chain_intents intent_body_def
      sendToSolver_def sample_solver_def overwrite_def sample_answers)

text \<open>
  C28: the positions of the intents are those of the batch as it was, and each rejection shifts it: when
  the solver rejects the first of two intents and solves the second, \<open>SolveIntents\<close> panics.
\<close>

theorem SolveIntents_panics:
  assumes "Batch c = [a, b]" "HasIntent L a" "HasIntent L b" "Ha = hash a (EntryPoint c) (ChainID c)"
    and "Hb = hash b (EntryPoint c) (ChainID c)" "Ha \<noteq> Hb"
    and "sendToSolver S \<lparr>UserOps = [Some a, Some b], UserOpsExt = [\<lparr>OriginalHashValue = Ha, ProcessingStatus = Received\<rparr>,
        \<lparr>OriginalHashValue = Hb, ProcessingStatus = Received\<rparr>]\<rparr>
      = Inr \<lparr>UserOps = [Some a', Some b'], UserOpsExt = [\<lparr>OriginalHashValue = Ha, ProcessingStatus = Expired\<rparr>,
        \<lparr>OriginalHashValue = Hb, ProcessingStatus = Solved\<rparr>]\<rparr>"
  shows "SolveIntents L hash S (w, c) = (Some (Panicked ''index out of range''), w,
    c\<lparr>Batch := [b], PendingRemoval := PendingRemoval c @ [a]\<rparr>)"
proof -
  have "MarkOpIndexForRemoval 0 c = c\<lparr>Batch := [b], PendingRemoval := PendingRemoval c @ [a]\<rparr>"
    using MarkOpIndexForRemoval_in [of 0 c] assms(1) by (simp add: remove_nth_def)
  with assms show ?thesis by (simp add: SolveIntents_def Let_def)
qed

theorem SolveIntents_panics_witness:
  "fst (SolveIntents good_chain hash_by_nonce (sample_solver [Expired, Solved])
     (empty_pool, sample_ctx [solved_op 5 3, solved_op 6 1])) = Some (Panicked ''index out of range'')"
  by (subst SolveIntents_panics [where a = "solved_op 5 3" and b = "solved_op 6 1" and Ha = "''xxx''" and Hb = "''x''"
      and a' = "(solved_op 5 3)\<lparr>CallGasLimit := 77\<rparr>" and b' = "(solved_op 6 1)\<lparr>CallGasLimit := 77\<rparr>"])
    (simp_all add: sample_ctx_def NewBatchHandlerContext_def good_chain_intents sample_answers
      sendToSolver_def sample_solver_def overwrite_def numeral_3_eq_3)

end
