(* ===== verification/Bundler.thy ===== *)
theory Bundler
  imports Solution
begin

text \<open>
  \<open>pkg/bundler\<close>: the mediator that takes a batch from the pool, runs the modules over it and removes
  what they are done with. \<open>Process\<close> returns \<open>None\<close> when a module does not return. The modules and the
  fee functions are indexed by the number of the run, since the node may answer each run differently.
  The composed handler is kept as the list of its parts, so that the theory of the loop can stop
  between two of them.
\<close>

record 'w bundler =
  bu_chainID :: int
  bu_supportedEntryPoints :: "address list"
  bu_modules :: "(nat \<Rightarrow> 'w batch_run) list"
  bu_maxBatch :: int
  bu_gbf :: "nat \<Rightarrow> int option res"
  bu_ggt :: "nat \<Rightarrow> int option res"
  bu_ggp :: "nat \<Rightarrow> int option res"

definition New_bundler :: "int \<Rightarrow> address list \<Rightarrow> 'w bundler" where
  "New_bundler chainID supportedEntryPoints =
     \<lparr>bu_chainID = chainID, bu_supportedEntryPoints = supportedEntryPoints,
      bu_modules = [\<lambda>n. returns noop_BatchHandler], bu_maxBatch = 0,
      bu_gbf = (\<lambda>n. NoopGetBaseFeeFunc), bu_ggt = (\<lambda>n. NoopGetGasTipFunc), bu_ggp = (\<lambda>n. NoopGetLegacyGasPriceFunc)\<rparr>"

definition SetMaxBatch :: "int \<Rightarrow> 'w bundler \<Rightarrow> 'w bundler" where
  "SetMaxBatch m b = b\<lparr>bu_maxBatch := m\<rparr>"

definition SetGetBaseFeeFunc :: "(nat \<Rightarrow> int option res) \<Rightarrow> 'w bundler \<Rightarrow> 'w bundler" where
  "SetGetBaseFeeFunc gbf b = b\<lparr>bu_gbf := gbf\<rparr>"

definition SetGetGasTipFunc :: "(nat \<Rightarrow> int option res) \<Rightarrow> 'w bundler \<Rightarrow> 'w bundler" where
  "SetGetGasTipFunc ggt b = b\<lparr>bu_ggt := ggt\<rparr>"

definition SetGetLegacyGasPriceFunc :: "(nat \<Rightarrow> int option res) \<Rightarrow> 'w bundler \<Rightarrow> 'w bundler" where
  "SetGetLegacyGasPriceFunc ggp b = b\<lparr>bu_ggp := ggp\<rparr>"

definition bundler_UseModules :: "(nat \<Rightarrow> 'w batch_run) list \<Rightarrow> 'w bundler \<Rightarrow> 'w bundler" where
  "bundler_UseModules handlers b = b\<lparr>bu_modules := handlers\<rparr>"

definition bu_batchHandler :: "'w bundler \<Rightarrow> nat \<Rightarrow> 'w batch_run" where
  "bu_batchHandler b n = compose_runs (map (\<lambda>h. h n) (bu_modules b))"

text \<open>The value the gauge of \<open>UserMeter\<close> observes.\<close>

fun observed_size :: "'s sset \<Rightarrow> address list \<Rightarrow> int \<Rightarrow> ('d, 's, 'x) mempool_scheme \<Rightarrow> int \<times> ('d, 's, 'x) mempool_scheme" where
  "observed_size S [] acc w = (acc, w)"
| "observed_size S (ep # eps) acc w =
     (let (batch, w) = Dump S ep w in observed_size S eps (acc + int (length batch)) w)"

definition adjustBatchSize :: "int \<Rightarrow> user_op list \<Rightarrow> user_op list" where
  "adjustBatchSize max_size batch =
     (if int (length batch) > max_size \<and> max_size > 0 then take (nat max_size) batch else batch)"

definition remaining_ops :: "'y userop_lib_scheme \<Rightarrow> batch_ctx \<Rightarrow> user_op list" where
  "remaining_ops L c = filter (\<lambda>op. \<not> IsUnsolvedIntent L op) (Batch c) @ PendingRemoval c"

text \<open>\<open>Process\<close> up to the call of the modules: no batch when the pool is empty.\<close>

definition take_batch :: "'s sset \<Rightarrow> ('d, 's, 'x) mempool_scheme bundler \<Rightarrow> nat \<Rightarrow> address \<Rightarrow> ('d, 's, 'x) mempool_scheme \<Rightarrow>
    batch_ctx option res \<times> ('d, 's, 'x) mempool_scheme" where
  "take_batch S b n ep w =
     (let (batch, w) = Dump S ep w in
      if length batch = 0 then (Inr None, w)
      else
        let batch = adjustBatchSize (bu_maxBatch b) batch in
        (bind_res (bu_gbf b n) (\<lambda>bf.
         bind_res (if bf \<noteq> None then bu_ggt b n else Inr None) (\<lambda>gt.
         bind_res (bu_ggp b n) (\<lambda>gp. Inr (Some (NewBatchHandlerContext batch ep (bu_chainID b) bf gt gp))))), w))"

text \<open>\<open>Process\<close> after the modules.\<close>

definition finish_batch :: "'y userop_lib_scheme \<Rightarrow> 'd badger \<Rightarrow> 's sset \<Rightarrow> address \<Rightarrow> batch_ctx \<Rightarrow>
    ('d, 's, 'x) mempool_scheme \<Rightarrow> batch_ctx option res \<times> ('d, 's, 'x) mempool_scheme" where
  "finish_batch L B S ep c w =
     (case RemoveOps L B S ep (remaining_ops L c) w of
        (Some err, w) \<Rightarrow> (Inl err, w)
      | (None, w) \<Rightarrow> (Inr (Some c), w))"

definition Process :: "'y userop_lib_scheme \<Rightarrow> 'd badger \<Rightarrow> 's sset \<Rightarrow> ('d, 's, 'x) mempool_scheme bundler \<Rightarrow>
    nat \<Rightarrow> address \<Rightarrow> ('d, 's, 'x) mempool_scheme \<Rightarrow> (batch_ctx option res \<times> ('d, 's, 'x) mempool_scheme) option" where
  "Process L B S b n ep w =
     (case take_batch S b n ep w of
        (Inl err, w) \<Rightarrow> Some (Inl err, w)
      | (Inr None, w) \<Rightarrow> Some (Inr None, w)
      | (Inr (Some c), w) \<Rightarrow>
          (case bu_batchHandler b n (w, c) of
             None \<Rightarrow> None
           | Some (Some err, w, c) \<Rightarrow> Some (Inl err, w)
           | Some (None, w, c) \<Rightarrow> Some (finish_batch L B S ep c w)))"

subsection \<open>One run over the pool\<close>

lemma op_id_eta: "(\<lambda>op. (Sender op, Nonce op)) = op_id"
  by (rule ext) (simp add: op_id_def)

lemma adjustBatchSize_prefix: "prefix (adjustBatchSize m ops) ops"
  by (simp add: adjustBatchSize_def take_is_prefix)

lemma adjustBatchSize_length: "0 < m \<Longrightarrow> length (adjustBatchSize m ops) = min (nat m) (length ops)"
  by (auto simp: adjustBatchSize_def)

lemma take_batch_result:
  assumes "take_batch S b n ep w = (r, w')"
  shows "w' = snd (Dump S ep w)"
    "r = Inr (Some c) \<Longrightarrow> Batch c = adjustBatchSize (bu_maxBatch b) (fst (Dump S ep w)) \<and> PendingRemoval c = [] \<and> EntryPoint c = ep"
  using assms by (auto simp: take_batch_def NewBatchHandlerContext_def Let_def bind_res_eq_Inr split: prod.splits if_splits)

lemma Process_cases:
  fixes w :: "('d, 's, 'x) mempool_scheme"
  assumes "Process L B S b n ep w = Some (r, w')"
  obtains (quiet) "\<And>c. r \<noteq> Inr (Some c)" "w' = snd (Dump S ep w)" "take_batch S b n ep w = (r, w')"
  | (handler_error) c err c' where "take_batch S b n ep w = (Inr (Some c), snd (Dump S ep w))"
      "bu_batchHandler b n (snd (Dump S ep w), c) = Some (Some err, w', c')" "r = Inl err"
  | (remove_error) c c' w2 err where "take_batch S b n ep w = (Inr (Some c), snd (Dump S ep w))"
      "bu_batchHandler b n (snd (Dump S ep w), c) = Some (None, w2, c')"
      "RemoveOps L B S ep (remaining_ops L c') w2 = (Some err, w')" "r = Inl err"
  | (processed) c c' w2 where "take_batch S b n ep w = (Inr (Some c), snd (Dump S ep w))"
      "bu_batchHandler b n (snd (Dump S ep w), c) = Some (None, w2, c')"
      "RemoveOps L B S ep (remaining_ops L c') w2 = (None, w')" "r = Inr (Some c')"
proof -
  obtain r1 w1 where take: "take_batch S b n ep w = (r1, w1)" by fastforce
  note w1 = take_batch_result(1) [OF take]
  show thesis
  proof (cases "\<exists>c. r1 = Inr (Some c)")
    case False
    with assms take w1 show thesis by (intro quiet) (auto simp: Process_def split: sum.splits option.splits)
  next
    case True
    then obtain c where c: "r1 = Inr (Some c)" by blast
    obtain e w2 c' where h: "bu_batchHandler b n (w1, c) = Some (e, w2, c')"
      using assms take c by (cases "bu_batchHandler b n (w1, c)") (auto simp: Process_def)
    show thesis
    proof (cases e)
      case (Some err)
      with assms take c h w1 show thesis by (intro handler_error [of c err c']) (auto simp: Process_def)
    next
      case None
      obtain e' w3 where rm: "RemoveOps L B S ep (remaining_ops L c') w2 = (e', w3)" by fastforce
      show thesis
      proof (cases e')
        case (Some err)
        with assms take c h w1 rm None show thesis by (intro remove_error [of c w2 c' err]) (auto simp: Process_def finish_batch_def)
      next
        case e': None
        with assms take c h w1 rm None show thesis by (intro processed [of c w2 c']) (auto simp: Process_def finish_batch_def)
      qed
    qed
  qed
qed

lemma image_minus: "(\<And>x. x \<in> A' \<longleftrightarrow> x \<in> A \<and> f x \<notin> K) \<Longrightarrow> f ` A' = f ` A - K"
  by auto

lemma same_look_dump:
  assumes "pool_inv L B S nodes w" "pool_inv L B S nodes w'" "pool_look L nodes w' = pool_look L nodes w"
  shows "set (fst (Dump S ep w')) = set (fst (Dump S ep w))"
  using pool.dump_set [OF assms(1), of _ ep] pool.dump_set [OF assms(2), of _ ep] assms(3) by auto

text \<open>The keys of the pool under its operations.\<close>

abbreviation pooled :: "'s sset \<Rightarrow> address \<Rightarrow> ('d, 's, 'x) mempool_scheme \<Rightarrow> (address \<times> int) set" where
  "pooled S ep w \<equiv> op_id ` set (fst (Dump S ep w))"

lemma pooled_dump:
  assumes "pool_inv L B S nodes w"
  shows "pooled S ep' (snd (Dump S ep w)) = pooled S ep' w"
  using same_look_dump [OF assms pool.dump_inv [OF assms] pool.dump_look [OF assms]] by simp

lemma pooled_step: "pool_step B w w' \<Longrightarrow> pooled S ep w' = pooled S ep w"
  by (rule same_ids_set [OF pool_step_dump])

lemma pooled_remove:
  assumes "pool_inv L B S nodes w"
  shows "pooled S ep' (snd (RemoveOps L B S ep ops w)) =
    (if fst (RemoveOps L B S ep ops w) = None \<and> ep' = ep then pooled S ep w - op_id ` set ops else pooled S ep' w)"
proof (cases "fst (RemoveOps L B S ep ops w) = None \<and> ep' = ep")
  case True
  have "x \<in> set (fst (Dump S ep (snd (RemoveOps L B S ep ops w)))) \<longleftrightarrow> x \<in> set (fst (Dump S ep w)) \<and> op_id x \<notin> op_id ` set ops" for x
    using pool.dump_after_remove [OF assms, of ep ops x] True by (simp add: op_id_eta op_id_def)
  from image_minus [OF this] True show ?thesis by simp
next
  case False
  have "pool_look L nodes (snd (RemoveOps L B S ep ops w)) ep' = pool_look L nodes w ep'"
    using False pool.remove_look [OF assms, of ep ops] by (auto simp: map_remove_ops_def fun_eq_iff)
  then have "set (fst (Dump S ep' (snd (RemoveOps L B S ep ops w)))) = set (fst (Dump S ep' w))"
    using pool.dump_set [OF assms] pool.dump_set [OF pool.remove_inv [OF assms, of ep ops]] by auto
  with False show ?thesis by auto
qed

lemma pooled_add:
  assumes "pool_inv L B S nodes w" "wf_op op"
  shows "pooled S ep' (snd (AddOp L B S ep op w)) =
    (if fst (AddOp L B S ep op w) = None \<and> ep' = ep then insert (op_id op) (pooled S ep w) else pooled S ep' w)"
proof (cases "fst (AddOp L B S ep op w) = None \<and> ep' = ep")
  case True
  note after = pool.dump_after_add [OF assms, of ep]
  have new: "op \<in> set (fst (Dump S ep (snd (AddOp L B S ep op w))))" using after(1) True by simp
  have old: "x \<noteq> op \<Longrightarrow> x \<in> set (fst (Dump S ep (snd (AddOp L B S ep op w)))) \<longleftrightarrow> x \<in> set (fst (Dump S ep w)) \<and> op_id x \<noteq> op_id op" for x
    using after(2) [of x] True by (simp add: op_id_def)
  let ?A = "set (fst (Dump S ep w))"
  have "set (fst (Dump S ep (snd (AddOp L B S ep op w)))) = insert op {x \<in> ?A. op_id x \<noteq> op_id op}"
  proof (rule set_eqI)
    fix x
    show "x \<in> set (fst (Dump S ep (snd (AddOp L B S ep op w)))) \<longleftrightarrow> x \<in> insert op {x \<in> ?A. op_id x \<noteq> op_id op}"
      using new old [of x] by (cases "x = op") simp_all
  qed
  moreover have "op_id ` insert op {x \<in> ?A. op_id x \<noteq> op_id op} = insert (op_id op) (op_id ` ?A)" by auto
  ultimately show ?thesis using True by simp
next
  case False
  have "pool_look L nodes (snd (AddOp L B S ep op w)) ep' = pool_look L nodes w ep'"
    using False pool.add_look [OF assms(1), of ep op] by (auto simp: map_add_op_def fun_eq_iff)
  then have "set (fst (Dump S ep' (snd (AddOp L B S ep op w)))) = set (fst (Dump S ep' w))"
    using pool.dump_set [OF assms(1)] pool.dump_set [OF pool.add_inv [OF assms, of ep]] by auto
  with False show ?thesis by auto
qed

text \<open>The invariant of the pool after a run, and its keys.\<close>

lemma Process_world:
  assumes "pool_inv L B S nodes w" "batch_runner B (bu_batchHandler b n)" "Process L B S b n ep w = Some (r, w')"
  shows "pool_inv L B S nodes w'" "ep' \<noteq> ep \<Longrightarrow> pooled S ep' w' = pooled S ep' w"
    "\<And>c. r = Inr (Some c) \<Longrightarrow> op_id ` set (remaining_ops L c) \<subseteq> op_id ` set (adjustBatchSize (bu_maxBatch b) (fst (Dump S ep w))) \<and>
        pooled S ep w' = pooled S ep w - op_id ` set (remaining_ops L c)"
    "(\<And>c. r \<noteq> Inr (Some c)) \<Longrightarrow> pooled S ep w' = pooled S ep w"
proof -
  let ?w = "snd (Dump S ep w)"
  note inv = pool.dump_inv [OF assms(1), of ep]
  have ran: "pool_inv L B S nodes w2 \<and> pooled S e w2 = pooled S e w"
    if "bu_batchHandler b n (?w, c) = Some (x, w2, c')" for c x w2 c' e
    using batch_runner.run_pool_inv [OF assms(2) that inv] pooled_step [OF batch_runner.run_pool [OF assms(2) that]]
      pooled_dump [OF assms(1)] by metis
  have "pool_inv L B S nodes w' \<and> (ep' \<noteq> ep \<longrightarrow> pooled S ep' w' = pooled S ep' w) \<and>
    (\<forall>c. r = Inr (Some c) \<longrightarrow> op_id ` set (remaining_ops L c) \<subseteq> op_id ` set (adjustBatchSize (bu_maxBatch b) (fst (Dump S ep w))) \<and>
        pooled S ep w' = pooled S ep w - op_id ` set (remaining_ops L c)) \<and>
    ((\<forall>c. r \<noteq> Inr (Some c)) \<longrightarrow> pooled S ep w' = pooled S ep w)"
    using assms(3)
  proof (cases rule: Process_cases)
    case quiet
    with inv pooled_dump [OF assms(1)] show ?thesis by auto
  next
    case (handler_error c err c')
    with ran show ?thesis by auto
  next
    case (remove_error c c' w2 err)
    note w2 = conjunct1 [OF ran [OF remove_error(2)]]
    from pool.remove_inv [OF w2, of ep "remaining_ops L c'"] pooled_remove [OF w2, of _ ep "remaining_ops L c'"]
      ran [OF remove_error(2)] remove_error(3,4) show ?thesis by auto
  next
    case (processed c c' w2)
    note w2 = conjunct1 [OF ran [OF processed(2)]]
    have "op_id ` (set (Batch c') \<union> set (PendingRemoval c')) \<subseteq> op_id ` (set (Batch c) \<union> set (PendingRemoval c))"
      by (rule batch_runner.run_ids [OF assms(2) processed(2)])
    with take_batch_result(2) [OF processed(1) refl]
    have sub: "op_id ` set (remaining_ops L c') \<subseteq> op_id ` set (adjustBatchSize (bu_maxBatch b) (fst (Dump S ep w)))"
      by (auto simp: remaining_ops_def image_Un)
    have w': "fst (RemoveOps L B S ep (remaining_ops L c') w2) = None" "w' = snd (RemoveOps L B S ep (remaining_ops L c') w2)"
      using processed(3) by simp_all
    have "pooled S e w' = (if e = ep then pooled S ep w - op_id ` set (remaining_ops L c') else pooled S e w)" for e
      using pooled_remove [OF w2, of e ep "remaining_ops L c'"] conjunct2 [OF ran [OF processed(2)]] w' by simp
    then have keys: "ep' \<noteq> ep \<Longrightarrow> pooled S ep' w' = pooled S ep' w"
      "pooled S ep w' = pooled S ep w - op_id ` set (remaining_ops L c')" by simp_all
    have "pool_inv L B S nodes w'" using pool.remove_inv [OF w2, of ep "remaining_ops L c'"] unfolding w'(2) [symmetric] .
    moreover have "(\<forall>c. r \<noteq> Inr (Some c)) \<longleftrightarrow> False" using processed(4) by simp
    moreover have "r = Inr (Some c'') \<longleftrightarrow> c'' = c'" for c'' using processed(4) by auto
    ultimately show ?thesis using keys(1) sub unfolding keys(2) by simp
  qed
  note all = this
  show "pool_inv L B S nodes w'" using all by (rule conjunct1)
  show "ep' \<noteq> ep \<Longrightarrow> pooled S ep' w' = pooled S ep' w" using all by (elim conjE) (rule mp)
  show "\<And>c. r = Inr (Some c) \<Longrightarrow> op_id ` set (remaining_ops L c) \<subseteq> op_id ` set (adjustBatchSize (bu_maxBatch b) (fst (Dump S ep w))) \<and>
        pooled S ep w' = pooled S ep w - op_id ` set (remaining_ops L c)"
    using all by (elim conjE allE) (rule mp)
  show "(\<And>c. r \<noteq> Inr (Some c)) \<Longrightarrow> pooled S ep w' = pooled S ep w" using all by (elim conjE) (rule mp, assumption, rule allI)
qed


subsection \<open>Runs in a row\<close>

fun process_runs :: "'y userop_lib_scheme \<Rightarrow> 'd badger \<Rightarrow> 's sset \<Rightarrow> ('d, 's, 'x) mempool_scheme bundler \<Rightarrow> address \<Rightarrow>
    nat \<Rightarrow> nat \<Rightarrow> ('d, 's, 'x) mempool_scheme \<Rightarrow> ('d, 's, 'x) mempool_scheme option" where
  "process_runs L B S b ep 0 n w = Some w"
| "process_runs L B S b ep (Suc k) n w =
     (case Process L B S b n ep w of None \<Rightarrow> None | Some (r, w') \<Rightarrow> process_runs L B S b ep k (n + 1) w')"

text \<open>Modules that return, keep or mark every operation of the batch and leave no unsolved intent.\<close>

definition keeps_all :: "'y userop_lib_scheme \<Rightarrow> 'd badger \<Rightarrow> ('d, 's, 'x) mempool_scheme bundler \<Rightarrow> bool" where
  "keeps_all L B b \<longleftrightarrow> (\<forall>n v c. \<exists>v' c'. bu_batchHandler b n (v, c) = Some (None, v', c') \<and> ctx_mark c c' \<and>
     pool_step B v v' \<and> (\<forall>op \<in> set (Batch c'). \<not> IsUnsolvedIntent L op))"

definition fees_known :: "'w bundler \<Rightarrow> bool" where
  "fees_known b \<longleftrightarrow> (\<forall>n. \<exists>bf gt gp. bu_gbf b n = Inr bf \<and> bu_ggt b n = Inr gt \<and> bu_ggp b n = Inr gp)"

lemma keeps_all_runner: "keeps_all L B b \<Longrightarrow> batch_runner B (bu_batchHandler b n)"
  unfolding keeps_all_def by unfold_locales (metis ctx_mark_step option.inject prod.inject)+

lemma dump_card:
  assumes "pool_inv L B S nodes w"
  shows "card (op_id ` set (fst (Dump S ep w))) = length (fst (Dump S ep w))"
  using distinct_card [OF pool.dump_distinct [OF assms, of ep]] by (simp add: op_id_eta)

lemma Process_shrinks:
  fixes w :: "('d, 's, 'x) mempool_scheme"
  assumes "pool_inv L B S nodes w" "0 < bu_maxBatch b" "fees_known b" "keeps_all L B b"
    and "\<And>v ops. fst (RemoveOps L B S ep ops (v :: ('d, 's, 'x) mempool_scheme)) = None"
  shows "\<exists>r w'. Process L B S b n ep w = Some (r, w') \<and> pool_inv L B S nodes w' \<and>
    length (fst (Dump S ep w')) = length (fst (Dump S ep w)) - nat (bu_maxBatch b)"
proof -
  obtain ops w1 where dump: "Dump S ep w = (ops, w1)" by fastforce
  let ?batch = "adjustBatchSize (bu_maxBatch b) ops"
  show ?thesis
  proof (cases "ops = []")
    case True
    then have run: "Process L B S b n ep w = Some (Inr None, w1)" by (simp add: Process_def take_batch_def dump)
    note world = Process_world [OF assms(1) keeps_all_runner [OF assms(4)] run]
    from world(4) dump True have "fst (Dump S ep w1) = []" by simp
    with run world(1) dump True show ?thesis by simp
  next
    case False
    obtain bf gt gp where fees: "bu_gbf b n = Inr bf" "bu_ggt b n = Inr gt" "bu_ggp b n = Inr gp"
      using assms(3) unfolding fees_known_def by blast
    define c where "c = NewBatchHandlerContext ?batch ep (bu_chainID b) bf (if bf \<noteq> None then gt else None) gp"
    obtain w2 c' where h: "bu_batchHandler b n (w1, c) = Some (None, w2, c')" "ctx_mark c c'"
      "\<forall>op \<in> set (Batch c'). \<not> IsUnsolvedIntent L op" using assms(4) unfolding keeps_all_def by blast
    obtain w' where rm: "RemoveOps L B S ep (remaining_ops L c') w2 = (None, w')"
      using assms(5) [of "remaining_ops L c'" w2] by (cases "RemoveOps L B S ep (remaining_ops L c') w2") auto
    have run: "Process L B S b n ep w = Some (Inr (Some c'), w')"
      using False fees h(1) rm by (cases bf) (simp_all add: Process_def take_batch_def finish_batch_def dump c_def)
    note world = Process_world [OF assms(1) keeps_all_runner [OF assms(4)] run]
    have "remaining_ops L c' = Batch c' @ PendingRemoval c'"
      using h(3) by (simp add: remaining_ops_def filter_id_conv)
    moreover have "mset (map op_id (Batch c' @ PendingRemoval c')) = mset (map op_id ?batch)"
      using h(2) by (simp add: ctx_mark_def batch_ids_def c_def NewBatchHandlerContext_def)
    ultimately have "op_id ` set (remaining_ops L c') = op_id ` set ?batch"
      by (metis set_map set_mset_mset)
    with world(3) dump have keys: "op_id ` set (fst (Dump S ep w')) = op_id ` set ops - op_id ` set ?batch" by simp
    have sub: "op_id ` set ?batch \<subseteq> op_id ` set ops"
      using set_mono_prefix [OF adjustBatchSize_prefix] by (intro image_mono)
    have dist: "distinct (map op_id ops)" using pool.dump_distinct [OF assms(1), of ep] dump by (simp add: op_id_eta)
    then have "distinct (map op_id ?batch)"
      by (simp add: adjustBatchSize_def flip: take_map)
    then have "card (op_id ` set ?batch) = min (nat (bu_maxBatch b)) (length ops)"
      using distinct_card [of "map op_id ?batch"] by (simp add: adjustBatchSize_length [OF assms(2)])
    moreover have "card (op_id ` set ops) = length ops" using dump_card [OF assms(1), of ep] dump by simp
    ultimately have "length (fst (Dump S ep w')) = length ops - nat (bu_maxBatch b)"
      using card_Diff_subset [OF _ sub] dump_card [OF world(1), of ep] keys by simp
    with run world(1) dump show ?thesis by simp
  qed
qed

lemma process_runs_drain:
  fixes w :: "('d, 's, 'x) mempool_scheme"
  assumes "0 < bu_maxBatch b" "fees_known b" "keeps_all L B b"
    and "\<And>v ops. fst (RemoveOps L B S ep ops (v :: ('d, 's, 'x) mempool_scheme)) = None"
  shows "pool_inv L B S nodes w \<Longrightarrow> length (fst (Dump S ep w)) \<le> k * nat (bu_maxBatch b) \<Longrightarrow>
    \<exists>w'. process_runs L B S b ep k n w = Some w' \<and> fst (Dump S ep w') = [] \<and> pool_inv L B S nodes w'"
proof (induction k arbitrary: n w)
  case (Suc k)
  from Process_shrinks [OF Suc.prems(1) assms, of n] obtain r w1 where run: "Process L B S b n ep w = Some (r, w1)"
    "pool_inv L B S nodes w1" "length (fst (Dump S ep w1)) = length (fst (Dump S ep w)) - nat (bu_maxBatch b)" by blast
  have "length (fst (Dump S ep w1)) \<le> k * nat (bu_maxBatch b)" using run(3) Suc.prems(2) by simp
  from Suc.IH [OF run(2) this, of "n + 1"] run(1) show ?case by simp
qed simp

subsection \<open>Keys\<close>

text \<open>
  The senders and nonces of the pool are distinct, and those of the database. Two pools can differ in
  more: a solution is written into the object that the queues of the pool hold and not into the
  database, which operations as values do not show.
\<close>

definition same_keys :: "'y userop_lib_scheme \<Rightarrow> 'd badger \<Rightarrow> 's sset \<Rightarrow> ('d, 's, 'x) mempool_scheme \<Rightarrow> bool" where
  "same_keys L B S m \<longleftrightarrow> (\<forall>ep. distinct (map op_id (fst (Dump S ep m))) \<and>
     (\<forall>a n. (a, n) \<in> op_id ` set (fst (Dump S ep m)) \<longleftrightarrow> (\<exists>v. txn_Get B (mp_db m) (getUniqueKey L ep a n) = Inr v)))"

lemma pool_inv_same_keys:
  assumes "pool_inv L B S nodes m"
  shows "same_keys L B S m"
proof -
  note I = pool_invD [OF assms]
  have ids: "(a, n) \<in> op_id ` set (fst (Dump S ep m)) \<longleftrightarrow> (\<exists>op. pool_look L nodes m ep a n = Some op)" for ep a n
  proof
    assume "(a, n) \<in> op_id ` set (fst (Dump S ep m))"
    then obtain op where "op \<in> set (fst (Dump S ep m))" "Sender op = a" "Nonce op = n" by (auto simp: op_id_def)
    then show "\<exists>op. pool_look L nodes m ep a n = Some op" using pool.dump_set [OF assms, of op ep] by blast
  next
    assume "\<exists>op. pool_look L nodes m ep a n = Some op"
    then obtain op where op: "pool_look L nodes m ep a n = Some op" by blast
    with pool.look_key [OF assms op] have "op \<in> set (fst (Dump S ep m))" "op_id op = (a, n)"
      using pool.dump_set [OF assms, of op ep] by (simp_all add: op_id_def)
    then show "(a, n) \<in> op_id ` set (fst (Dump S ep m))" by (metis imageI)
  qed
  have db: "(\<exists>v. txn_Get B (mp_db m) (getUniqueKey L ep a n) = Inr v) \<longleftrightarrow> (\<exists>op. pool_look L nodes m ep a n = Some op)" for ep a n
  proof -
    let ?M = "lookup L nodes (mp_queue m)"
    have "txn_Get B (mp_db m) (getUniqueKey L ep a n) = Inr v \<longleftrightarrow> (\<exists>op. v = op_doc L op \<and> Sender op = a \<and> Nonce op = n \<and>
        ?M ep a n = Some op)" for v
      using I(6) [unfolded db_agrees_def, rule_format, OF getUniqueKey_prefix [of L ep a n], of v]
      by (auto simp: op_key_def getUniqueKey_inject [OF I(1)])
    then have "(\<exists>v. txn_Get B (mp_db m) (getUniqueKey L ep a n) = Inr v) \<longleftrightarrow> (\<exists>op. ?M ep a n = Some op)"
      using lookup_keys [OF assms, of ep a n] by blast
    then show ?thesis by (simp add: pool_look_def)
  qed
  show ?thesis unfolding same_keys_def ids db using pool.dump_distinct [OF assms] by (simp add: op_id_eta)
qed


subsection \<open>Properties\<close>

definition plain_ref :: userop_lib where
  "plain_ref = userop_ref\<lparr>model_Validate := \<lambda>op. Inr OtherUserOp\<rparr>"

definition pool_with :: "'y userop_lib_scheme \<Rightarrow> user_op list \<Rightarrow> ((string \<times> db_value) list, user_op node list) mempool" where
  "pool_with L ops = fold (\<lambda>op w. snd (AddOp L badger_ref sortedset_ref 9 op w)) ops empty_pool"

definition sample_bundler :: "((string \<times> db_value) list, user_op node list) mempool bundler" where
  "sample_bundler = SetMaxBatch 1 (New_bundler 1 [9])"

lemma plain_ref_ok: "eth_lib_ok plain_ref"
  using userop_ref_ok by (simp add: eth_lib_ok_def plain_ref_def) metis

lemma pool_with_inv:
  assumes "eth_lib_ok L" "\<forall>op \<in> set ops. wf_op op"
  shows "pool_inv L badger_ref sortedset_ref ss_nodes (pool_with L ops)"
proof -
  have "lookup L ss_nodes newUserOpQueue ep a n = None" for ep a n by (rule lookup_new)
  then have empty: "pool_inv L badger_ref sortedset_ref ss_nodes empty_pool"
    by (simp add: pool_inv_def assms(1) badger_ref_ok sortedset_ref_ok empty_pool_def queue_ok_new db_agrees_def content_ok_def)
      (simp add: badger_ref_def)
  have "pool_inv L badger_ref sortedset_ref ss_nodes w \<Longrightarrow>
      pool_inv L badger_ref sortedset_ref ss_nodes (fold (\<lambda>op w. snd (AddOp L badger_ref sortedset_ref 9 op w)) ops w)" for w
    using assms(2) by (induction ops arbitrary: w) (auto intro: pool.add_inv)
  from this [OF empty] show ?thesis by (simp add: pool_with_def)
qed

lemma badger_ref_never_fails:
  "fst (AddOp L badger_ref S ep op w) = None" "fst (RemoveOps L badger_ref S ep ops w) = None"
proof -
  have commit: "db_Commit badger_ref d = None" for d by (simp add: badger_ref_def)
  have "\<exists>d'. delete_keys badger_ref ks d = Inr d'" for ks d
    by (induction ks arbitrary: d) (simp_all add: badger_ref_def)
  then obtain d' where "delete_keys badger_ref (map (\<lambda>op. getUniqueKey L ep (Sender op) (Nonce op)) ops) (mp_db w) = Inr d'"
    by blast
  then show "fst (RemoveOps L badger_ref S ep ops w) = None" by (simp add: RemoveOps_def db_Update_def commit)
  obtain d' where "txn_Set badger_ref (mp_db w) (getUniqueKey L ep (Sender op) (Nonce op)) (DocVal (JObj (MarshalJSON L op))) = Inr d'"
    by (simp add: badger_ref_def)
  then show "fst (AddOp L badger_ref S ep op w) = None" by (simp add: AddOp_def db_Update_def commit)
qed

lemma pool_with_dump:
  assumes "eth_lib_ok L" "wf_op op"
  shows "fst (Dump sortedset_ref 9 (pool_with L [op])) = [op]"
proof -
  have "pool_look L ss_nodes (pool_with L []) ep a n = None" for ep a n
    by (simp add: pool_look_def pool_with_def empty_pool_def lookup_new)
  with pool.dump_set [OF pool_with_inv [OF assms(1), of "[]"]]
  have "set (fst (Dump sortedset_ref 9 (pool_with L []))) = {}" by - (rule equals0I, simp)
  with pool.dump_after_add [OF pool_with_inv [OF assms(1), of "[]"] assms(2), of 9]
  have "set (fst (Dump sortedset_ref 9 (pool_with L [op]))) = {op}"
    by (auto simp: badger_ref_never_fails pool_with_def)
  moreover have "distinct (fst (Dump sortedset_ref 9 (pool_with L [op])))"
    using pool.dump_distinct [OF pool_with_inv [OF assms(1), of "[op]"]] assms(2) by (simp add: distinct_map)
  ultimately show ?thesis by (cases "fst (Dump sortedset_ref 9 (pool_with L [op]))") (auto dest: subset_singletonD)
qed


lemma sample_bundler_fields [simp]:
  "bu_chainID sample_bundler = 1" "bu_supportedEntryPoints sample_bundler = [9]"
  "bu_batchHandler sample_bundler n = returns noop_BatchHandler" "bu_maxBatch sample_bundler = 1"
  "bu_gbf sample_bundler n = Inr None" "bu_ggt sample_bundler n = Inr None" "bu_ggp sample_bundler n = Inr None"
  by (simp_all add: sample_bundler_def SetMaxBatch_def New_bundler_def bu_batchHandler_def NoopGetBaseFeeFunc_def NoopGetGasTipFunc_def
      NoopGetLegacyGasPriceFunc_def)

lemma sample_bundler_runner: "batch_runner B (bu_batchHandler sample_bundler n)"
  unfolding sample_bundler_fields
  by (rule returns_runner [OF noop.batch_module_axioms]) (simp add: noop_BatchHandler_def)

lemma sample_bundler_keeps: "keeps_all plain_ref B sample_bundler"
  by (simp add: keeps_all_def returns_def noop_BatchHandler_def plain_ref_def IsUnsolvedIntent_def)

lemma sample_run:
  "\<exists>w'. Process plain_ref badger_ref sortedset_ref sample_bundler 0 9 (pool_with plain_ref [sample_op 5 3])
      = Some (Inr (Some (NewBatchHandlerContext [sample_op 5 3] 9 1 None None None)), w') \<and>
    op_id ` set (fst (Dump sortedset_ref 9 w')) = {}"
proof -
  have wf: "wf_op (sample_op 5 3)" by (simp add: sample_op_wf)
  have inv: "pool_inv plain_ref badger_ref sortedset_ref ss_nodes (pool_with plain_ref [sample_op 5 3])"
    by (rule pool_with_inv [OF plain_ref_ok]) (simp add: wf)
  obtain w1 where dump: "Dump sortedset_ref 9 (pool_with plain_ref [sample_op 5 3]) = ([sample_op 5 3], w1)"
    using pool_with_dump [OF plain_ref_ok wf] by (metis prod.collapse)
  let ?c = "NewBatchHandlerContext [sample_op 5 3] 9 1 None None None"
  have rem: "remaining_ops plain_ref ?c = [sample_op 5 3]"
    by (simp add: remaining_ops_def NewBatchHandlerContext_def IsUnsolvedIntent_def plain_ref_def)
  obtain w' where "RemoveOps plain_ref badger_ref sortedset_ref 9 [sample_op 5 3] w1 = (None, w')"
    using badger_ref_never_fails(2) by (metis prod.collapse)
  then have run: "Process plain_ref badger_ref sortedset_ref sample_bundler 0 9 (pool_with plain_ref [sample_op 5 3])
      = Some (Inr (Some ?c), w')"
    using rem by (simp add: Process_def take_batch_def finish_batch_def dump adjustBatchSize_def returns_def noop_BatchHandler_def)
  from Process_world(3) [OF inv sample_bundler_runner run refl] run dump rem show ?thesis
    by (auto simp: op_id_def)
qed

text \<open>
  C29: a run of \<open>Process\<close> acts on the pool as on a map. After a run without an error the pool has lost
  exactly the senders and nonces of the operations that the modules left in the batch, unsolved
  intents apart, and of those they marked for removal, all of which were among the first \<open>maxBatch\<close>
  operations of the pool; after an error the senders and nonces are the ones from before. Those of
  other EntryPoints are never touched, and the database has the keys of the queues afterwards.
\<close>

theorem Process_pool:
  assumes "pool_inv L B S nodes w" "batch_runner B (bu_batchHandler b n)" "Process L B S b n ep w = Some (r, w')"
  shows "same_keys L B S w' \<and>
    (\<forall>ep'. op_id ` set (fst (Dump S ep' w')) \<noteq> op_id ` set (fst (Dump S ep' w)) \<longrightarrow> ep' = ep) \<and>
    (case r of
       Inr (Some c) \<Rightarrow>
         (let pooled = fst (Dump S ep w); gone = op_id ` ({op \<in> set (Batch c). \<not> IsUnsolvedIntent L op} \<union> set (PendingRemoval c)) in
          gone \<subseteq> op_id ` set (if 0 < bu_maxBatch b then take (nat (bu_maxBatch b)) pooled else pooled) \<and>
          op_id ` set (fst (Dump S ep w')) = op_id ` set pooled - gone)
     | _ \<Rightarrow> op_id ` set (fst (Dump S ep w')) = op_id ` set (fst (Dump S ep w)))"
proof -
  note world = Process_world [OF assms]
  note keys = pool_inv_same_keys [OF world(1)]
  have batch: "adjustBatchSize m ops = (if 0 < m then take (nat m) ops else ops)" for m ops
    by (auto simp: adjustBatchSize_def)
  have gone: "set (remaining_ops L c) = {op \<in> set (Batch c). \<not> IsUnsolvedIntent L op} \<union> set (PendingRemoval c)" for c
    by (auto simp: remaining_ops_def)
  show ?thesis
  proof (cases "\<exists>c. r = Inr (Some c)")
    case True
    then obtain c where c: "r = Inr (Some c)" by blast
    show ?thesis
      unfolding c sum.case option.case Let_def gone [symmetric] batch [symmetric] using keys world(2) world(3) [OF c] by metis
  next
    case False
    with keys world(2,4) show ?thesis by (auto split: sum.splits option.splits)
  qed
qed

theorem Process_pool_witness:
  "\<exists>w'. Process plain_ref badger_ref sortedset_ref sample_bundler 0 9 (pool_with plain_ref [sample_op 5 3])
      = Some (Inr (Some (NewBatchHandlerContext [sample_op 5 3] 9 1 None None None)), w') \<and>
    op_id ` set (fst (Dump sortedset_ref 9 w')) = {}"
proof -
  have wf: "wf_op (sample_op 5 3)" by (simp add: sample_op_wf)
  have inv: "pool_inv plain_ref badger_ref sortedset_ref ss_nodes (pool_with plain_ref [sample_op 5 3])"
    by (rule pool_with_inv [OF plain_ref_ok]) (simp add: wf)
  obtain w1 where dump: "Dump sortedset_ref 9 (pool_with plain_ref [sample_op 5 3]) = ([sample_op 5 3], w1)"
    using pool_with_dump [OF plain_ref_ok wf] by (metis prod.collapse)
  let ?c = "NewBatchHandlerContext [sample_op 5 3] 9 1 None None None"
  have rem: "remaining_ops plain_ref ?c = [sample_op 5 3]"
    by (simp add: remaining_ops_def NewBatchHandlerContext_def IsUnsolvedIntent_def plain_ref_def)
  obtain w' where "RemoveOps plain_ref badger_ref sortedset_ref 9 [sample_op 5 3] w1 = (None, w')"
    using badger_ref_never_fails(2) by (metis prod.collapse)
  then have run: "Process plain_ref badger_ref sortedset_ref sample_bundler 0 9 (pool_with plain_ref [sample_op 5 3])
      = Some (Inr (Some ?c), w')"
    using rem by (simp add: Process_def take_batch_def finish_batch_def dump adjustBatchSize_def returns_def noop_BatchHandler_def)
  from Process_pool [OF inv sample_bundler_runner run] run dump show ?thesis
    by (auto simp: Let_def NewBatchHandlerContext_def IsUnsolvedIntent_def plain_ref_def)
qed



lemma relay_keeps_batch:
  assumes "\<forall>opts. \<exists>g. EstimateHandleOpsGas L 0 opts = Inr (Inl g)"
    and "relay_SendUserOperation L r (w, c) = Some (e, w', c')"
  shows "Batch c' = Batch c"
proof (cases "filter (\<lambda>op. \<not> IsSolvedIntent L op \<and> \<not> HasIntent L op) (Batch c) = []")
  case True
  with assms(2) show ?thesis
    by (auto simp: relay_SendUserOperation_def split_batch_filter handleOps_def set_data_def Let_def
        split: if_splits sum.splits prod.splits)
next
  case False
  obtain g where "EstimateHandleOpsGas L 0 (getCallOptions r c
      (filter (\<lambda>op. \<not> IsSolvedIntent L op \<and> \<not> HasIntent L op) (Batch c))) = Inr (Inl g)" using assms(1) by blast
  from relay_conventional [OF refl False this, of w] assms(2) show ?thesis by auto
qed

lemma solved_not_unsolved: "IsSolvedIntent L op \<Longrightarrow> \<not> IsUnsolvedIntent L op"
  by (auto simp: IsSolvedIntent_def IsUnsolvedIntent_def split: sum.splits)



lemma pool_with_set:
  assumes "eth_lib_ok L" "\<forall>op \<in> set ops. wf_op op" "distinct (map op_id ops)"
  shows "set (fst (Dump sortedset_ref 9 (pool_with L ops))) = set ops"
  using assms(2,3)
proof (induction ops rule: rev_induct)
  case Nil
  have "pool_look L ss_nodes (pool_with L []) ep a n = None" for ep a n
    by (simp add: pool_look_def pool_with_def empty_pool_def lookup_new)
  with pool.dump_set [OF pool_with_inv [OF assms(1), of "[]"]] show ?case by (simp add: set_eq_iff)
next
  case (snoc op ops)
  have inv: "pool_inv L badger_ref sortedset_ref ss_nodes (pool_with L ops)" "wf_op op"
    using pool_with_inv [OF assms(1), of ops] snoc.prems(1) by auto
  have step: "pool_with L (ops @ [op]) = snd (AddOp L badger_ref sortedset_ref 9 op (pool_with L ops))"
    by (simp add: pool_with_def)
  have new: "op_id x \<noteq> op_id op" if "x \<in> set ops" for x using snoc.prems(2) imageI [OF that, of op_id] by auto
  have "x \<in> set (fst (Dump sortedset_ref 9 (pool_with L (ops @ [op])))) \<longleftrightarrow> x \<in> set (ops @ [op])" for x
    unfolding step
    using pool.dump_after_add [OF inv, of 9] snoc.IH snoc.prems new [of x]
    by (cases "x = op") (auto simp: badger_ref_never_fails op_id_def)
  then show ?case by blast
qed

definition relay_bundler :: "((string \<times> db_value) list, user_op node list) mempool bundler" where
  "relay_bundler = (New_bundler 1 [9])\<lparr>bu_modules := [\<lambda>n. relay_SendUserOperation good_chain (New_relayer 8)],
     bu_gbf := \<lambda>n. Inr (Some 10), bu_ggt := \<lambda>n. Inr (Some 1)\<rparr>"

lemma good_chain_ok: "eth_lib_ok good_chain"
  using userop_ref_ok by (simp add: eth_lib_ok_def good_chain_def rev_ref_defs chain_lib.defs userop_ref_def) metis

lemma good_chain_estimate: "EstimateHandleOpsGas good_chain n opts = Inr (Inl 90000)"
  by (simp add: EstimateHandleOpsGas_def good_chain_def rev_lib.defs chain_lib.defs err_res_def)


lemma good_chain_sends: "to_BaseFee opts = Some bf \<Longrightarrow> to_Tip opts = Some tip \<Longrightarrow> to_Batch opts \<noteq> [] \<Longrightarrow> HandleOps good_chain opts = Inr ()"
  by (simp add: HandleOps_def HandleOps_fees_def SuggestMeanGasTipCap_def SuggestMeanGasFeeCap_def mean_Inr Wait_def
      good_chain_def rev_lib.defs chain_lib.defs err_res_def Let_def)


text \<open>
  C31: a solution does not survive a restart. When the operations of the batch are in the pool and the
  solver answers all intents as solved, the pool holds the solution of an intent afterwards, but the
  database still holds the intent: a pool created from that database has the intent again.
\<close>

theorem solution_not_stored:
  fixes hash and c :: batch_ctx and w :: "('d, 's, 'x) mempool_scheme" and m :: "('d, 's) mempool"
  defines "H \<equiv> (\<lambda>op. hash op (EntryPoint c) (ChainID c))"
  assumes "pool_inv L B S nodes w" "pool_look L nodes w = pool_stored L nodes w"
    and "set (Batch c) \<subseteq> set (fst (Dump S (EntryPoint c) w))" "distinct (map op_id (intents_of L (Batch c)))"
    and "distinct (map H (intents_of L (Batch c)))" "mset ys = mset (intents_of L (Batch c))"
    and "sendToSolver V (intent_body H Received id (intents_of L (Batch c))) = Inr (intent_body H Solved sol ys)"
    and "SolveIntents L hash V (w, c) = (e, w', c')" "op \<in> set (Batch c)" "HasIntent L op"
    and "\<forall>k e. (k, Inl e) \<notin> set (txn_Iterate B (mp_db w') mempool_keyPrefix)" "New_mempool L B S (mp_db w') = Inr m"
  shows "apply_solution (sol op) op \<in> set (fst (Dump S (EntryPoint c) w')) \<and> op \<in> set (fst (Dump S (EntryPoint c) m))"
proof -
  let ?ep = "EntryPoint c"
  have w': "w' = write_solutions sol (set (intents_of L (Batch c))) ?ep w"
    using SolveIntents_writes [where hash = hash and c = c and L = L and ys = ys and S = V and sol = sol and w = w] assms
    by (simp add: H_def)
  note step = conjunct2 [OF SolveIntents_mark [OF assms(9)], of B]
  note inv = pool_step_inv [OF step assms(2)]
  have look: "pool_look L nodes w ?ep (Sender op) (Nonce op) = Some op"
    using pool.dump_set [OF assms(2)] assms(4,10) by blast
  then have stored: "pool_stored L nodes w ?ep (Sender op) (Nonce op) = Some op" using assms(3) by simp
  with look have "mp_content w ?ep op = op" by (simp add: pool_look_def pool_stored_def)
  then have "mp_content w' ?ep op = apply_solution (sol op) op"
    using assms(10,11) by (simp add: w' write_solutions_def intents_of_def)
  then have "pool_look L nodes w' ?ep (Sender op) (Nonce op) = Some (apply_solution (sol op) op)"
    using stored inv(2) by (simp add: pool_look_def pool_stored_def)
  moreover have "Sender (apply_solution (sol op) op) = Sender op" "Nonce (apply_solution (sol op) op) = Nonce op"
    by (simp_all add: apply_solution_def)
  ultimately have "apply_solution (sol op) op \<in> set (fst (Dump S ?ep w'))" by (simp add: pool.dump_set [OF inv(1)])
  moreover have "pool_look L nodes m = pool_stored L nodes w'" "pool_inv L B S nodes m"
    using New_mempool_reload [OF inv(1) assms(12)] assms(13) by (metis sum.inject(2))+
  then have "op \<in> set (fst (Dump S ?ep m))" using stored inv(2) by (simp add: pool.dump_set)
  ultimately show ?thesis ..
qed

lemma pool_with_content: "mp_content (pool_with L ops) = (\<lambda>ep x. x)"
proof (induction ops rule: rev_induct)
  case (snoc op ops)
  have "mp_content (snd (AddOp L badger_ref sortedset_ref 9 op w)) = (\<lambda>ep x. x)" if "mp_content w = (\<lambda>ep x. x)" for w :: "((string \<times> db_value) list, user_op node list) mempool"
    using that by (cases rule: AddOp_cases [of L badger_ref sortedset_ref 9 op w]) (auto simp: new_object_def fun_eq_iff)
  with snoc show ?case by (simp add: pool_with_def)
qed (simp add: pool_with_def empty_pool_def)

theorem solution_not_stored_witness:
  "\<exists>(w' :: ((string \<times> db_value) list, user_op node list) mempool) (m :: ((string \<times> db_value) list, user_op node list) mempool).
    (solved_op 6 1)\<lparr>CallGasLimit := 77\<rparr> \<in> set (fst (Dump sortedset_ref 9 w')) \<and>
    New_mempool good_chain badger_ref sortedset_ref (mp_db w') = Inr m \<and> solved_op 6 1 \<in> set (fst (Dump sortedset_ref 9 m))"
proof -
  let ?w = "pool_with good_chain [solved_op 6 1]"
  let ?c = "NewBatchHandlerContext [solved_op 6 1] 9 1 None None None"
  have wf: "wf_op (solved_op 6 1)" using sample_op_wf [of 6 1] by (simp add: solved_op_def wf_op_def)
  have inv: "pool_inv good_chain badger_ref sortedset_ref ss_nodes ?w"
    by (rule pool_with_inv [OF good_chain_ok]) (simp add: wf)
  have same: "pool_look good_chain ss_nodes ?w = pool_stored good_chain ss_nodes ?w"
    by (simp add: pool_look_def pool_stored_def pool_with_content option.map_ident)
  have dump: "fst (Dump sortedset_ref 9 ?w) = [solved_op 6 1]" by (rule pool_with_dump [OF good_chain_ok wf])
  obtain e w' c' where run: "SolveIntents good_chain hash_by_nonce (sample_solver [Solved]) (?w, ?c) = (e, w', c')"
    by (metis prod_cases3)
  have readable: "\<forall>k e. (k, Inl e) \<notin> set (txn_Iterate badger_ref (mp_db w') mempool_keyPrefix)" by (auto simp: badger_ref_def)
  have inv': "pool_inv good_chain badger_ref sortedset_ref ss_nodes w'"
    by (rule pool_step_inv(1) [OF conjunct2 [OF SolveIntents_mark [OF run]] inv])
  obtain m where m: "New_mempool good_chain badger_ref sortedset_ref (mp_db w') = Inr m"
    using New_mempool_reload [OF inv' readable] by metis
  have c: "Batch ?c = [solved_op 6 1]" "EntryPoint ?c = 9" "ChainID ?c = 1" by (simp_all add: NewBatchHandlerContext_def)
  have "apply_solution ((solved_op 6 1)\<lparr>CallGasLimit := 77\<rparr>) (solved_op 6 1) \<in> set (fst (Dump sortedset_ref (EntryPoint ?c) w')) \<and>
      solved_op 6 1 \<in> set (fst (Dump sortedset_ref (EntryPoint ?c) m))"
    by (rule solution_not_stored [where ys = "[solved_op 6 1]" and sol = "\<lambda>op. op\<lparr>CallGasLimit := 77\<rparr>", OF inv same _ _ _ _ _ run _ _ readable m])
      (simp_all add: c dump intents_of_def good_chain_intents intent_body_def sendToSolver_def sample_solver_def overwrite_def sample_answers)
  with m show ?thesis by (intro exI [of _ w'] exI [of _ m]) (simp add: c sample_answers)
qed

end
