(* ===== verification/Event_Filter.thy ===== *)
theory Event_Filter
  imports Reverts
begin

text \<open>
  \<open>pkg/entrypoint/filter\<close>: look-ups of an operation by its hash through the events of the EntryPoint.
  The node, the ABI decoder of \<open>handleOps\<close> and the types of \<open>go-ethereum\<close> (logs, transactions) are
  parameters; of a log the code reads the transaction hash only. The iterator of a filter is the list
  of its events, of which the code takes the first.
\<close>

record 'log op_event =
  evt_UserOpHash :: hash
  evt_Sender :: address
  evt_Paymaster :: address
  evt_Nonce :: int
  evt_Success :: bool
  evt_ActualGasCost :: int
  evt_ActualGasUsed :: int
  evt_Raw :: 'log

record 'log tx_receipt =
  rc_BlockHash :: hash
  rc_BlockNumber :: int
  rc_CumulativeGasUsed :: int
  rc_GasUsed :: int
  rc_Logs :: "'log list"
  rc_Bloom :: bytes
  rc_TxHash :: hash
  rc_TransactionIndex :: int

text \<open>
  An argument of a decoded \<open>handleOps\<close> call. The code copies each decoded operation into a
  \<open>UserOperation\<close> through its JSON text, which has the same eleven fields.
\<close>

datatype call_arg = ArgOps "user_op list" | ArgOther json

record ('log, 'tx) filter_node =
  fn_NewEntrypoint :: "address \<Rightarrow> go_error option"
  fn_BlockNumber :: "int res"
  fn_FilterUserOperationEvent :: "address \<Rightarrow> int \<Rightarrow> hash \<Rightarrow> 'log op_event list res"
  fn_TransactionReceipt :: "hash \<Rightarrow> 'log tx_receipt res"
  fn_TransactionByHash :: "hash \<Rightarrow> ('tx \<times> bool) res"
  fn_Sender :: "'tx \<Rightarrow> address res"
  fn_GasPrice :: "'tx \<Rightarrow> int"
  fn_Data :: "'tx \<Rightarrow> bytes"
  fn_HexToHash :: "string \<Rightarrow> hash"
  fn_TxHash :: "'log \<Rightarrow> hash"
  fn_HandleOpsSelector :: string
  fn_HandleOpsUnpack :: "bytes \<Rightarrow> call_arg list res"

definition MissingHash :: go_error where
  "MissingHash = GoError ''Missing/invalid userOpHash''"

definition start_block :: "int \<Rightarrow> int" where
  "start_block bn = (let sub10kBlk = bn - 10000 in if sub10kBlk > 0 then sub10kBlk else 0)"

definition filterUserOperationEvent :: "('log, 'tx) filter_node \<Rightarrow> string \<Rightarrow> address \<Rightarrow> 'log op_event list res" where
  "filterUserOperationEvent N userOpHash entryPoint =
     (case fn_NewEntrypoint N entryPoint of
        Some err \<Rightarrow> Inl err
      | None \<Rightarrow>
          bind_res (fn_BlockNumber N) (\<lambda>bn.
            fn_FilterUserOperationEvent N entryPoint (start_block bn) (fn_HexToHash N userOpHash)))"

record 'log parsed_transaction =
  pt_BlockHash :: hash
  pt_BlockNumber :: string
  pt_From :: address
  pt_CumulativeGasUsed :: string
  pt_GasUsed :: string
  pt_Logs :: "'log list"
  pt_LogsBloom :: bytes
  pt_TransactionHash :: hash
  pt_TransactionIndex :: string
  pt_EffectiveGasPrice :: string

record 'log user_op_receipt =
  ur_UserOpHash :: hash
  ur_Sender :: address
  ur_Paymaster :: address
  ur_Nonce :: string
  ur_Success :: bool
  ur_ActualGasCost :: string
  ur_ActualGasUsed :: string
  ur_From :: address
  ur_Receipt :: "'log parsed_transaction option"
  ur_Logs :: "'log list"

text \<open>The receipt and the transaction of an event; a pending transaction counts as missing.\<close>

definition event_transaction :: "('log, 'tx) filter_node \<Rightarrow> 'log op_event \<Rightarrow> ('log tx_receipt \<times> 'tx) res" where
  "event_transaction N ev =
     bind_res (fn_TransactionReceipt N (fn_TxHash N (evt_Raw ev))) (\<lambda>receipt.
     bind_res (fn_TransactionByHash N (fn_TxHash N (evt_Raw ev))) (\<lambda>(tx, isPending).
       if isPending then Inl MissingHash else Inr (receipt, tx)))"

definition GetUserOperationReceipt :: "'y eth_lib_scheme \<Rightarrow> ('log, 'tx) filter_node \<Rightarrow> string \<Rightarrow> address \<Rightarrow>
    'log user_op_receipt res" where
  "GetUserOperationReceipt L N userOpHash entryPoint =
     bind_res (filterUserOperationEvent N userOpHash entryPoint) (\<lambda>it.
     case it of
       [] \<Rightarrow> Inl MissingHash
     | ev # _ \<Rightarrow>
         bind_res (event_transaction N ev) (\<lambda>(receipt, tx).
         bind_res (fn_Sender N tx) (\<lambda>from_addr.
           Inr \<lparr>ur_UserOpHash = evt_UserOpHash ev, ur_Sender = evt_Sender ev, ur_Paymaster = evt_Paymaster ev,
             ur_Nonce = EncodeBig L (evt_Nonce ev), ur_Success = evt_Success ev,
             ur_ActualGasCost = EncodeBig L (evt_ActualGasCost ev), ur_ActualGasUsed = EncodeBig L (evt_ActualGasUsed ev),
             ur_From = from_addr,
             ur_Receipt = Some \<lparr>pt_BlockHash = rc_BlockHash receipt, pt_BlockNumber = EncodeBig L (rc_BlockNumber receipt),
               pt_From = from_addr, pt_CumulativeGasUsed = EncodeBig L (rc_CumulativeGasUsed receipt),
               pt_GasUsed = EncodeBig L (rc_GasUsed receipt), pt_Logs = rc_Logs receipt, pt_LogsBloom = rc_Bloom receipt,
               pt_TransactionHash = rc_TxHash receipt, pt_TransactionIndex = EncodeBig L (rc_TransactionIndex receipt),
               pt_EffectiveGasPrice = EncodeBig L (fn_GasPrice N tx)\<rparr>,
             ur_Logs = [evt_Raw ev]\<rparr>)))"

record hash_lookup_result =
  hl_UserOperation :: user_op
  hl_EntryPoint :: string
  hl_BlockNumber :: int
  hl_BlockHash :: hash
  hl_TransactionHash :: hash

definition HashString :: "'y eth_lib_scheme \<Rightarrow> hash \<Rightarrow> string" where
  "HashString L h = hexutil_Encode L h"

fun find_op :: "'y userop_lib_scheme \<Rightarrow> address \<Rightarrow> int \<Rightarrow> string \<Rightarrow> user_op list \<Rightarrow> user_op option" where
  "find_op L entryPoint chainID userOpHash [] = None"
| "find_op L entryPoint chainID userOpHash (op # ops) =
     (if HashString L (GetUserOpHash L op entryPoint chainID) = userOpHash then Some op
      else find_op L entryPoint chainID userOpHash ops)"

text \<open>The operations of a call of \<open>handleOps\<close>; other calls have none.\<close>

definition call_ops :: "'y eth_lib_scheme \<Rightarrow> ('log, 'tx) filter_node \<Rightarrow> 'tx \<Rightarrow> user_op list res" where
  "call_ops L N tx =
     (let hex = hexutil_Encode L (fn_Data N tx) in
      if \<not> HasPrefix hex (fn_HandleOpsSelector N) then Inr []
      else
        bind_res (fn_HandleOpsUnpack N (Hex2Bytes (drop (length (fn_HandleOpsSelector N)) hex))) (\<lambda>args.
          if length args \<noteq> 2 then Inl (GoError (''handleOps: invalid input length: expected 2, got '' @ Itoa (int (length args))))
          else (case args ! 0 of
                  ArgOps ops \<Rightarrow> Inr ops
                | ArgOther j \<Rightarrow> Inl (GoError ''handleOps: cannot assert type: ops is not of type []struct{...}''))))"

definition GetUserOperationByHash :: "'y userop_lib_scheme \<Rightarrow> ('log, 'tx) filter_node \<Rightarrow> string \<Rightarrow> address \<Rightarrow> int \<Rightarrow>
    hash_lookup_result res" where
  "GetUserOperationByHash L N userOpHash entryPoint chainID =
     bind_res (filterUserOperationEvent N userOpHash entryPoint) (\<lambda>it.
     case it of
       [] \<Rightarrow> Inl MissingHash
     | ev # _ \<Rightarrow>
         bind_res (event_transaction N ev) (\<lambda>(receipt, tx).
         bind_res (call_ops L N tx) (\<lambda>ops.
           case find_op L entryPoint chainID userOpHash ops of
             None \<Rightarrow> Inl MissingHash
           | Some op \<Rightarrow>
               Inr \<lparr>hl_UserOperation = op, hl_EntryPoint = AddressString L entryPoint, hl_BlockNumber = rc_BlockNumber receipt,
                 hl_BlockHash = rc_BlockHash receipt, hl_TransactionHash = fn_TxHash N (evt_Raw ev)\<rparr>)))"

subsection \<open>What a look-up finds\<close>

lemma find_op_sound: "find_op L ep chain h ops = Some op \<Longrightarrow> op \<in> set ops \<and> HashString L (GetUserOpHash L op ep chain) = h"
  by (induction ops) (auto split: if_splits)

lemma find_op_complete: "find_op L ep chain h ops = None \<Longrightarrow> \<forall>op \<in> set ops. HashString L (GetUserOpHash L op ep chain) \<noteq> h"
  by (induction ops) (auto split: if_splits)

lemma start_block_bounds: "0 \<le> bn \<Longrightarrow> 0 \<le> start_block bn \<and> start_block bn \<le> bn \<and> bn - start_block bn \<le> 10000"
  by (simp add: start_block_def Let_def)

lemma GetUserOperationByHash_cases:
  assumes "GetUserOperationByHash L N h ep chain = Inr r"
  obtains bn ev evs receipt tx ops where "fn_BlockNumber N = Inr bn"
    "fn_FilterUserOperationEvent N ep (start_block bn) (fn_HexToHash N h) = Inr (ev # evs)"
    "fn_TransactionReceipt N (fn_TxHash N (evt_Raw ev)) = Inr receipt"
    "fn_TransactionByHash N (fn_TxHash N (evt_Raw ev)) = Inr (tx, False)"
    "call_ops L N tx = Inr ops" "find_op L ep chain h ops = Some (hl_UserOperation r)"
    "hl_EntryPoint r = AddressString L ep" "hl_TransactionHash r = fn_TxHash N (evt_Raw ev)"
proof -
  from assms obtain it where it: "filterUserOperationEvent N h ep = Inr it" and
    rest: "(case it of [] \<Rightarrow> Inl MissingHash
     | ev # _ \<Rightarrow> bind_res (event_transaction N ev) (\<lambda>(receipt, tx).
         bind_res (call_ops L N tx) (\<lambda>ops.
           case find_op L ep chain h ops of
             None \<Rightarrow> Inl MissingHash
           | Some op \<Rightarrow>
               Inr \<lparr>hl_UserOperation = op, hl_EntryPoint = AddressString L ep, hl_BlockNumber = rc_BlockNumber receipt,
                 hl_BlockHash = rc_BlockHash receipt, hl_TransactionHash = fn_TxHash N (evt_Raw ev)\<rparr>))) = Inr r"
    unfolding GetUserOperationByHash_def bind_res_eq_Inr by blast
  obtain ev evs where ev: "it = ev # evs" using rest by (cases it) auto
  with rest obtain receipt tx ops op where r: "event_transaction N ev = Inr (receipt, tx)" "call_ops L N tx = Inr ops"
    "find_op L ep chain h ops = Some op"
    "r = \<lparr>hl_UserOperation = op, hl_EntryPoint = AddressString L ep, hl_BlockNumber = rc_BlockNumber receipt,
                 hl_BlockHash = rc_BlockHash receipt, hl_TransactionHash = fn_TxHash N (evt_Raw ev)\<rparr>"
    by (auto simp: bind_res_eq_Inr split: option.splits)
  from r(1) have tx: "fn_TransactionReceipt N (fn_TxHash N (evt_Raw ev)) = Inr receipt"
    "fn_TransactionByHash N (fn_TxHash N (evt_Raw ev)) = Inr (tx, False)"
    by (auto simp: event_transaction_def bind_res_eq_Inr split: if_splits)
  from it obtain bn where "fn_BlockNumber N = Inr bn"
    "fn_FilterUserOperationEvent N ep (start_block bn) (fn_HexToHash N h) = Inr (ev # evs)"
    by (auto simp: filterUserOperationEvent_def bind_res_eq_Inr ev split: option.splits)
  from that [OF this tx r(2)] r(3,4) show thesis by simp
qed

subsection \<open>Properties\<close>

definition sample_filter :: "(hash, user_op list) filter_node" where
  "sample_filter = \<lparr>fn_NewEntrypoint = (\<lambda>a. None), fn_BlockNumber = Inr 20000,
     fn_FilterUserOperationEvent = (\<lambda>ep bn h. Inr [\<lparr>evt_UserOpHash = h, evt_Sender = 5, evt_Paymaster = 0, evt_Nonce = 3,
        evt_Success = True, evt_ActualGasCost = 7, evt_ActualGasUsed = 7, evt_Raw = [1]\<rparr>]),
     fn_TransactionReceipt = (\<lambda>h. Inr \<lparr>rc_BlockHash = [], rc_BlockNumber = 15000, rc_CumulativeGasUsed = 7, rc_GasUsed = 7,
        rc_Logs = [], rc_Bloom = [], rc_TxHash = h, rc_TransactionIndex = 0\<rparr>),
     fn_TransactionByHash = (\<lambda>h. Inr ([sample_op 6 1, sample_op 5 3], False)), fn_Sender = (\<lambda>tx. Inr 8), fn_GasPrice = (\<lambda>tx. 30),
     fn_Data = (\<lambda>tx. [1]), fn_HexToHash = (\<lambda>s. []), fn_TxHash = (\<lambda>l. l), fn_HandleOpsSelector = ''0x'',
     fn_HandleOpsUnpack = (\<lambda>bs. Inr [ArgOps [sample_op 6 1, sample_op 5 3], ArgOther JNull])\<rparr>"

text \<open>
  C37: an operation that \<open>GetUserOperationByHash\<close> returns has the requested hash, and is one of the
  operations of a call of \<open>handleOps\<close> in a mined transaction: that of the first event of the hash in
  the last 10000 blocks.
\<close>

theorem GetUserOperationByHash_sound:
  assumes "GetUserOperationByHash L N h ep chain = Inr r"
  shows "HashString L (GetUserOpHash L (hl_UserOperation r) ep chain) = h \<and>
    (\<exists>bn ev evs tx ops. fn_BlockNumber N = Inr bn \<and>
      fn_FilterUserOperationEvent N ep (max 0 (bn - 10000)) (fn_HexToHash N h) = Inr (ev # evs) \<and>
      hl_TransactionHash r = fn_TxHash N (evt_Raw ev) \<and>
      fn_TransactionByHash N (hl_TransactionHash r) = Inr (tx, False) \<and>
      call_ops L N tx = Inr ops \<and> hl_UserOperation r \<in> set ops)"
proof (rule GetUserOperationByHash_cases [OF assms])
  fix bn ev evs receipt tx ops
  assume "fn_BlockNumber N = Inr bn"
    and "fn_FilterUserOperationEvent N ep (start_block bn) (fn_HexToHash N h) = Inr (ev # evs)"
    and "fn_TransactionByHash N (fn_TxHash N (evt_Raw ev)) = Inr (tx, False)" "call_ops L N tx = Inr ops"
    and found: "find_op L ep chain h ops = Some (hl_UserOperation r)" and "hl_TransactionHash r = fn_TxHash N (evt_Raw ev)"
  moreover have "start_block bn = max 0 (bn - 10000)" by (simp add: start_block_def Let_def)
  ultimately show ?thesis using find_op_sound [OF found] by auto
qed

theorem GetUserOperationByHash_sound_witness:
  "\<exists>r. GetUserOperationByHash userop_ref sample_filter (HashString userop_ref (GetUserOpHash userop_ref (sample_op 5 3) 9 1)) 9 1 = Inr r \<and>
    HashString userop_ref (GetUserOpHash userop_ref (hl_UserOperation r) 9 1)
      = HashString userop_ref (GetUserOpHash userop_ref (sample_op 5 3) 9 1)"
proof -
  let ?h = "HashString userop_ref (GetUserOpHash userop_ref (sample_op 5 3) 9 1)"
  have "call_ops userop_ref sample_filter tx = Inr [sample_op 6 1, sample_op 5 3]" for tx
    by (simp add: call_ops_def sample_filter_def userop_ref_def eth_ref_def Let_def)
  then have "\<exists>r. GetUserOperationByHash userop_ref sample_filter ?h 9 1 = Inr r"
    by (simp add: GetUserOperationByHash_def filterUserOperationEvent_def event_transaction_def sample_filter_def)
  then show ?thesis using GetUserOperationByHash_sound by blast
qed

end
