(* ===== verification/Execution.thy ===== *)
theory Execution
  imports Reverts State_Override
begin

text \<open>
  \<open>pkg/entrypoint/execution\<close>: the simulation of an operation (\<open>eth_call\<close>) and its trace
  (\<open>debug_traceCall\<close>). \<open>prep\<close> is the error of what precedes the request (the binding, the
  transactor, the packing of the call), and the reply of the node is an argument. The event parser
  of the generated bindings and \<open>common.HexToHash\<close> are parameters.
\<close>

record log_info =
  li_Topics :: "string list"
  li_Data :: string

record execution_return =
  xr_Reverts :: "string list"
  xr_ValidationOOG :: bool
  xr_ExecutionOOG :: bool
  xr_ExecutionGasLimit :: rat
  xr_UserOperationEvent :: "log_info option"
  xr_Output :: string
  xr_Error :: string

record 'ev exec_lib = rev_lib +
  HexToHash :: "string \<Rightarrow> hash"
  ParseUserOperationEvent :: "address \<Rightarrow> hash list \<Rightarrow> bytes \<Rightarrow> 'ev res"

record 'ev trace_result =
  tr_Trace :: execution_return
  tr_Result :: execution_result
  tr_Event :: "'ev option"

text \<open>What is returned when the reply is neither an execution result nor a failed operation.\<close>

definition simulate_reply :: "'y rev_lib_scheme \<Rightarrow> go_error option \<Rightarrow> (go_error \<Rightarrow> go_error \<Rightarrow> go_error) \<Rightarrow> execution_result res" where
  "simulate_reply L err other =
     (case NewExecutionResult L err of
        Inr sim \<Rightarrow> Inr sim
      | Inl (Panicked p) \<Rightarrow> Inl (Panicked p)
      | Inl simErr \<Rightarrow>
          (case NewFailedOp L err of
             Inr fo \<Rightarrow> Inl (NewRPCError REJECTED_BY_EP_OR_ACCOUNT (Reason fo) (FailedOpData (OpIndex fo) (Reason fo)))
           | Inl (Panicked p) \<Rightarrow> Inl (Panicked p)
           | Inl foErr \<Rightarrow> Inl (other simErr foErr)))"

definition SimulateHandleOp :: "'y rev_lib_scheme \<Rightarrow> go_error option \<Rightarrow> go_error option \<Rightarrow> execution_result res" where
  "SimulateHandleOp L prep err =
     (case prep of
        Some e \<Rightarrow> Inl e
      | None \<Rightarrow>
          simulate_reply L err (\<lambda>simErr foErr.
            case err of Some e \<Rightarrow> e | None \<Rightarrow> GoError (Error simErr @ '', '' @ Error foErr)))"

definition parseUserOperationEvent :: "('ev, 'y) exec_lib_scheme \<Rightarrow> address \<Rightarrow> log_info option \<Rightarrow> 'ev option res" where
  "parseUserOperationEvent L entryPoint lg =
     (case lg of
        None \<Rightarrow> Inr None
      | Some l \<Rightarrow>
          bind_res (hexutil_Decode L (li_Data l)) (\<lambda>data.
          bind_res (ParseUserOperationEvent L entryPoint (map (HexToHash L) (li_Topics l)) data) (\<lambda>ev. Inr (Some ev))))"

text \<open>The last recorded revert of the inner call, as an error.\<close>

definition revert_error :: "'y rev_lib_scheme \<Rightarrow> execution_return \<Rightarrow> go_error" where
  "revert_error L res =
     (case hexutil_Decode L (last (xr_Reverts res)) of
        Inl err \<Rightarrow> err
      | Inr data \<Rightarrow>
          if length data = 0 then
            (if xr_ExecutionOOG res then NewRPCError EXECUTION_REVERTED ''execution OOG'' NilData
             else NewRPCError EXECUTION_REVERTED ''execution reverted'' NilData)
          else
            (case DecodeRevert L data of
               Inr reason \<Rightarrow> NewRPCError EXECUTION_REVERTED reason (StrData reason)
             | Inl (Panicked p) \<Rightarrow> Panicked p
             | Inl revErr \<Rightarrow>
                 (case DecodePanic L data of
                    Inl (Panicked p) \<Rightarrow> Panicked p
                  | Inl panErr \<Rightarrow> GoError (Error revErr @ '', '' @ Error panErr)
                  | Inr code \<Rightarrow> NewRPCError EXECUTION_REVERTED (''panic encountered: '' @ code) (StrData code))))"

text \<open>The partial output that accompanies some errors is not read by any caller and is left out.\<close>

definition TraceSimulateHandleOp :: "('ev, 'y) exec_lib_scheme \<Rightarrow> go_error option \<Rightarrow> address \<Rightarrow> execution_return res \<Rightarrow>
    'ev trace_result res" where
  "TraceSimulateHandleOp L prep entryPoint reply =
     (case prep of
        Some e \<Rightarrow> Inl e
      | None \<Rightarrow>
          bind_res reply (\<lambda>res.
          bind_res (ParseHexToRpcDataError L (xr_Output res)) (\<lambda>outErr.
          if xr_ValidationOOG res then Inl (NewRPCError EXECUTION_REVERTED ''validation OOG'' NilData)
          else
            bind_res (simulate_reply L (Some outErr) (\<lambda>simErr foErr.
              if xr_Error res \<noteq> '''' then NewRPCError EXECUTION_REVERTED (xr_Error res) NilData
              else GoError (Error simErr @ '', '' @ Error foErr))) (\<lambda>sim.
            if xr_Reverts res \<noteq> [] then Inl (revert_error L res)
            else
              bind_res (parseUserOperationEvent L entryPoint (xr_UserOperationEvent res)) (\<lambda>ev.
                Inr \<lparr>tr_Trace = res, tr_Result = sim, tr_Event = ev\<rparr>)))))"

text \<open>The fee cap and the state overrides of the trace request.\<close>

definition trace_fee :: "user_op \<Rightarrow> int option \<Rightarrow> int" where
  "trace_fee op TraceFeeCap = (case TraceFeeCap of None \<Rightarrow> MaxFeePerGas op | Some f \<Rightarrow> f)"

definition trace_overrides :: "override_set option \<Rightarrow> override_set" where
  "trace_overrides sos = WithMaxBalanceOverride 0 sos"

lemma TraceSimulateHandleOp_Inr:
  assumes "TraceSimulateHandleOp L prep entryPoint reply = Inr out"
  shows "reply = Inr (tr_Trace out) \<and> \<not> xr_ValidationOOG (tr_Trace out) \<and> xr_Reverts (tr_Trace out) = [] \<and>
    (\<exists>err. NewExecutionResult L (Some err) = Inr (tr_Result out))"
proof -
  have sim: "simulate_reply L e f = Inr x \<Longrightarrow> NewExecutionResult L e = Inr x" for e f x
    by (auto simp: simulate_reply_def split: sum.splits go_error.splits)
  show ?thesis using assms
    by (auto simp: TraceSimulateHandleOp_def bind_res_eq_Inr split: option.splits if_splits dest!: sim)
qed

end
