(* ===== verification/Estimate.thy ===== *)
theory Estimate
  imports Execution Gas
begin

text \<open>
  \<open>pkg/gas/estimate.go\<close>: binary search for the verification gas limit, one traced run for the call
  gas limit, a second binary search when the traced value fails, and retries with a larger
  verification gas limit. The node is a record of replies; the \<open>n\<close>-th request of an estimate may be
  answered differently from the others. Gas values are \<open>int64\<close>.
\<close>

definition fallBackBinarySearchCutoff :: int where "fallBackBinarySearchCutoff = 30000"
definition maxRetries :: int where "maxRetries = 7"
definition baseVGLBuffer :: int where "baseVGLBuffer = 25"

definition isPrefundNotPaid :: "go_error \<Rightarrow> bool" where
  "isPrefundNotPaid err \<longleftrightarrow> Contains (Error err) (''AA21 didn'' @ [CHR 0x27] @ ''t pay prefund'') \<or>
     Contains (Error err) ''AA31 paymaster deposit too low''"

definition isValidationOOG :: "go_error \<Rightarrow> bool" where
  "isValidationOOG err \<longleftrightarrow> (\<exists>s \<in> set [''AA40 over verificationGasLimit'', ''AA41 too little verificationGas'',
     ''AA51 prefund below actualGasCost'', ''AA13 initCode failed or OOG'', ''AA23 reverted (or OOG)'',
     ''AA33 reverted (or OOG)'', ''return data out of bounds'', ''validation OOG'']. Contains (Error err) s)"

definition isExecutionOOG :: "go_error \<Rightarrow> bool" where
  "isExecutionOOG err \<longleftrightarrow> Contains (Error err) ''execution OOG''"

definition isExecutionReverted :: "go_error \<Rightarrow> bool" where
  "isExecutionReverted err \<longleftrightarrow> Contains (Error err) ''execution reverted''"

record estimate_node =
  en_prep :: "nat \<Rightarrow> user_op \<Rightarrow> go_error option"
  en_call :: "nat \<Rightarrow> user_op \<Rightarrow> override_set option \<Rightarrow> go_error option"
  en_trace :: "nat \<Rightarrow> user_op \<Rightarrow> int \<Rightarrow> override_set \<Rightarrow> execution_return res"

record estimate_input =
  ei_EntryPoint :: address
  ei_Op :: user_op
  ei_Sos :: "override_set option"
  ei_Ov :: overhead
  ei_MaxGasLimit :: int
  ei_attempts :: int
  ei_lastVGL :: int

text \<open>
  A probe of one gas value: an error that ends the estimate (\<open>userop.New\<close> refuses the operation), or
  the error, if any, of the simulation. A search loop runs while the interval is at least the
  cutoff; \<open>lower\<close> and \<open>higher\<close> classify the errors. \<open>None\<close> is an exhausted fuel.
\<close>

fun gas_search :: "(nat \<Rightarrow> int \<Rightarrow> go_error option res) \<Rightarrow> (go_error \<Rightarrow> bool) \<Rightarrow> (go_error \<Rightarrow> bool) \<Rightarrow> nat \<Rightarrow>
    nat \<Rightarrow> int \<Rightarrow> int \<Rightarrow> int \<Rightarrow> go_error option \<Rightarrow> (int \<times> go_error option \<times> nat) res option" where
  "gas_search probe lower higher 0 n l r f simErr = None"
| "gas_search probe lower higher (Suc fuel) n l r f simErr =
     (if wrap64 (r - l) \<ge> fallBackBinarySearchCutoff then
        let m = go_div (wrap64 (l + r)) 2 in
        case probe n m of
          Inl err \<Rightarrow> Some (Inl err)
        | Inr None \<Rightarrow> gas_search probe lower higher fuel (n + 1) l (wrap64 (m - 1)) m None
        | Inr (Some err) \<Rightarrow>
            if lower err then gas_search probe lower higher fuel (n + 1) l (wrap64 (m - 1)) f (Some err)
            else if higher err then gas_search probe lower higher fuel (n + 1) (wrap64 (m + 1)) r f (Some err)
            else Some (Inl err)
      else Some (Inr (f, simErr, n)))"

definition search_fuel :: nat where "search_fuel = 65"

definition simulate_probe :: "('ev, 'y) exec_lib_scheme \<Rightarrow> estimate_node \<Rightarrow> estimate_input \<Rightarrow> obj \<Rightarrow>
    nat \<Rightarrow> int \<Rightarrow> go_error option res" where
  "simulate_probe L E inp data n m =
     bind_res (New_userop L (data(''verificationGasLimit'' \<mapsto> JStr (EncodeBig L m)))) (\<lambda>simOp.
       (case SimulateHandleOp L (en_prep E n simOp) (en_call E n simOp (ei_Sos inp)) of
          Inl err \<Rightarrow> Inr (Some err)
        | Inr sim \<Rightarrow> Inr None))"

definition run_trace :: "('ev, 'y) exec_lib_scheme \<Rightarrow> estimate_node \<Rightarrow> estimate_input \<Rightarrow> nat \<Rightarrow> user_op \<Rightarrow> int option \<Rightarrow>
    'ev trace_result res" where
  "run_trace L E inp n simOp feeCap =
     TraceSimulateHandleOp L (en_prep E n simOp) (ei_EntryPoint inp)
       (en_trace E n simOp (trace_fee simOp feeCap) (trace_overrides (ei_Sos inp)))"

definition trace_probe :: "('ev, 'y) exec_lib_scheme \<Rightarrow> estimate_node \<Rightarrow> estimate_input \<Rightarrow> obj \<Rightarrow>
    nat \<Rightarrow> int \<Rightarrow> go_error option res" where
  "trace_probe L E inp data n m =
     bind_res (New_userop L (data(''callGasLimit'' \<mapsto> JStr (EncodeBig L m)))) (\<lambda>simOp.
       (case run_trace L E inp n simOp None of Inl err \<Rightarrow> Inr (Some err) | Inr out \<Rightarrow> Inr None))"

text \<open>One pass of \<open>EstimateGas\<close> ends with its result, or with a call of \<open>retryEstimateGas\<close>.\<close>

datatype pass = Return "(int \<times> int) res" | Retry go_error int nat | OutOfFuel

definition initial_data :: "'y userop_lib_scheme \<Rightarrow> user_op \<Rightarrow> obj" where
  "initial_data L op = (ToMap L op)
     (''maxPriorityFeePerGas'' \<mapsto> JStr (EncodeBig L (MaxFeePerGas op)),
      ''verificationGasLimit'' \<mapsto> JStr (EncodeBig L 0),
      ''callGasLimit'' \<mapsto> JStr (EncodeBig L 0))"

definition vgl_phase :: "('ev, 'y) exec_lib_scheme \<Rightarrow> estimate_node \<Rightarrow> estimate_input \<Rightarrow> nat \<Rightarrow>
    (int \<times> go_error option \<times> nat) res option" where
  "vgl_phase L E inp n =
     (if ei_lastVGL inp = 0 then
        gas_search (simulate_probe L E inp (initial_data L (ei_Op inp))) isPrefundNotPaid isValidationOOG search_fuel n
          0 (wrap64 (ei_MaxGasLimit inp)) (ei_lastVGL inp) None
      else Some (Inr (ei_lastVGL inp, None, n)))"

text \<open>The last check of the call gas limit \<open>cgl\<close> found by the trace, with the full gas price.\<close>

definition final_phase :: "('ev, 'y) exec_lib_scheme \<Rightarrow> estimate_node \<Rightarrow> estimate_input \<Rightarrow> obj \<Rightarrow> int \<Rightarrow> int \<Rightarrow> nat \<Rightarrow> pass" where
  "final_phase L E inp data vgl cgl n =
     (let fee = JStr (EncodeBig L (MaxFeePerGas (ei_Op inp)));
          data = data(''maxFeePerGas'' \<mapsto> fee, ''maxPriorityFeePerGas'' \<mapsto> fee,
            ''verificationGasLimit'' \<mapsto> JStr (EncodeBig L vgl), ''callGasLimit'' \<mapsto> JStr (EncodeBig L cgl)) in
      case New_userop L data of
        Inl err \<Rightarrow> Return (Inl err)
      | Inr simOp \<Rightarrow>
          (case run_trace L E inp n simOp None of
             Inr out \<Rightarrow> Return (Inr (uwrap64 (VerificationGasLimit simOp), uwrap64 (CallGasLimit simOp)))
           | Inl err \<Rightarrow>
               if isExecutionOOG err \<or> isExecutionReverted err then
                 (case gas_search (trace_probe L E inp data) isPrefundNotPaid
                        (\<lambda>e. isExecutionOOG e \<or> isExecutionReverted e) search_fuel (n + 1)
                        (wrap64 cgl) (wrap64 (ei_MaxGasLimit inp)) 0 (Some err) of
                    None \<Rightarrow> OutOfFuel
                  | Some (Inl e) \<Rightarrow> Return (Inl e)
                  | Some (Inr (f, simErr, n')) \<Rightarrow>
                      if f = 0 then Return (case simErr of None \<Rightarrow> Inr (0, 0) | Some e \<Rightarrow> Inl e)
                      else Return (Inr (uwrap64 (VerificationGasLimit simOp), uwrap64 f)))
               else Retry err (wrap64 (VerificationGasLimit simOp)) (n + 1)))"

definition estimate_pass :: "('ev, 'y) exec_lib_scheme \<Rightarrow> estimate_node \<Rightarrow> estimate_input \<Rightarrow> nat \<Rightarrow> pass" where
  "estimate_pass L E inp n =
     (case vgl_phase L E inp n of
        None \<Rightarrow> OutOfFuel
      | Some (Inl err) \<Rightarrow> Return (Inl err)
      | Some (Inr (f, simErr, n)) \<Rightarrow>
          if f = 0 then Return (case simErr of None \<Rightarrow> Inr (0, 0) | Some e \<Rightarrow> Inl e)
          else
            let f = go_div (wrap64 (f * (100 + baseVGLBuffer))) 100;
                data = (initial_data L (ei_Op inp))
                  (''verificationGasLimit'' \<mapsto> JStr (EncodeBig L f),
                   ''maxFeePerGas'' \<mapsto> JStr (EncodeBig L 0), ''maxPriorityFeePerGas'' \<mapsto> JStr (EncodeBig L 0),
                   ''callGasLimit'' \<mapsto> JStr (EncodeBig L (ei_MaxGasLimit inp))) in
            case New_userop L data of
              Inl err \<Rightarrow> Return (Inl err)
            | Inr simOp \<Rightarrow>
                (case run_trace L E inp n simOp (Some (MaxFeePerGas (ei_Op inp))) of
                   Inl err \<Rightarrow> Retry err f (n + 1)
                 | Inr out \<Rightarrow>
                     let vgl = VerificationGasLimit simOp;
                         cgl = float_to_int64 (xr_ExecutionGasLimit (tr_Trace out));
                         cgl = (if cgl < NonZeroValueCall (ei_Ov inp) then NonZeroValueCall (ei_Ov inp) else cgl)
                     in final_phase L E inp data vgl cgl (n + 1)))"

function EstimateGas :: "('ev, 'y) exec_lib_scheme \<Rightarrow> estimate_node \<Rightarrow> estimate_input \<Rightarrow> nat \<Rightarrow> (int \<times> int) res option" where
  "EstimateGas L E inp n =
     (case estimate_pass L E inp n of
        OutOfFuel \<Rightarrow> None
      | Return r \<Rightarrow> Some r
      | Retry err vgl n' \<Rightarrow>
          if isValidationOOG err \<and> ei_attempts inp < maxRetries then
            EstimateGas L E (inp\<lparr>ei_attempts := ei_attempts inp + 1, ei_lastVGL := vgl\<rparr>) n'
          else Some (Inl err))"
  by pat_completeness auto
termination
  by (relation "measure (\<lambda>(L, E, inp, n). nat (maxRetries - ei_attempts inp))") auto

declare EstimateGas.simps [simp del]


subsection \<open>The search\<close>

lemma mid_bounds:
  assumes "0 \<le> (l :: int)" "l < 2 ^ 63" "- 1 \<le> r" "r < 2 ^ 62"
  shows "wrap64 (r - l) = r - l"
    "30000 \<le> r - l \<Longrightarrow> go_div (wrap64 (l + r)) 2 = (l + r) div 2"
    "30000 \<le> r - l \<Longrightarrow> wrap64 ((l + r) div 2 - 1) = (l + r) div 2 - 1"
    "30000 \<le> r - l \<Longrightarrow> wrap64 ((l + r) div 2 + 1) = (l + r) div 2 + 1"
    "30000 \<le> r - l \<Longrightarrow> l < (l + r) div 2 \<and> (l + r) div 2 < r"
proof -
  show "wrap64 (r - l) = r - l" using assms by (intro wrap64_id) auto
  assume big: "30000 \<le> r - l"
  then show mid: "l < (l + r) div 2 \<and> (l + r) div 2 < r" by auto
  have "wrap64 (l + r) = l + r" using assms big by (intro wrap64_id) auto
  then show "go_div (wrap64 (l + r)) 2 = (l + r) div 2" using assms big by (simp add: go_div_nonneg)
  show "wrap64 ((l + r) div 2 - 1) = (l + r) div 2 - 1" using assms mid by (intro wrap64_id) auto
  show "wrap64 ((l + r) div 2 + 1) = (l + r) div 2 + 1" using assms mid by (intro wrap64_id) auto
qed

lemma gas_search_step:
  assumes "0 \<le> l" "l < 2 ^ 63" "- 1 \<le> r" "r < 2 ^ 62"
  shows "gas_search probe lower higher (Suc fuel) n l r f e =
    (if r - l < 30000 then Some (Inr (f, e, n))
     else let m = (l + r) div 2 in
       case probe n m of
         Inl err \<Rightarrow> Some (Inl err)
       | Inr None \<Rightarrow> gas_search probe lower higher fuel (n + 1) l (m - 1) m None
       | Inr (Some err) \<Rightarrow>
           if lower err then gas_search probe lower higher fuel (n + 1) l (m - 1) f (Some err)
           else if higher err then gas_search probe lower higher fuel (n + 1) (m + 1) r f (Some err)
           else Some (Inl err))"
proof (cases "r - l < 30000")
  case True
  then show ?thesis
    unfolding gas_search.simps fallBackBinarySearchCutoff_def mid_bounds(1) [OF assms] by simp
next
  case False
  then have big: "30000 \<le> r - l" by simp
  show ?thesis
    unfolding gas_search.simps fallBackBinarySearchCutoff_def mid_bounds(1) [OF assms] Let_def
      mid_bounds(2) [OF assms big] mid_bounds(3) [OF assms big] mid_bounds(4) [OF assms big]
    using big by simp
qed

declare gas_search.simps(2) [simp del]

lemma gas_search_enough:
  assumes "0 \<le> l" "l < 2 ^ 63" "- 1 \<le> r" "r < 2 ^ 62" "r - l < 30000 * 2 ^ fuel"
  shows "\<exists>x. gas_search probe lower higher (Suc fuel) n l r f e = Some x"
  using assms
proof (induction fuel arbitrary: n l r f e)
  case (Suc fuel)
  let ?m = "(l + r) div 2"
  show ?case
  proof (cases "r - l < 30000")
    case False
    then have b: "l < ?m" "?m < r" using mid_bounds(5) [OF Suc.prems(1-4)] by simp_all
    have half: "?m - 1 - l < 30000 * 2 ^ fuel" "r - (?m + 1) < 30000 * 2 ^ fuel"
      using Suc.prems(5) by auto
    have low: "\<exists>x. gas_search probe lower higher (Suc fuel) n' l (?m - 1) f' e' = Some x" for n' f' e'
      by (rule Suc.IH) (use Suc.prems b half in auto)
    have high: "\<exists>x. gas_search probe lower higher (Suc fuel) n' (?m + 1) r f' e' = Some x" for n' f' e'
      by (rule Suc.IH) (use Suc.prems b half in auto)
    show ?thesis
      unfolding gas_search_step [OF Suc.prems(1-4), of probe lower higher "Suc fuel"] Let_def
      using False low high by (auto split: sum.splits option.splits)
  qed (simp only: gas_search_step [OF Suc.prems(1-4)] if_True, blast)
qed (simp add: gas_search_step)

lemma gas_search_inv:
  assumes "0 \<le> l" "l < 2 ^ 63" "- 1 \<le> r" "r < 2 ^ 62"
    and "gas_search probe lower higher fuel n l r f e = Some (Inr (f', e', n'))"
    and "\<And>k m. 0 < m \<Longrightarrow> m \<le> r \<Longrightarrow> probe k m = Inr None \<Longrightarrow> P m None"
    and "\<And>g x err. P g x \<Longrightarrow> P g (Some err)" "P f e"
  shows "P f' e'"
  using assms(1-6,8)
proof (induction fuel arbitrary: n l r f e)
  case (Suc fuel)
  let ?m = "(l + r) div 2"
  note step = gas_search_step [OF Suc.prems(1-4), of probe lower higher fuel n f e]
  show ?case
  proof (cases "r - l < 30000")
    case True
    with Suc.prems(5,7) show ?thesis unfolding step by simp
  next
    case False
    then have b: "l < ?m" "?m < r" using mid_bounds(5) [OF Suc.prems(1-4)] by simp_all
    have low: "P f' e'" if "gas_search probe lower higher fuel (n + 1) l (?m - 1) g x = Some (Inr (f', e', n'))" "P g x" for g x
      by (rule Suc.IH [OF _ _ _ _ that(1) _ that(2)]) (use Suc.prems b in auto)
    have high: "P f' e'" if "gas_search probe lower higher fuel (n + 1) (?m + 1) r g x = Some (Inr (f', e', n'))" "P g x" for g x
      by (rule Suc.IH [OF _ _ _ _ that(1) _ that(2)]) (use Suc.prems b in auto)
    show ?thesis
    proof (cases "probe n ?m")
      case (Inl err)
      with Suc.prems(5) False show ?thesis unfolding step Let_def by simp
    next
      case p: (Inr y)
      show ?thesis
      proof (cases y)
        case None
        have "P ?m None" by (rule Suc.prems(6)) (use b Suc.prems(1) p None in auto)
        with low [of ?m None] Suc.prems(5) False p None show ?thesis unfolding step Let_def by simp
      next
        case (Some err)
        have "P f (Some err)" by (rule assms(7) [OF Suc.prems(7)])
        with low [of f "Some err"] high [of f "Some err"] Suc.prems(5) False p Some show ?thesis
          unfolding step Let_def by (simp split: if_splits)
      qed
    qed
  qed
qed simp

lemma gas_search_found:
  assumes "0 \<le> l" "l < 2 ^ 63" "- 1 \<le> r" "r < 2 ^ 62"
    and "gas_search probe lower higher fuel n l r 0 e = Some (Inr (f', e', n'))"
  shows "f' \<noteq> 0 \<longrightarrow> 0 \<le> f' \<and> f' \<le> r \<and> (\<exists>k. probe k f' = Inr None)"
  by (rule gas_search_inv [OF assms, where P = "\<lambda>g x. g \<noteq> 0 \<longrightarrow> 0 \<le> g \<and> g \<le> r \<and> (\<exists>k. probe k g = Inr None)"]) auto

lemma gas_search_error:
  assumes "0 \<le> l" "l < 2 ^ 63" "- 1 \<le> r" "r < 2 ^ 62"
    and "gas_search probe lower higher fuel n l r 0 (Some err) = Some (Inr (f', e', n'))"
  shows "f' = 0 \<longrightarrow> e' \<noteq> None"
  by (rule gas_search_inv [OF assms, where P = "\<lambda>g x. g = 0 \<longrightarrow> x \<noteq> None"]) auto

lemma gas_search_nonzero:
  assumes "0 \<le> l" "l < 2 ^ 63" "- 1 \<le> r" "r < 2 ^ 62" "30000 \<le> r - l"
  shows "gas_search probe lower higher (Suc fuel) n l r 0 e \<noteq> Some (Inr (0, None, n'))"
proof
  let ?m = "(l + r) div 2"
  assume res: "gas_search probe lower higher (Suc fuel) n l r 0 e = Some (Inr (0, None, n'))"
  note step = gas_search_step [OF assms(1-4), of probe lower higher fuel n 0 e]
  have b: "l < ?m" "?m < r" using mid_bounds(5) [OF assms] by simp_all
  have low: "gas_search probe lower higher fuel k l (?m - 1) g x \<noteq> Some (Inr (0, None, n'))"
    if "g = 0 \<longrightarrow> x \<noteq> None" for k g x
    using gas_search_inv [of l "?m - 1" probe lower higher fuel k g x 0 None n' "\<lambda>g x. g = 0 \<longrightarrow> x \<noteq> None"] that assms b by auto
  have high: "gas_search probe lower higher fuel k (?m + 1) r g x \<noteq> Some (Inr (0, None, n'))"
    if "g = 0 \<longrightarrow> x \<noteq> None" for k g x
    using gas_search_inv [of "?m + 1" r probe lower higher fuel k g x 0 None n' "\<lambda>g x. g = 0 \<longrightarrow> x \<noteq> None"] that assms b by auto
  have m: "?m \<noteq> 0" using b assms(1) by simp
  show False
    using res assms(5) low [of ?m None "n + 1"] low [of 0 "Some _" "n + 1"] high [of 0 "Some _" "n + 1"] m
    unfolding step Let_def by (auto split: sum.splits option.splits if_splits)
qed

text \<open>With a threshold below which the gas is too low, the result is at most one cutoff above it.\<close>

lemma gas_search_threshold:
  assumes "\<forall>k m. 0 \<le> m \<longrightarrow> (if T \<le> m then probe k m = Inr None
      else \<exists>err. probe k m = Inr (Some err) \<and> \<not> lower err \<and> higher err)"
    and "0 \<le> l" "l < 2 ^ 63" "- 1 \<le> r" "r < 2 ^ 62" "r - l < 30000 * 2 ^ fuel" "l \<le> T"
    and "f = 0 \<and> T \<le> r - 30000 \<or> f = r + 1 \<and> T \<le> f"
  shows "\<exists>f' e' n'. gas_search probe lower higher (Suc fuel) n l r f e = Some (Inr (f', e', n')) \<and> T \<le> f' \<and> f' \<le> T + 30000"
  using assms(2-)
proof (induction fuel arbitrary: n l r f e)
  case 0
  then show ?case by (auto simp: gas_search_step)
next
  case (Suc fuel)
  let ?m = "(l + r) div 2"
  show ?case
  proof (cases "r - l < 30000")
    case True
    with Suc.prems show ?thesis by (auto simp: gas_search_step)
  next
    case False
    then have b: "l < ?m" "?m < r" using mid_bounds(5) [OF Suc.prems(1-4)] by simp_all
    have half: "?m - 1 - l < 30000 * 2 ^ fuel" "r - (?m + 1) < 30000 * 2 ^ fuel"
      using Suc.prems(5) by auto
    show ?thesis
    proof (cases "T \<le> ?m")
      case True
      have p: "probe n ?m = Inr None" using assms(1) True b Suc.prems(1) by auto
      have "\<exists>f' e' n'. gas_search probe lower higher (Suc fuel) (n + 1) l (?m - 1) ?m None = Some (Inr (f', e', n')) \<and>
          T \<le> f' \<and> f' \<le> T + 30000"
        by (rule Suc.IH) (use Suc.prems b half True in auto)
      then show ?thesis
        unfolding gas_search_step [OF Suc.prems(1-4), of probe lower higher "Suc fuel"] Let_def p using False by simp
    next
      case below: False
      have "0 \<le> ?m" using b Suc.prems(1) by simp
      with assms(1) below obtain err where p: "probe n ?m = Inr (Some err)" "\<not> lower err" "higher err" by meson
      have "\<exists>f' e' n'. gas_search probe lower higher (Suc fuel) (n + 1) (?m + 1) r f (Some err) = Some (Inr (f', e', n')) \<and>
          T \<le> f' \<and> f' \<le> T + 30000"
        by (rule Suc.IH) (use Suc.prems b half below in auto)
      then show ?thesis
        unfolding gas_search_step [OF Suc.prems(1-4), of probe lower higher "Suc fuel"] Let_def p(1) using False p(2,3) by simp
    qed
  qed
qed


subsection \<open>The operations that are simulated\<close>

lemma validate_op_raw: "validate_op r = Some op \<Longrightarrow> r = raw_of op"
  by (cases r) (auto simp: validate_op_def raw_of_def required_big_Some required_address_Some required_bytes_def
      split: option.splits sum.splits)

lemma New_userop_decoded: "New_userop L data = Inr op \<Longrightarrow> decode_op L data = raw_of op \<and> wf_op op"
  using New_userop_Inr New_userop_wf validate_op_raw by metis

text \<open>
  The map of an operation with other gas limits and fees denotes the operation with these values
  (\<open>with_gas\<close>), if it is accepted at all.
\<close>

definition with_gas :: "user_op \<Rightarrow> int \<Rightarrow> int \<Rightarrow> int \<Rightarrow> user_op" where
  "with_gas op fee vgl cgl = op\<lparr>MaxFeePerGas := fee, MaxPriorityFeePerGas := fee,
     VerificationGasLimit := vgl, CallGasLimit := cgl\<rparr>"

definition gas_map :: "'y userop_lib_scheme \<Rightarrow> user_op \<Rightarrow> int \<Rightarrow> int \<Rightarrow> int \<Rightarrow> obj" where
  "gas_map L op fee vgl cgl = (ToMap L op)(''maxFeePerGas'' \<mapsto> JStr (EncodeBig L fee),
     ''maxPriorityFeePerGas'' \<mapsto> JStr (EncodeBig L fee),
     ''verificationGasLimit'' \<mapsto> JStr (EncodeBig L vgl), ''callGasLimit'' \<mapsto> JStr (EncodeBig L cgl))"

lemma gas_map_ToMap: "gas_map L op fee vgl cgl = ToMap L (with_gas op fee vgl cgl)"
  by (rule ext) (simp add: gas_map_def with_gas_def ToMap_def MarshalJSON_def)

lemma New_userop_gas_map:
  assumes "eth_lib_ok L" "wf_op op" "0 \<le> fee" "0 \<le> vgl" "0 \<le> cgl"
  shows "New_userop L (gas_map L op fee vgl cgl) = Inr (with_gas op fee vgl cgl)"
  unfolding gas_map_ToMap
  by (rule New_userop_ToMap [OF assms(1)]) (use assms(2-) in \<open>auto simp: wf_op_def with_gas_def\<close>)

lemma gas_map_fields:
  assumes "eth_lib_ok L" "wf_op op" "0 \<le> fee" "New_userop L (gas_map L op fee vgl cgl) = Inr simOp"
  shows "simOp = with_gas op fee (VerificationGasLimit simOp) (CallGasLimit simOp) \<and>
    (0 \<le> cgl \<longrightarrow> CallGasLimit simOp = cgl) \<and> (0 \<le> vgl \<longrightarrow> VerificationGasLimit simOp = vgl)"
proof -
  have dec: "decode_op L (gas_map L op fee vgl cgl) = raw_of simOp"
    using New_userop_decoded [OF assms(4)] by simp
  let ?r = "decode_op L (gas_map L op fee vgl cgl)"
  have keep: "raw_sender ?r = Inr (Sender op)" "raw_nonce ?r = Inr (Some (Nonce op))"
    "raw_initCode ?r = Inr (Some (InitCode op))" "raw_callData ?r = Inr (Some (CallData op))"
    "raw_preVerificationGas ?r = Inr (Some (PreVerificationGas op))"
    "raw_maxFeePerGas ?r = Inr (Some fee)" "raw_maxPriorityFeePerGas ?r = Inr (Some fee)"
    "raw_paymasterAndData ?r = Inr (Some (PaymasterAndData op))" "raw_signature ?r = Inr (Some (Signature op))"
    "0 \<le> cgl \<longrightarrow> raw_callGasLimit ?r = Inr (Some cgl)" "0 \<le> vgl \<longrightarrow> raw_verificationGasLimit ?r = Inr (Some vgl)"
    using assms(2,3) by (simp_all add: gas_map_ToMap decode_op_def with_gas_def ToMap_def MarshalJSON_def field_value_Some
        decode_strings [OF assms(1)] wf_op_def)
  show ?thesis using keep unfolding dec by (simp add: raw_of_def with_gas_def)
qed

lemma gas_map_same_vgl:
  assumes "New_userop L (gas_map L op fee vgl c1) = Inr op1" "New_userop L (gas_map L op fee vgl c2) = Inr op2"
  shows "VerificationGasLimit op1 = VerificationGasLimit op2"
proof -
  have "raw_verificationGasLimit (decode_op L (gas_map L op fee vgl c1))
      = raw_verificationGasLimit (decode_op L (gas_map L op fee vgl c2))"
    by (simp add: decode_op_def gas_map_def field_value_def)
  then show ?thesis using New_userop_decoded [OF assms(1)] New_userop_decoded [OF assms(2)] by (simp add: raw_of_def)
qed

lemma initial_gas_map:
  "(initial_data L op)(''verificationGasLimit'' \<mapsto> JStr (EncodeBig L m)) = gas_map L op (MaxFeePerGas op) m 0"
  by (rule ext) (simp add: initial_data_def gas_map_def ToMap_def MarshalJSON_def)

lemma simulate_probe_op:
  assumes "eth_lib_ok L" "wf_op (ei_Op inp)" "0 \<le> m"
  shows "simulate_probe L E inp (initial_data L (ei_Op inp)) n m =
    (let op = with_gas (ei_Op inp) (MaxFeePerGas (ei_Op inp)) m 0 in
     case SimulateHandleOp L (en_prep E n op) (en_call E n op (ei_Sos inp)) of Inl err \<Rightarrow> Inr (Some err) | Inr sim \<Rightarrow> Inr None)"
  using assms(2) unfolding simulate_probe_def initial_gas_map Let_def
  by (subst New_userop_gas_map [OF assms(1,2)]) (simp_all add: assms(3) wf_op_def)

text \<open>The map of the last phase of a pass.\<close>

lemma final_gas_map:
  "(initial_data L op)(''verificationGasLimit'' \<mapsto> a, ''maxFeePerGas'' \<mapsto> b, ''maxPriorityFeePerGas'' \<mapsto> b', ''callGasLimit'' \<mapsto> d,
     ''maxFeePerGas'' \<mapsto> JStr (EncodeBig L fee), ''maxPriorityFeePerGas'' \<mapsto> JStr (EncodeBig L fee),
     ''verificationGasLimit'' \<mapsto> JStr (EncodeBig L vgl), ''callGasLimit'' \<mapsto> JStr (EncodeBig L cgl))
   = gas_map L op fee vgl cgl"
  by (rule ext) (simp add: initial_data_def gas_map_def)

lemma gas_map_cgl: "(gas_map L op fee vgl cgl)(''callGasLimit'' \<mapsto> JStr (EncodeBig L m)) = gas_map L op fee vgl m"
  by (rule ext) (simp add: gas_map_def)

text \<open>
  A pair of gas values is backed by a run of the operation with these values and its own gas price
  that the node has traced without an error.
\<close>

definition backed :: "('ev, 'y) exec_lib_scheme \<Rightarrow> estimate_node \<Rightarrow> estimate_input \<Rightarrow> int \<Rightarrow> int \<Rightarrow> bool" where
  "backed L E inp v c \<longleftrightarrow> (\<exists>k vgl cgl out. 0 \<le> vgl \<and> 0 \<le> cgl \<and> v = uwrap64 vgl \<and> c = uwrap64 cgl \<and>
     run_trace L E inp k (with_gas (ei_Op inp) (MaxFeePerGas (ei_Op inp)) vgl cgl) None = Inr out)"

lemma backedI:
  assumes "simOp = with_gas (ei_Op inp) (MaxFeePerGas (ei_Op inp)) (VerificationGasLimit simOp) (CallGasLimit simOp)"
    and "wf_op simOp" "run_trace L E inp k simOp None = Inr out"
  shows "backed L E inp (uwrap64 (VerificationGasLimit simOp)) (uwrap64 (CallGasLimit simOp))"
  unfolding backed_def using assms
  by (intro exI [of _ k] exI [of _ "VerificationGasLimit simOp"] exI [of _ "CallGasLimit simOp"] exI [of _ out])
    (auto simp: wf_op_def)

definition estimate_ok :: "('ev, 'y) exec_lib_scheme \<Rightarrow> estimate_input \<Rightarrow> bool" where
  "estimate_ok L inp \<longleftrightarrow> eth_lib_ok L \<and> wf_op (ei_Op inp) \<and> 0 \<le> ei_MaxGasLimit inp \<and> ei_MaxGasLimit inp < 2 ^ 62 \<and>
     0 \<le> NonZeroValueCall (ei_Ov inp) \<and> NonZeroValueCall (ei_Ov inp) < 2 ^ 63"

lemma float_to_int64_range: "- (2 ^ 63) \<le> float_to_int64 q \<and> float_to_int64 q < 2 ^ 63"
  by (simp add: float_to_int64_def Let_def)

lemma final_search_range:
  assumes "estimate_ok L inp" "0 \<le> cgl" "cgl < 2 ^ 63"
  shows "wrap64 cgl = cgl" "wrap64 (ei_MaxGasLimit inp) = ei_MaxGasLimit inp" "- 1 \<le> ei_MaxGasLimit inp"
    "ei_MaxGasLimit inp < 2 ^ 62" "ei_MaxGasLimit inp - cgl < 30000 * 2 ^ 64"
proof -
  show "wrap64 cgl = cgl" using assms(2,3) by (intro wrap64_id) auto
  show "wrap64 (ei_MaxGasLimit inp) = ei_MaxGasLimit inp"
    using assms(1) unfolding estimate_ok_def by (intro wrap64_id) auto
  show "- 1 \<le> ei_MaxGasLimit inp" "ei_MaxGasLimit inp < 2 ^ 62" "ei_MaxGasLimit inp - cgl < 30000 * 2 ^ 64"
    using assms by (auto simp: estimate_ok_def)
qed

lemma search_fuel_Suc: "search_fuel = Suc 64"
  by (simp add: search_fuel_def)

lemma trace_probe_success:
  assumes "trace_probe L E inp data k m = Inr None"
  shows "\<exists>simOp out. New_userop L (data(''callGasLimit'' \<mapsto> JStr (EncodeBig L m))) = Inr simOp \<and>
    run_trace L E inp k simOp None = Inr out"
proof -
  from assms obtain simOp where s: "New_userop L (data(''callGasLimit'' \<mapsto> JStr (EncodeBig L m))) = Inr simOp"
    "(case run_trace L E inp k simOp None of Inl err \<Rightarrow> Inr (Some err) | Inr out \<Rightarrow> Inr None) = (Inr None :: go_error option res)"
    by (auto simp: trace_probe_def bind_res_eq_Inr)
  from s(2) obtain out where "run_trace L E inp k simOp None = Inr out"
    by (cases "run_trace L E inp k simOp None") auto
  with s(1) show ?thesis by blast
qed

lemma final_phase_result:
  assumes "estimate_ok L inp" "0 \<le> cgl" "cgl < 2 ^ 63" and "data = gas_map L (ei_Op inp) x y z"
  shows "final_phase L E inp data vgl cgl n \<noteq> OutOfFuel \<and>
    (final_phase L E inp data vgl cgl n = Return (Inr (v, c)) \<longrightarrow> backed L E inp v c)"
proof -
  have ok: "eth_lib_ok L" "wf_op (ei_Op inp)" "0 \<le> MaxFeePerGas (ei_Op inp)"
    using assms(1) by (auto simp: estimate_ok_def wf_op_def)
  let ?fee = "MaxFeePerGas (ei_Op inp)"
  have data: "data(''maxFeePerGas'' \<mapsto> JStr (EncodeBig L ?fee), ''maxPriorityFeePerGas'' \<mapsto> JStr (EncodeBig L ?fee),
      ''verificationGasLimit'' \<mapsto> JStr (EncodeBig L vgl), ''callGasLimit'' \<mapsto> JStr (EncodeBig L cgl))
      = gas_map L (ei_Op inp) ?fee vgl cgl"
    unfolding assms(4) by (rule ext) (simp add: gas_map_def)
  note fp = final_phase_def [of L E inp data vgl cgl n, unfolded Let_def data]
  show ?thesis
  proof (cases "New_userop L (gas_map L (ei_Op inp) ?fee vgl cgl)")
    case (Inl err)
    then show ?thesis by (simp add: fp)
  next
    case (Inr simOp)
    note fields = gas_map_fields [OF ok Inr]
    have wf: "wf_op simOp" by (rule New_userop_wf [OF Inr])
    show ?thesis
    proof (cases "run_trace L E inp n simOp None")
      case run: (Inr out)
      have "backed L E inp (uwrap64 (VerificationGasLimit simOp)) (uwrap64 (CallGasLimit simOp))"
        by (rule backedI [OF _ wf run]) (use fields in blast)
      then show ?thesis using run Inr by (auto simp: fp)
    next
      case run: (Inl err)
      show ?thesis
      proof (cases "isExecutionOOG err \<or> isExecutionReverted err")
        case False
        with run Inr show ?thesis by (simp add: fp)
      next
        case True
        let ?data = "gas_map L (ei_Op inp) ?fee vgl cgl"
        let ?s = "gas_search (trace_probe L E inp ?data) isPrefundNotPaid (\<lambda>e. isExecutionOOG e \<or> isExecutionReverted e)
            search_fuel (n + 1) cgl (ei_MaxGasLimit inp) 0 (Some err)"
        note range = final_search_range [OF assms(1-3)]
        have pass: "final_phase L E inp data vgl cgl n = (case ?s of None \<Rightarrow> OutOfFuel
            | Some (Inl e) \<Rightarrow> Return (Inl e)
            | Some (Inr (f, simErr, n')) \<Rightarrow>
                if f = 0 then Return (case simErr of None \<Rightarrow> Inr (0, 0) | Some e \<Rightarrow> Inl e)
                else Return (Inr (uwrap64 (VerificationGasLimit simOp), uwrap64 f)))"
          using run Inr True by (simp add: fp range(1,2))
        have "?s \<noteq> None"
          using gas_search_enough [OF assms(2,3) range(3,4,5)] unfolding search_fuel_Suc by fastforce
        then obtain x where x: "?s = Some x" by auto
        show ?thesis
        proof (cases x)
          case (Inl e)
          then show ?thesis unfolding pass x by simp
        next
          case xr: (Inr y)
          obtain f e n' where y: "y = (f, e, n')" by (cases y)
          have s: "?s = Some (Inr (f, e, n'))" using x xr y by simp
          note found = gas_search_found [OF assms(2,3) range(3,4) s] gas_search_error [OF assms(2,3) range(3,4) s]
          show ?thesis
          proof (cases "f = 0")
            case True
            with found(2) show ?thesis unfolding pass s by auto
          next
            case False
            with found(1) obtain k where f: "0 \<le> f" and k: "trace_probe L E inp ?data k f = Inr None" by blast
            obtain simOp2 out where two: "New_userop L (gas_map L (ei_Op inp) ?fee vgl f) = Inr simOp2"
              "run_trace L E inp k simOp2 None = Inr out"
              using trace_probe_success [OF k] unfolding gas_map_cgl by blast
            have "CallGasLimit simOp2 = f" using gas_map_fields [OF ok two(1)] f by simp
            moreover have "VerificationGasLimit simOp2 = VerificationGasLimit simOp" by (rule gas_map_same_vgl [OF two(1) Inr])
            moreover have "backed L E inp (uwrap64 (VerificationGasLimit simOp2)) (uwrap64 (CallGasLimit simOp2))"
              by (rule backedI [OF _ New_userop_wf [OF two(1)] two(2)]) (use gas_map_fields [OF ok two(1)] in blast)
            ultimately show ?thesis using False unfolding pass s by auto
          qed
        qed
      qed
    qed
  qed
qed


lemma vgl_phase_total:
  assumes "estimate_ok L inp"
  shows "\<exists>x. vgl_phase L E inp n = Some x"
proof (cases "ei_lastVGL inp = 0")
  case True
  have "\<exists>x. gas_search (simulate_probe L E inp (initial_data L (ei_Op inp))) isPrefundNotPaid isValidationOOG
      (Suc 64) n 0 (ei_MaxGasLimit inp) 0 None = Some x"
    by (rule gas_search_enough) (use final_search_range [OF assms, of 0] in auto)
  with True final_search_range(2) [OF assms, of 0] show ?thesis by (simp add: vgl_phase_def search_fuel_Suc)
qed (simp add: vgl_phase_def)

lemma estimate_pass_result:
  assumes "estimate_ok L inp"
  shows "estimate_pass L E inp n \<noteq> OutOfFuel \<and>
    (estimate_pass L E inp n = Return (Inr (v, c)) \<longrightarrow> backed L E inp v c \<or>
      v = 0 \<and> c = 0 \<and> ei_lastVGL inp = 0 \<and> (\<exists>n'. vgl_phase L E inp n = Some (Inr (0, None, n'))))"
proof -
  obtain x where x: "vgl_phase L E inp n = Some x" using vgl_phase_total [OF assms] by blast
  show ?thesis
  proof (cases x)
    case (Inl err)
    then show ?thesis by (simp add: estimate_pass_def x)
  next
    case (Inr y)
    obtain f e n1 where y: "y = (f, e, n1)" by (cases y)
    let ?f = "go_div (wrap64 (f * (100 + baseVGLBuffer))) 100"
    let ?data = "(initial_data L (ei_Op inp))(''verificationGasLimit'' \<mapsto> JStr (EncodeBig L ?f),
       ''maxFeePerGas'' \<mapsto> JStr (EncodeBig L 0), ''maxPriorityFeePerGas'' \<mapsto> JStr (EncodeBig L 0),
       ''callGasLimit'' \<mapsto> JStr (EncodeBig L (ei_MaxGasLimit inp)))"
    have data: "?data = gas_map L (ei_Op inp) 0 ?f (ei_MaxGasLimit inp)"
      by (rule ext) (simp add: initial_data_def gas_map_def)
    note pass = estimate_pass_def [of L E inp n, unfolded x Inr y Let_def option.case sum.case prod.case data]
    show ?thesis
    proof (cases "f = 0")
      case True
      then show ?thesis using x Inr y by (auto simp: pass vgl_phase_def split: option.splits if_splits)
    next
      case False
      show ?thesis
      proof (cases "New_userop L (gas_map L (ei_Op inp) 0 ?f (ei_MaxGasLimit inp))")
        case (Inl err)
        with False show ?thesis unfolding pass by simp
      next
        case op: (Inr simOp)
        show ?thesis
        proof (cases "run_trace L E inp n1 simOp (Some (MaxFeePerGas (ei_Op inp)))")
          case (Inl err)
          with False op show ?thesis unfolding pass by simp
        next
          case run: (Inr out)
          let ?c = "float_to_int64 (xr_ExecutionGasLimit (tr_Trace out))"
          let ?cgl = "if ?c < NonZeroValueCall (ei_Ov inp) then NonZeroValueCall (ei_Ov inp) else ?c"
          have "0 \<le> ?cgl" "?cgl < 2 ^ 63"
            using assms float_to_int64_range [of "xr_ExecutionGasLimit (tr_Trace out)"] by (auto simp: estimate_ok_def)
          from final_phase_result [OF assms this refl]
          show ?thesis using False op run unfolding pass by simp
        qed
      qed
    qed
  qed
qed

subsection \<open>Properties\<close>

text \<open>
  C12: \<open>EstimateGas\<close> always returns: its searches halve an interval of at most 62 bits and it retries
  at most seven times, whatever the node answers to each request.
\<close>

theorem EstimateGas_returns:
  assumes "estimate_ok L inp"
  shows "\<exists>r. EstimateGas L E inp n = Some r"
  using assms
proof (induction L E inp n rule: EstimateGas.induct)
  case (1 L E inp n)
  show ?case
  proof (cases "estimate_pass L E inp n")
    case (Return r)
    then show ?thesis by (simp add: EstimateGas.simps [of L E inp n])
  next
    case (Retry err vgl n')
    let ?inp = "inp\<lparr>ei_attempts := ei_attempts inp + 1, ei_lastVGL := vgl\<rparr>"
    have "estimate_ok L ?inp" using "1.prems" by (simp add: estimate_ok_def)
    with "1.IH" [OF Retry] Retry show ?thesis by (auto simp: EstimateGas.simps [of L E inp n])
  next
    case OutOfFuel
    with estimate_pass_result [OF "1.prems"] show ?thesis by blast
  qed
qed

text \<open>
  C13: gas values that \<open>EstimateGas\<close> returns are those of a run of the operation, with exactly these
  limits and its own gas price, that the node has traced without an error; the only other result is
  (0, 0) with no error, when the first search makes no probe, that is, when the maximal gas limit is
  below the cutoff of 30000.
\<close>

theorem EstimateGas_backed:
  assumes "estimate_ok L inp" "EstimateGas L E inp n = Some (Inr (v, c))"
  shows "backed L E inp v c \<or> v = 0 \<and> c = 0 \<and> ei_MaxGasLimit inp < 30000"
  using assms
proof (induction L E inp n rule: EstimateGas.induct)
  case (1 L E inp n)
  show ?case
  proof (cases "estimate_pass L E inp n")
    case (Return r)
    with "1.prems" have r: "estimate_pass L E inp n = Return (Inr (v, c))" by (simp add: EstimateGas.simps [of L E inp n])
    show ?thesis
    proof (cases "backed L E inp v c")
      case False
      with r estimate_pass_result [OF "1.prems"(1)] obtain n' where
        z: "v = 0" "c = 0" "ei_lastVGL inp = 0" "vgl_phase L E inp n = Some (Inr (0, None, n'))" by blast
      have M: "0 \<le> ei_MaxGasLimit inp" "ei_MaxGasLimit inp < 2 ^ 62" "wrap64 (ei_MaxGasLimit inp) = ei_MaxGasLimit inp"
        using "1.prems"(1) final_search_range [OF "1.prems"(1), of 0] by (auto simp: estimate_ok_def)
      have "ei_MaxGasLimit inp < 30000"
      proof (rule ccontr)
        assume "\<not> ei_MaxGasLimit inp < 30000"
        then have "vgl_phase L E inp n \<noteq> Some (Inr (0, None, n'))"
          using gas_search_nonzero [where l = 0 and r = "ei_MaxGasLimit inp" and fuel = 64] M z(3) by (simp add: vgl_phase_def search_fuel_Suc)
        with z(4) show False by simp
      qed
      with z show ?thesis by simp
    qed simp
  next
    case (Retry err vgl n')
    let ?inp = "inp\<lparr>ei_attempts := ei_attempts inp + 1, ei_lastVGL := vgl\<rparr>"
    have ok: "estimate_ok L ?inp" using "1.prems"(1) by (simp add: estimate_ok_def)
    have cond: "isValidationOOG err \<and> ei_attempts inp < maxRetries" and rec: "EstimateGas L E ?inp n' = Some (Inr (v, c))"
      using "1.prems"(2) Retry by (auto simp: EstimateGas.simps [of L E inp n] split: if_splits)
    from "1.IH" [OF Retry cond ok rec] show ?thesis by (simp add: backed_def run_trace_def)
  next
    case OutOfFuel
    with estimate_pass_result [OF "1.prems"(1)] show ?thesis by blast
  qed
qed


definition exec_ref :: "unit exec_lib" where
  "exec_ref = rev_lib.extend (rev_ref\<lparr>abi_error_Unpack := (\<lambda>name bs. if name = ''ExecutionResult'' then
       Inr (ArgList [ABig 1, ABig 1, ABig 0, ABig 0, ABool True, ABytes []]) else Inl (GoError ''abi''))\<rparr>)
     (exec_lib.fields (\<lambda>s. []) (\<lambda>a ts d. Inr ()))"

definition sample_return :: execution_return where
  "sample_return = \<lparr>xr_Reverts = [], xr_ValidationOOG = False, xr_ExecutionOOG = False, xr_ExecutionGasLimit = 40000,
     xr_UserOperationEvent = None, xr_Output = ''0x'', xr_Error = ''''\<rparr>"

definition sample_estimate_node :: estimate_node where
  "sample_estimate_node = \<lparr>en_prep = (\<lambda>n op. None), en_call = (\<lambda>n op sos. Some (HexDataError ''0x'')),
     en_trace = (\<lambda>n op fee sos. Inr sample_return)\<rparr>"

definition sample_estimate :: "int \<Rightarrow> estimate_input" where
  "sample_estimate m = \<lparr>ei_EntryPoint = 9, ei_Op = sample_op 5 3, ei_Sos = None, ei_Ov = NewDefaultOverhead,
     ei_MaxGasLimit = m, ei_attempts = 0, ei_lastVGL = 0\<rparr>"

lemma exec_ref_ok: "eth_lib_ok exec_ref"
  using rev_ref_ok by (simp add: eth_lib_ok_def exec_ref_def rev_lib.defs exec_lib.defs) metis

lemma sample_estimate_ok: "0 \<le> m \<Longrightarrow> m < 2 ^ 62 \<Longrightarrow> estimate_ok exec_ref (sample_estimate m)"
  using NonZeroValueCall_default [of calcPVGFuncNoop] sample_op_wf [of 5 3]
  by (simp add: estimate_ok_def exec_ref_ok sample_estimate_def NewDefaultOverhead_def)

lemma sample_result: "NewExecutionResult exec_ref (Some (HexDataError ''0x''))
    = Inr \<lparr>er_PreOpGas = 1, er_Paid = 1, er_ValidAfter = 0, er_ValidUntil = 0, er_TargetSuccess = True, er_TargetResult = []\<rparr>"
  by (simp add: NewExecutionResult_def revert_bytes_def exec_ref_def rev_lib.defs exec_lib.defs as_big_def as_bool_def as_bytes_def)

lemma sample_simulate: "\<exists>sim. SimulateHandleOp exec_ref (en_prep sample_estimate_node n op) (en_call sample_estimate_node n op sos) = Inr sim"
  by (simp add: SimulateHandleOp_def sample_estimate_node_def simulate_reply_def sample_result)

lemma sample_run_trace:
  "\<exists>out. run_trace exec_ref sample_estimate_node inp n op cap = Inr out \<and> tr_Trace out = sample_return"
proof -
  have "ParseHexToRpcDataError exec_ref ''0x'' = Inr (HexDataError ''0x'')"
    by (simp add: ParseHexToRpcDataError_def exec_ref_def rev_ref_defs exec_lib.defs)
  then show ?thesis
    by (simp add: run_trace_def TraceSimulateHandleOp_def sample_estimate_node_def sample_return_def simulate_reply_def
        sample_result parseUserOperationEvent_def)
qed

lemma sample_probe:
  assumes "0 \<le> m"
  shows "simulate_probe exec_ref sample_estimate_node (sample_estimate M) (initial_data exec_ref (sample_op 5 3)) n m = Inr None"
proof -
  have op: "ei_Op (sample_estimate M) = sample_op 5 3" by (simp add: sample_estimate_def)
  have wf: "wf_op (ei_Op (sample_estimate M))" unfolding op by (rule sample_op_wf) simp_all
  obtain sim where "SimulateHandleOp exec_ref (en_prep sample_estimate_node n (with_gas (sample_op 5 3) 30 m 0))
      (en_call sample_estimate_node n (with_gas (sample_op 5 3) 30 m 0) (ei_Sos (sample_estimate M))) = Inr sim"
    using sample_simulate by blast
  moreover have "MaxFeePerGas (sample_op 5 3) = 30" by (simp add: sample_op_def)
  ultimately show ?thesis
    using simulate_probe_op [OF exec_ref_ok wf assms, of sample_estimate_node n] by (simp add: op)
qed

theorem EstimateGas_returns_witness:
  "\<exists>r. EstimateGas exec_ref sample_estimate_node (sample_estimate 30000000) 0 = Some r"
  by (rule EstimateGas_returns) (simp add: sample_estimate_ok)

lemma gas_search_once:
  assumes "probe 0 15000 = Inr None"
  shows "gas_search probe lower higher (Suc (Suc fuel)) 0 0 30000 0 None = Some (Inr (15000, None, 1))"
proof -
  have "gas_search probe lower higher (Suc (Suc fuel)) 0 0 30000 0 None
      = gas_search probe lower higher (Suc fuel) 1 0 14999 15000 None"
    by (subst gas_search_step) (simp_all add: assms)
  also have "\<dots> = Some (Inr (15000, None, 1))" by (subst gas_search_step) simp_all
  finally show ?thesis .
qed

lemma sample_vgl_phase:
  "vgl_phase exec_ref sample_estimate_node (sample_estimate 30000) 0 = Some (Inr (15000, None, 1))"
proof -
  have "search_fuel = Suc (Suc 63)" by (simp add: search_fuel_def)
  moreover have "wrap64 30000 = 30000" by (simp add: wrap64_id)
  moreover have "ei_lastVGL (sample_estimate 30000) = 0" "ei_MaxGasLimit (sample_estimate 30000) = 30000"
    "ei_Op (sample_estimate 30000) = sample_op 5 3" by (simp_all add: sample_estimate_def)
  moreover have "simulate_probe exec_ref sample_estimate_node (sample_estimate 30000) (initial_data exec_ref (sample_op 5 3)) 0 15000 = Inr None"
    by (rule sample_probe) simp
  note gas_search_once [where probe = "simulate_probe exec_ref sample_estimate_node (sample_estimate 30000) (initial_data exec_ref (sample_op 5 3))",
      OF this, of isPrefundNotPaid isValidationOOG 63]
  ultimately show ?thesis by (simp only: vgl_phase_def if_True refl)
qed

lemma sample_estimates:
  "EstimateGas exec_ref sample_estimate_node (sample_estimate 30000) 0 = Some (Inr (18750, 40000))"
proof -
  let ?inp = "sample_estimate 30000" and ?E = sample_estimate_node
  have inp: "ei_Op ?inp = sample_op 5 3" "ei_Ov ?inp = NewDefaultOverhead" "ei_MaxGasLimit ?inp = 30000"
    by (simp_all add: sample_estimate_def)
  have wf: "wf_op (sample_op 5 3)" and fee: "MaxFeePerGas (sample_op 5 3) = 30"
    using sample_op_wf [of 5 3] by (simp_all add: sample_op_def)
  have f: "go_div (wrap64 (15000 * (100 + baseVGLBuffer))) 100 = 18750"
    by (simp add: baseVGLBuffer_def wrap64_id go_div_def)
  let ?data = "(initial_data exec_ref (sample_op 5 3))(''verificationGasLimit'' \<mapsto> JStr (EncodeBig exec_ref 18750),
       ''maxFeePerGas'' \<mapsto> JStr (EncodeBig exec_ref 0), ''maxPriorityFeePerGas'' \<mapsto> JStr (EncodeBig exec_ref 0),
       ''callGasLimit'' \<mapsto> JStr (EncodeBig exec_ref 30000))"
  have data: "?data = gas_map exec_ref (sample_op 5 3) 0 18750 30000"
    by (rule ext) (simp add: initial_data_def gas_map_def)
  obtain out where out: "run_trace exec_ref ?E ?inp 1 (with_gas (sample_op 5 3) 0 18750 30000) (Some 30) = Inr out"
    "tr_Trace out = sample_return" using sample_run_trace by blast
  obtain out2 where out2: "run_trace exec_ref ?E ?inp (1 + 1) (with_gas (sample_op 5 3) 30 18750 40000) None = Inr out2"
    using sample_run_trace by blast
  have cgl: "float_to_int64 (xr_ExecutionGasLimit sample_return) = 40000"
    using float_to_int64_of_int [of 40000] by (simp add: sample_return_def)
  have nz: "NonZeroValueCall NewDefaultOverhead = 12100"
    using NonZeroValueCall_default [of calcPVGFuncNoop] by (simp add: NewDefaultOverhead_def)
  have data2: "(gas_map exec_ref (sample_op 5 3) 0 18750 30000)(''maxFeePerGas'' \<mapsto> JStr (EncodeBig exec_ref 30),
      ''maxPriorityFeePerGas'' \<mapsto> JStr (EncodeBig exec_ref 30),
      ''verificationGasLimit'' \<mapsto> JStr (EncodeBig exec_ref 18750), ''callGasLimit'' \<mapsto> JStr (EncodeBig exec_ref 40000))
      = gas_map exec_ref (sample_op 5 3) 30 18750 40000"
    by (rule ext) (simp add: gas_map_def)
  have new1: "New_userop exec_ref (gas_map exec_ref (sample_op 5 3) 0 18750 30000) = Inr (with_gas (sample_op 5 3) 0 18750 30000)"
    and new2: "New_userop exec_ref (gas_map exec_ref (sample_op 5 3) 30 18750 40000) = Inr (with_gas (sample_op 5 3) 30 18750 40000)"
    by (rule New_userop_gas_map [OF exec_ref_ok wf], simp_all)+
  have final: "final_phase exec_ref ?E ?inp (gas_map exec_ref (sample_op 5 3) 0 18750 30000) 18750 40000 (1 + 1)
      = Return (Inr (18750, 40000))"
    unfolding final_phase_def Let_def inp fee data2 new2 sum.case out2
    by (simp add: with_gas_def uwrap64_id)
  have "estimate_pass exec_ref ?E ?inp 0 = Return (Inr (18750, 40000))"
    unfolding estimate_pass_def sample_vgl_phase option.case sum.case prod.case Let_def f inp fee data new1 out(1)
    by (simp add: out(2) cgl nz with_gas_def final [unfolded with_gas_def, simplified])
  then show ?thesis by (simp add: EstimateGas.simps)
qed

theorem EstimateGas_backed_witness:
  "backed exec_ref sample_estimate_node (sample_estimate 30000) 18750 40000"
  using EstimateGas_backed [OF sample_estimate_ok sample_estimates] by simp



end
