(* ===== verification/Client.thy ===== *)
theory Client
  imports Bundler Event_Filter Estimate
begin

text \<open>
  \<open>pkg/client\<close> and \<open>pkg/fees\<close>: the mediator of the RPC methods that add operations to the pool and
  answer questions about them, the debug methods, and the adapter that names them for the JSON-RPC
  server. A result of \<open>None\<close> is a call that does not return (a gas search or a module of the bundler).
  \<open>op_module\<close> is what the client needs of its modules: they keep the operation and the pool.
\<close>

subsection \<open>fees/gasprices.go\<close>

record gas_prices =
  gp_MaxFeePerGas :: int
  gp_MaxPriorityFeePerGas :: int

text \<open>The arguments are the answers of \<open>HeaderByNumber\<close>, \<open>SuggestGasTipCap\<close> and \<open>SuggestGasPrice\<close>.\<close>

definition NewGasPrices :: "int option res \<Rightarrow> int res \<Rightarrow> int res \<Rightarrow> gas_prices res" where
  "NewGasPrices headBaseFee suggestTip suggestPrice =
     (case headBaseFee of
        Inl err \<Rightarrow> Inl err
      | Inr (Some bf) \<Rightarrow>
          bind_res suggestTip (\<lambda>tip. Inr \<lparr>gp_MaxFeePerGas = tip + bf * 2, gp_MaxPriorityFeePerGas = tip\<rparr>)
      | Inr None \<Rightarrow>
          bind_res suggestPrice (\<lambda>sgp. Inr \<lparr>gp_MaxFeePerGas = sgp, gp_MaxPriorityFeePerGas = sgp\<rparr>))"

subsection \<open>client.go\<close>

record gas_estimates =
  ge_PreVerificationGas :: "int option"
  ge_VerificationGasLimit :: int
  ge_CallGasLimit :: int
  ge_VerificationGas :: int

record ('w, 'log) client =
  cl_ov :: overhead
  cl_chainID :: int
  cl_supportedEntryPoints :: "address list"
  cl_userOpHandler :: "'w op_handler"
  cl_getUserOpReceipt :: "string \<Rightarrow> address \<Rightarrow> 'log user_op_receipt res"
  cl_getGasPrices :: "gas_prices res"
  cl_getGasEstimate :: "address \<Rightarrow> user_op \<Rightarrow> override_set \<Rightarrow> (int \<times> int) res option"
  cl_getUserOpByHash :: "string \<Rightarrow> address \<Rightarrow> int \<Rightarrow> hash_lookup_result res"

definition getUserOpReceiptNoop :: "string \<Rightarrow> address \<Rightarrow> 'log user_op_receipt res" where
  "getUserOpReceiptNoop h ep = Inl MissingHash"

definition getGasPricesNoop :: "gas_prices res" where
  "getGasPricesNoop = Inr \<lparr>gp_MaxFeePerGas = 0, gp_MaxPriorityFeePerGas = 0\<rparr>"

definition getGasEstimateNoop :: "address \<Rightarrow> user_op \<Rightarrow> override_set \<Rightarrow> (int \<times> int) res option" where
  "getGasEstimateNoop ep op sos = Some (Inl MissingHash)"

definition getUserOpByHashNoop :: "string \<Rightarrow> address \<Rightarrow> int \<Rightarrow> hash_lookup_result res" where
  "getUserOpByHashNoop h ep chain = Inl MissingHash"

definition GetUserOpReceiptWithEthClient :: "'y eth_lib_scheme \<Rightarrow> ('log, 'tx) filter_node \<Rightarrow> string \<Rightarrow> address \<Rightarrow>
    'log user_op_receipt res" where
  "GetUserOpReceiptWithEthClient L N h ep = GetUserOperationReceipt L N h ep"

definition GetGasPricesWithEthClient :: "int option res \<Rightarrow> int res \<Rightarrow> int res \<Rightarrow> gas_prices res" where
  "GetGasPricesWithEthClient headBaseFee suggestTip suggestPrice = NewGasPrices headBaseFee suggestTip suggestPrice"

definition GetGasEstimateWithEthClient :: "('ev, 'y) exec_lib_scheme \<Rightarrow> estimate_node \<Rightarrow> overhead \<Rightarrow> int \<Rightarrow>
    address \<Rightarrow> user_op \<Rightarrow> override_set \<Rightarrow> (int \<times> int) res option" where
  "GetGasEstimateWithEthClient L E ov maxGasLimit ep op sos =
     EstimateGas L E \<lparr>ei_EntryPoint = ep, ei_Op = op, ei_Sos = Some sos, ei_Ov = ov, ei_MaxGasLimit = maxGasLimit,
       ei_attempts = 0, ei_lastVGL = 0\<rparr> 0"

definition GetUserOpByHashWithEthClient :: "'y userop_lib_scheme \<Rightarrow> ('log, 'tx) filter_node \<Rightarrow> string \<Rightarrow> address \<Rightarrow> int \<Rightarrow>
    hash_lookup_result res" where
  "GetUserOpByHashWithEthClient L N h ep chain = GetUserOperationByHash L N h ep chain"

definition New_client :: "overhead \<Rightarrow> int \<Rightarrow> address list \<Rightarrow> ('w, 'log) client" where
  "New_client ov chainID supportedEntryPoints =
     \<lparr>cl_ov = ov, cl_chainID = chainID, cl_supportedEntryPoints = supportedEntryPoints, cl_userOpHandler = noop_UserOpHandler,
      cl_getUserOpReceipt = getUserOpReceiptNoop, cl_getGasPrices = getGasPricesNoop,
      cl_getGasEstimate = getGasEstimateNoop, cl_getUserOpByHash = getUserOpByHashNoop\<rparr>"

fun find_address :: "address \<Rightarrow> address list \<Rightarrow> address option" where
  "find_address a [] = None"
| "find_address a (addr # addrs) = (if a = addr then Some addr else find_address a addrs)"

definition parseEntryPointAddress :: "'y eth_lib_scheme \<Rightarrow> ('w, 'log) client \<Rightarrow> string \<Rightarrow> address res" where
  "parseEntryPointAddress L cl ep =
     (case find_address (HexToAddress L ep) (cl_supportedEntryPoints cl) of
        Some addr \<Rightarrow> Inr addr
      | None \<Rightarrow> Inl (GoError ''entryPoint: Implementation not supported''))"

definition client_UseModules :: "'w op_handler list \<Rightarrow> ('w, 'log) client \<Rightarrow> ('w, 'log) client" where
  "client_UseModules handlers cl = cl\<lparr>cl_userOpHandler := ComposeUserOpHandlerFunc handlers\<rparr>"

definition SetGetUserOpReceiptFunc :: "(string \<Rightarrow> address \<Rightarrow> 'log user_op_receipt res) \<Rightarrow> ('w, 'log) client \<Rightarrow> ('w, 'log) client" where
  "SetGetUserOpReceiptFunc fn cl = cl\<lparr>cl_getUserOpReceipt := fn\<rparr>"

definition SetGetGasPricesFunc :: "gas_prices res \<Rightarrow> ('w, 'log) client \<Rightarrow> ('w, 'log) client" where
  "SetGetGasPricesFunc fn cl = cl\<lparr>cl_getGasPrices := fn\<rparr>"

definition SetGetGasEstimateFunc :: "(address \<Rightarrow> user_op \<Rightarrow> override_set \<Rightarrow> (int \<times> int) res option) \<Rightarrow> ('w, 'log) client \<Rightarrow> ('w, 'log) client" where
  "SetGetGasEstimateFunc fn cl = cl\<lparr>cl_getGasEstimate := fn\<rparr>"

definition SetGetUserOpByHashFunc :: "(string \<Rightarrow> address \<Rightarrow> int \<Rightarrow> hash_lookup_result res) \<Rightarrow> ('w, 'log) client \<Rightarrow> ('w, 'log) client" where
  "SetGetUserOpByHashFunc fn cl = cl\<lparr>cl_getUserOpByHash := fn\<rparr>"

definition SendUserOperation :: "'y userop_lib_scheme \<Rightarrow> 'd badger \<Rightarrow> 's sset \<Rightarrow> (('d, 's, 'x) mempool_scheme, 'log) client \<Rightarrow>
    obj \<Rightarrow> string \<Rightarrow> ('d, 's, 'x) mempool_scheme \<Rightarrow> string res \<times> ('d, 's, 'x) mempool_scheme" where
  "SendUserOperation L B S cl op ep w =
     (case parseEntryPointAddress L cl ep of
        Inl err \<Rightarrow> (Inl err, w)
      | Inr epAddr \<Rightarrow>
          (case New_userop L op of
             Inl err \<Rightarrow> (Inl err, w)
           | Inr userOp \<Rightarrow>
               let hsh = GetUserOpHash L userOp epAddr (cl_chainID cl);
                   (penOps, w) = GetOps S w epAddr (Sender userOp)
               in case cl_userOpHandler cl (w, NewUserOpHandlerContext userOp penOps epAddr (cl_chainID cl)) of
                    (Some err, w, c) \<Rightarrow> (Inl err, w)
                  | (None, w, c) \<Rightarrow>
                      (case AddOp L B S epAddr (UserOp c) w of
                         (Some err, w) \<Rightarrow> (Inl err, w)
                       | (None, w) \<Rightarrow> (Inr (HashString L hsh), w))))"

text \<open>The state overrides and the gas price with which an estimate runs.\<close>

definition default_overrides :: "user_op \<Rightarrow> override_set \<Rightarrow> override_set" where
  "default_overrides op sos = (if GetPaymaster op = 0 then WithMaxBalanceOverride (Sender op) (Some sos) else sos)"

definition with_gas_price :: "gas_prices res \<Rightarrow> user_op \<Rightarrow> user_op res" where
  "with_gas_price prices op =
     (if \<not> MaxFeePerGas op > 0 then
        bind_res prices (\<lambda>gp. Inr (op\<lparr>MaxFeePerGas := gp_MaxFeePerGas gp, MaxPriorityFeePerGas := gp_MaxPriorityFeePerGas gp\<rparr>))
      else Inr op)"

definition EstimateUserOperationGas :: "'y userop_lib_scheme \<Rightarrow> (string \<Rightarrow> bool) \<Rightarrow> (json \<Rightarrow> override_account res) \<Rightarrow>
    ('w, 'log) client \<Rightarrow> obj \<Rightarrow> string \<Rightarrow> (string \<times> json) list \<Rightarrow> gas_estimates res option" where
  "EstimateUserOperationGas L IsHexAddress decode cl op ep os =
     (case bind_res (parseEntryPointAddress L cl ep) (\<lambda>epAddr.
           bind_res (New_userop L op) (\<lambda>userOp.
           bind_res (ParseOverrideData L IsHexAddress decode os) (\<lambda>sos.
           bind_res (with_gas_price (cl_getGasPrices cl) userOp) (\<lambda>priced.
             Inr (epAddr, priced, default_overrides userOp sos))))) of
        Inl err \<Rightarrow> Some (Inl err)
      | Inr (epAddr, userOp, sos) \<Rightarrow>
          (case cl_getGasEstimate cl epAddr userOp sos of
             None \<Rightarrow> None
           | Some r \<Rightarrow> Some (bind_res r (\<lambda>(vg, cg).
               bind_res (CalcPreVerificationGasWithBuffer L (cl_ov cl) userOp) (\<lambda>pvg.
                 Inr \<lparr>ge_PreVerificationGas = pvg, ge_VerificationGasLimit = wrap64 vg, ge_CallGasLimit = wrap64 cg,
                      ge_VerificationGas = wrap64 vg\<rparr>)))))"

text \<open>A pooled operation has a receipt with a nonce of -1 and no other field.\<close>

definition pooled_receipt :: "'log user_op_receipt" where
  "pooled_receipt = \<lparr>ur_UserOpHash = replicate 32 0, ur_Sender = 0, ur_Paymaster = 0, ur_Nonce = ''-1'', ur_Success = False,
     ur_ActualGasCost = '''', ur_ActualGasUsed = '''', ur_From = 0, ur_Receipt = None, ur_Logs = []\<rparr>"

definition client_GetUserOperationReceipt :: "'d badger \<Rightarrow> (('d, 's, 'x) mempool_scheme, 'log) client \<Rightarrow> string \<Rightarrow>
    ('d, 's, 'x) mempool_scheme \<Rightarrow> 'log user_op_receipt res" where
  "client_GetUserOperationReceipt B cl h w =
     bind_res (HasUserOpHash B w h) (\<lambda>pooled.
       if pooled then Inr pooled_receipt
       else if cl_supportedEntryPoints cl = [] then Inl (Panicked ''index out of range'')
       else cl_getUserOpReceipt cl h (hd (cl_supportedEntryPoints cl)))"

definition client_GetUserOperationByHash :: "('w, 'log) client \<Rightarrow> string \<Rightarrow> hash_lookup_result res" where
  "client_GetUserOperationByHash cl h =
     (if cl_supportedEntryPoints cl = [] then Inl (Panicked ''index out of range'')
      else cl_getUserOpByHash cl h (hd (cl_supportedEntryPoints cl)) (cl_chainID cl))"

definition SupportedEntryPoints :: "'y eth_lib_scheme \<Rightarrow> ('w, 'log) client \<Rightarrow> string list" where
  "SupportedEntryPoints L cl = map (AddressString L) (cl_supportedEntryPoints cl)"

definition client_ChainID :: "'y eth_lib_scheme \<Rightarrow> ('w, 'log) client \<Rightarrow> string" where
  "client_ChainID L cl = EncodeBig L (cl_chainID cl)"

subsection \<open>The contract of a module for one operation\<close>

locale op_module =
  fixes B :: "'d badger" and handler :: "('d, 's, 'x) mempool_scheme op_handler"
  assumes keeps_op: "handler (w, c) = (e, w', c') \<Longrightarrow> UserOp c' = UserOp c"
    and keeps_pool: "handler (w, c) = (e, w', c') \<Longrightarrow> pool_same B w w'"
begin

lemma handler_pool_inv:
  assumes "handler (w, c) = (e, w', c')" "pool_inv L B S nodes w"
  shows "pool_inv L B S nodes w'" "pool_look L nodes w' = pool_look L nodes w"
  by (rule pool_same_inv [OF keeps_pool [OF assms(1)] assms(2)])+

end

lemma compose_op_module:
  assumes "\<forall>h \<in> set fns. op_module B h"
  shows "op_module B (ComposeUserOpHandlerFunc fns)"
proof -
  have "UserOp c' = UserOp c \<and> pool_same B w w'" if "compose_handlers fns (w, c) = (e, w', c')" for w c e w' c'
    using that assms
  proof (induction fns arbitrary: w c)
    case (Cons h fns)
    obtain e1 w1 c1 where h: "h (w, c) = (e1, w1, c1)" by (cases "h (w, c)") auto
    have m: "op_module B h" using Cons.prems(2) by simp
    note first = op_module.keeps_op [OF m h] op_module.keeps_pool [OF m h]
    show ?case
    proof (cases e1)
      case None
      then have "compose_handlers fns (w1, c1) = (e, w', c')" using Cons.prems(1) h by simp
      from Cons.IH [OF this] Cons.prems(2) first show ?thesis by (auto intro: pool_same_trans)
    next
      case (Some err)
      with Cons.prems(1) h first show ?thesis by simp
    qed
  qed simp
  then show ?thesis by unfold_locales (auto simp: ComposeUserOpHandlerFunc_def)
qed

lemma db_op_module:
  assumes "\<And>c d d' k. f c d = Inr d' \<Longrightarrow> prefix mempool_keyPrefix k \<Longrightarrow> txn_Get B d' k = txn_Get B d k"
    and "\<And>w c. handler (w, c) = (let (e, d) = db_Update B (f c) (mp_db w) in (e, w\<lparr>mp_db := d\<rparr>, c))"
  shows "op_module B handler"
proof
  fix w c e w' c' assume h: "handler (w, c) = (e, w', c')"
  then show "UserOp c' = UserOp c" by (auto simp: assms(2) split: prod.splits)
  from h obtain d where d: "db_Update B (f c) (mp_db w) = (e, d)" "w' = w\<lparr>mp_db := d\<rparr>"
    by (auto simp: assms(2) split: prod.splits)
  show "pool_same B w w'"
    unfolding d(2)
    by (rule pool_same_db) (use d(1) assms(1) in \<open>cases rule: db_Update_cases [of B "f c" "mp_db w"]; auto\<close>)
qed

interpretation noop_op: op_module B noop_UserOpHandler for B
  by unfold_locales (auto simp: noop_UserOpHandler_def)

lemma stake_reader_op:
  "ValidateInitCode op (getStakeWithEthClient N) c = (e, c') \<Longrightarrow> UserOp c' = UserOp c"
  "ValidatePaymasterAndData op (getCodeWithEthClient N) (getStakeWithEthClient N) c = (e, c') \<Longrightarrow> UserOp c' = UserOp c"
  "ValidatePendingOps op ps m (getStakeWithEthClient N) c = (e, c') \<Longrightarrow> UserOp c' = UserOp c"
  using ValidateInitCode_None [of op N c] ValidatePaymasterAndData_None [of op N c] ValidatePendingOps_None [of op ps m N c]
    reads_stakes_fields by fastforce+

lemma ValidateOpValues_fields:
  "ValidateOpValues L N pick s (w, c) = (e, w', c') \<Longrightarrow> w' = w \<and> UserOp c' = UserOp c"
  by (auto simp: ValidateOpValues_def Let_def split: option.splits prod.splits dest!: stake_reader_op)

interpretation validate_values: op_module B "ValidateOpValues L N pick s" for B L N pick s
  by unfold_locales (auto dest: ValidateOpValues_fields)

lemma getOpsCountKey_other: "prefix mempool_keyPrefix k \<Longrightarrow> k \<noteq> getOpsCountKey L pm"
  by (auto simp: getOpsCountKey_def opsCountPrefix_def JoinValues_def mempool_keyPrefix_def)

lemma incrementOpsSeen_frame:
  assumes "badger_ok B" "incrementOpsSeenByPaymaster L B clk pm d = Inr d'" "prefix mempool_keyPrefix k"
  shows "txn_Get B d' k = txn_Get B d k"
proof -
  from assms(2) obtain s i d1 v where "getOpsCountByPaymaster L B clk pm d = Inr (s, i, d1)"
    "txn_Set B d1 (getOpsCountKey L pm) v = Inr d'"
    by (auto simp: incrementOpsSeenByPaymaster_def bind_res_eq_Inr)
  with getOpsCount_frame [OF assms(1) _ assms(3)] badger_okD(2) [OF assms(1)] getOpsCountKey_other [OF assms(3)]
  show ?thesis by metis
qed

lemma getStatus_frame:
  assumes "badger_ok B" "getStatus L B clk pm d = Inr (st, d')" "prefix mempool_keyPrefix k"
  shows "txn_Get B d' k = txn_Get B d k"
proof -
  from assms(2) obtain s i where "getOpsCountByPaymaster L B clk pm d = Inr (s, i, d')"
    by (auto simp: getStatus_def bind_res_eq_Inr Let_def split: if_splits)
  from getOpsCount_frame [OF assms(1) this assms(3)] show ?thesis .
qed

lemma inc_seen_op_module:
  assumes "badger_ok B"
  shows "op_module B (IncOpsSeen L B clk)"
proof (rule db_op_module)
  show "IncOpsSeen L B clk (w, c) = (let (e, d) = db_Update B (\<lambda>txn. let pm = GetPaymaster (UserOp c) in
      if pm = 0 then Inr txn else incrementOpsSeenByPaymaster L B clk pm txn) (mp_db w) in (e, w\<lparr>mp_db := d\<rparr>, c))" for w c
    by (simp add: IncOpsSeen_def)
qed (auto simp: Let_def incrementOpsSeen_frame [OF assms] split: if_splits)

lemma check_status_op_module:
  assumes "badger_ok B"
  shows "op_module B (CheckStatus L B clk)"
proof (rule db_op_module)
  show "CheckStatus L B clk (w, c) = (let (e, d) = db_Update B (\<lambda>txn. let pm = GetPaymaster (UserOp c) in
      if pm = 0 then Inr txn else bind_res (getStatus L B clk pm txn) (\<lambda>(status, txn).
         if status = Banned then Inl (GoError ''paymaster: is currently banned'') else Inr txn)) (mp_db w)
      in (e, w\<lparr>mp_db := d\<rparr>, c))" for w c
    by (simp add: CheckStatus_def)
qed (auto simp: Let_def bind_res_eq_Inr getStatus_frame [OF assms] split: if_splits)

lemma getCodeHashesKey_other: "prefix mempool_keyPrefix k \<Longrightarrow> k \<noteq> getCodeHashesKey L h"
  by (auto simp: getCodeHashesKey_def codeHashesPrefix_def JoinValues_def mempool_keyPrefix_def)

lemma saveCodeHashes_frame:
  assumes "badger_ok B" "saveCodeHashes L B h ch d = (e, d')" "prefix mempool_keyPrefix k"
  shows "txn_Get B d' k = txn_Get B d k"
proof (cases e)
  case None
  then obtain v where "txn_Set B d (getCodeHashesKey L h) v = Inr d'"
    using assms(2) by (auto simp: saveCodeHashes_def db_Update_None)
  from badger_okD(2) [OF assms(1) this getCodeHashesKey_other [OF assms(3)]] show ?thesis .
next
  case (Some err)
  with assms(2) show ?thesis by (auto simp: saveCodeHashes_def dest: db_Update_Some)
qed

lemma simulate_op_module:
  assumes "badger_ok B"
  shows "op_module B (SimulateOp L B N pick titles now s)"
proof
  fix w :: "('a, 'b, 'c) mempool_scheme" and c e w' c'
  assume h: "SimulateOp L B N pick titles now s (w, c) = (e, w', c')"
  then show "UserOp c' = UserOp c" by (auto simp: SimulateOp_def Let_def split: if_splits prod.splits)
  obtain e2 d where t: "trace_part L B N titles s c (mp_db w) = (e2, d)" by fastforce
  show "pool_same B w w'"
  proof (cases "HasIntent L (UserOp c)")
    case True
    with h show ?thesis by (simp add: SimulateOp_def)
  next
    case False
    with h t have "w' = w\<lparr>mp_db := d\<rparr>" by (simp add: SimulateOp_def)
    moreover have "txn_Get B d k = txn_Get B (mp_db w) k" if "prefix mempool_keyPrefix k" for k
      using t saveCodeHashes_frame [OF assms _ that] by (simp add: trace_part_def split: sum.splits)
    ultimately show ?thesis by (simp add: pool_same_db)
  qed
qed

subsection \<open>Sending an operation\<close>

lemma GetOps_inv:
  assumes "pool_inv L B S nodes m"
  shows "pool_inv L B S nodes (snd (GetOps S m ep a))" "pool_look L nodes (snd (GetOps S m ep a)) = pool_look L nodes m"
  using assms lookup_queries(2) [OF pool_invD(3) [OF assms], of L "mp_queue m" ep a]
    queue_ok_queries(2) [OF pool_invD(3,4) [OF assms], of ep a]
  by (auto simp: GetOps_def pool_look_def pool_inv_def split: prod.splits)

lemma SendUserOperation_cases:
  assumes "SendUserOperation L B S cl data ep w = (r, w')"
  obtains (rejected) err where "r = Inl err" "w' = w"
  | (handler_error) epAddr op err c where "r = Inl err" "parseEntryPointAddress L cl ep = Inr epAddr" "New_userop L data = Inr op"
      "cl_userOpHandler cl (snd (GetOps S w epAddr (Sender op)), NewUserOpHandlerContext op (fst (GetOps S w epAddr (Sender op))) epAddr (cl_chainID cl))
        = (Some err, w', c)"
  | (add_op) epAddr op w1 c e where "parseEntryPointAddress L cl ep = Inr epAddr" "New_userop L data = Inr op"
      "cl_userOpHandler cl (snd (GetOps S w epAddr (Sender op)), NewUserOpHandlerContext op (fst (GetOps S w epAddr (Sender op))) epAddr (cl_chainID cl))
        = (None, w1, c)"
      "AddOp L B S epAddr (UserOp c) w1 = (e, w')"
      "r = (case e of Some err \<Rightarrow> Inl err | None \<Rightarrow> Inr (HashString L (GetUserOpHash L op epAddr (cl_chainID cl))))"
proof (cases "parseEntryPointAddress L cl ep")
  case (Inl err)
  with assms show thesis by (intro rejected [of err]) (simp_all add: SendUserOperation_def)
next
  case ep: (Inr epAddr)
  show thesis
  proof (cases "New_userop L data")
    case (Inl err)
    with ep assms show thesis by (intro rejected [of err]) (simp_all add: SendUserOperation_def)
  next
    case op: (Inr op)
    obtain pend w0 where get: "GetOps S w epAddr (Sender op) = (pend, w0)" by fastforce
    obtain e1 w1 c where h: "cl_userOpHandler cl (w0, NewUserOpHandlerContext op pend epAddr (cl_chainID cl)) = (e1, w1, c)"
      by (metis prod_cases3)
    show thesis
    proof (cases e1)
      case (Some err)
      with ep op get h assms show thesis by (intro handler_error [of err epAddr op c]) (simp_all add: SendUserOperation_def)
    next
      case None
      obtain e w2 where add: "AddOp L B S epAddr (UserOp c) w1 = (e, w2)" by fastforce
      from ep op get h None add assms show thesis
        by (intro add_op [of epAddr op w1 c e]) (auto simp: SendUserOperation_def split: option.splits)
    qed
  qed
qed

lemma SendUserOperation_result:
  assumes "pool_inv L B S nodes w" "op_module B (cl_userOpHandler cl)" "SendUserOperation L B S cl data ep w = (r, w')"
  shows "pool_inv L B S nodes w' \<and>
    (case r of
       Inl err \<Rightarrow> pool_look L nodes w' = pool_look L nodes w
     | Inr h \<Rightarrow> (\<exists>epAddr op pend v v' c.
         parseEntryPointAddress L cl ep = Inr epAddr \<and> New_userop L data = Inr op \<and>
         set pend = {x \<in> set (fst (Dump S epAddr w)). Sender x = Sender op} \<and>
         cl_userOpHandler cl (v, NewUserOpHandlerContext op pend epAddr (cl_chainID cl)) = (None, v', c) \<and>
         h = HashString L (GetUserOpHash L op epAddr (cl_chainID cl)) \<and>
         pool_look L nodes w' = map_add_op epAddr op (pool_look L nodes w) \<and> op \<in> set (fst (Dump S epAddr w'))))"
  using assms(3)
proof (cases rule: SendUserOperation_cases)
  case (rejected err)
  with assms(1) show ?thesis by simp
next
  case (handler_error epAddr op err c)
  from op_module.handler_pool_inv [OF assms(2) handler_error(4) GetOps_inv(1) [OF assms(1)]] GetOps_inv(2) [OF assms(1)]
  show ?thesis by (simp add: handler_error(1))
next
  case (add_op epAddr op w1 c e)
  note w1 = op_module.handler_pool_inv [OF assms(2) add_op(3) GetOps_inv(1) [OF assms(1)]] GetOps_inv(2) [OF assms(1)]
  have op: "UserOp c = op" using op_module.keeps_op [OF assms(2) add_op(3)] by (simp add: NewUserOpHandlerContext_def)
  have wf: "wf_op op" by (rule New_userop_wf [OF add_op(2)])
  have inv: "pool_inv L B S nodes w'" using pool.add_inv [OF w1(1) wf, of epAddr] add_op(4) op by simp
  have look: "pool_look L nodes w' = (if e = None then map_add_op epAddr op (pool_look L nodes w) else pool_look L nodes w)"
    using pool.add_look [OF w1(1), of epAddr op] add_op(4) op w1(2,3) by simp
  show ?thesis
  proof (cases e)
    case (Some err)
    with inv look add_op(5) show ?thesis by simp
  next
    case None
    have "op \<in> set (fst (Dump S epAddr w'))"
      using look None by (simp add: pool.dump_set [OF inv] map_add_op_def)
    with inv look None add_op GetOps_set [OF assms(1), of epAddr "Sender op"] show ?thesis
      by (simp add: exI [where x = "fst (GetOps S w epAddr (Sender op))"]) blast
  qed
qed

text \<open>
  C38: \<open>SendUserOperation\<close> keeps queues and database of the pool in agreement, with modules that neither
  change the operation nor the pool. An error leaves the contents of the pool as they were. On success
  the modules accepted the parsed operation together with the pooled operations of its sender, the
  pool is the old one with the operation added, and the result is the hash of the operation.
\<close>

theorem SendUserOperation_pool:
  assumes "pool_inv L B S nodes w" "op_module B (cl_userOpHandler cl)" "SendUserOperation L B S cl data ep w = (r, w')"
  shows "pool_inv L B S nodes w' \<and>
    (case r of
       Inl err \<Rightarrow> pool_look L nodes w' = pool_look L nodes w
     | Inr h \<Rightarrow> (\<exists>epAddr op pend v v' c.
         parseEntryPointAddress L cl ep = Inr epAddr \<and> New_userop L data = Inr op \<and>
         set pend = {x \<in> set (fst (Dump S epAddr w)). Sender x = Sender op} \<and>
         cl_userOpHandler cl (v, NewUserOpHandlerContext op pend epAddr (cl_chainID cl)) = (None, v', c) \<and>
         h = HashString L (GetUserOpHash L op epAddr (cl_chainID cl)) \<and>
         pool_look L nodes w' = map_add_op epAddr op (pool_look L nodes w) \<and> op \<in> set (fst (Dump S epAddr w'))))"
  by (rule SendUserOperation_result [OF assms])

definition sample_client :: "(((string \<times> db_value) list, user_op node list) mempool, unit) client" where
  "sample_client = New_client NewDefaultOverhead 1 [HexToAddress userop_ref ''0x9'']"

lemma badger_ref_add: "AddOp L badger_ref S ep op w \<noteq> (Some e, w')"
  using badger_ref_never_fails(1) [of L S ep op w] by auto

theorem SendUserOperation_pool_witness:
  "\<exists>h w'. SendUserOperation userop_ref badger_ref sortedset_ref sample_client (ToMap userop_ref (sample_op 5 3)) ''0x9''
      (pool_with userop_ref []) = (Inr h, w') \<and>
    (\<exists>ep. sample_op 5 3 \<in> set (fst (Dump sortedset_ref ep w')))"
proof -
  let ?w = "pool_with userop_ref []"
  have inv: "pool_inv userop_ref badger_ref sortedset_ref ss_nodes ?w"
    by (rule pool_with_inv [OF userop_ref_ok]) simp
  have handler: "cl_userOpHandler sample_client = noop_UserOpHandler" by (simp add: sample_client_def New_client_def)
  have op: "New_userop userop_ref (ToMap userop_ref (sample_op 5 3)) = Inr (sample_op 5 3)"
    by (rule New_userop_ToMap [OF userop_ref_ok]) (simp add: sample_op_wf)
  have ep: "parseEntryPointAddress userop_ref sample_client ''0x9'' = Inr (HexToAddress userop_ref ''0x9'')"
    by (simp add: parseEntryPointAddress_def sample_client_def New_client_def)
  obtain r w' where send: "SendUserOperation userop_ref badger_ref sortedset_ref sample_client
      (ToMap userop_ref (sample_op 5 3)) ''0x9'' ?w = (r, w')" by fastforce
  then obtain h where h: "r = Inr h"
    by (auto simp: SendUserOperation_def ep op handler noop_UserOpHandler_def Let_def badger_ref_add split: prod.splits option.splits)
  have m: "op_module badger_ref (cl_userOpHandler sample_client)" unfolding handler by (rule noop_op.op_module_axioms)
  from SendUserOperation_pool [OF inv m send] send h op show ?thesis by auto
qed

end
