(* ===== verification/Bundler_Loop.thy ===== *)
theory Bundler_Loop
  imports Bundler
begin

text \<open>
  \<open>Run\<close> and \<open>Stop\<close> of \<open>pkg/bundler\<close>: the loop that processes a batch per EntryPoint every second. The
  loop, its ticker and the callers of \<open>Run\<close> and \<open>Stop\<close> are the step relation \<open>bundler_step\<close>. A run of
  \<open>Process\<close> is a sequence of steps (taking the batch, one module after the other, removing what is
  done), and additions by the client come between any two of them.
\<close>

subsection \<open>One step of a busy loop\<close>

text \<open>
  A loop has its ticker and, while it works, the EntryPoints it has still to process; while it is inside
  \<open>Process\<close> for the first of them, the context and the modules that have not run yet are its \<open>lp_job\<close>.
\<close>

record 'w job =
  job_ctx :: batch_ctx
  job_modules :: "'w batch_run list"

record 'w loop =
  lp_ticker :: nat
  lp_todo :: "address list option"
  lp_job :: "'w job option"

definition work_step :: "'y userop_lib_scheme \<Rightarrow> 'd badger \<Rightarrow> 's sset \<Rightarrow> ('d, 's, 'x) mempool_scheme bundler \<Rightarrow> nat \<Rightarrow>
    ('d, 's, 'x) mempool_scheme loop \<Rightarrow> ('d, 's, 'x) mempool_scheme \<Rightarrow>
    (go_error option \<times> ('d, 's, 'x) mempool_scheme loop \<times> ('d, 's, 'x) mempool_scheme) option" where
  "work_step L B S b n l w =
     (case lp_todo l of
        Some (ep # eps) \<Rightarrow>
          (case lp_job l of
             None \<Rightarrow>
               (case take_batch S b n ep w of
                  (Inl err, w) \<Rightarrow> Some (Some err, l\<lparr>lp_todo := Some eps\<rparr>, w)
                | (Inr None, w) \<Rightarrow> Some (None, l\<lparr>lp_todo := Some eps\<rparr>, w)
                | (Inr (Some c), w) \<Rightarrow>
                    Some (None, l\<lparr>lp_job := Some \<lparr>job_ctx = c, job_modules = map (\<lambda>h. h n) (bu_modules b)\<rparr>\<rparr>, w))
           | Some j \<Rightarrow>
               (case job_modules j of
                  [] \<Rightarrow>
                    (case finish_batch L B S ep (job_ctx j) w of
                       (r, w) \<Rightarrow> Some (case r of Inl err \<Rightarrow> Some err | _ \<Rightarrow> None, l\<lparr>lp_todo := Some eps, lp_job := None\<rparr>, w))
                | h # hs \<Rightarrow>
                    (case h (w, job_ctx j) of
                       None \<Rightarrow> None
                     | Some (Some err, w, c) \<Rightarrow> Some (Some err, l\<lparr>lp_todo := Some eps, lp_job := None\<rparr>, w)
                     | Some (None, w, c) \<Rightarrow> Some (None, l\<lparr>lp_job := Some \<lparr>job_ctx = c, job_modules = hs\<rparr>\<rparr>, w))))
      | _ \<Rightarrow> None)"

subsection \<open>Run and Stop\<close>

text \<open>
  A caller of \<open>Run\<close> that has read \<open>isRunning\<close> as false is in \<open>rs_starting\<close> until it has started its loop;
  a caller of \<open>Stop\<close> is in \<open>rs_stopping\<close> until a loop has received its message. \<open>rs_live\<close> are the tickers
  that have not been stopped. A panic in a loop ends the program.
\<close>

record 'w run_state =
  rs_world :: 'w
  rs_isRunning :: bool
  rs_stop :: "nat option"
  rs_live :: "nat set"
  rs_tickers :: nat
  rs_loops :: "'w loop list"
  rs_starting :: nat
  rs_stopping :: nat
  rs_runs :: nat
  rs_crashed :: bool

definition init_run :: "'w \<Rightarrow> 'w run_state" where
  "init_run w = \<lparr>rs_world = w, rs_isRunning = False, rs_stop = None, rs_live = {}, rs_tickers = 0, rs_loops = [],
     rs_starting = 0, rs_stopping = 0, rs_runs = 0, rs_crashed = False\<rparr>"

definition Run_check :: "'w run_state \<Rightarrow> 'w run_state" where
  "Run_check s = (if rs_isRunning s then s else s\<lparr>rs_starting := rs_starting s + 1\<rparr>)"

definition Run_start :: "'w run_state \<Rightarrow> 'w run_state" where
  "Run_start s = s\<lparr>rs_starting := rs_starting s - 1, rs_tickers := rs_tickers s + 1,
     rs_live := insert (rs_tickers s) (rs_live s),
     rs_loops := rs_loops s @ [\<lparr>lp_ticker = rs_tickers s, lp_todo = None, lp_job = None\<rparr>],
     rs_isRunning := True, rs_stop := Some (rs_tickers s)\<rparr>"

definition Stop_begin :: "'w run_state \<Rightarrow> 'w run_state" where
  "Stop_begin s = (if \<not> rs_isRunning s then s
     else s\<lparr>rs_isRunning := False, rs_live := rs_live s - set_option (rs_stop s), rs_stopping := rs_stopping s + 1\<rparr>)"

definition set_loop :: "nat \<Rightarrow> 'w loop \<Rightarrow> 'w run_state \<Rightarrow> 'w run_state" where
  "set_loop i l s = s\<lparr>rs_loops := (rs_loops s)[i := l]\<rparr>"

text \<open>
  With \<open>serial\<close> a call of \<open>Run\<close> or \<open>Stop\<close> begins only when no other is under way. The client adds
  operations at any time.
\<close>

inductive bundler_step :: "'y userop_lib_scheme \<Rightarrow> 'd badger \<Rightarrow> 's sset \<Rightarrow> ('d, 's, 'x) mempool_scheme bundler \<Rightarrow> bool \<Rightarrow>
    ('d, 's, 'x) mempool_scheme run_state \<Rightarrow> ('d, 's, 'x) mempool_scheme run_state \<Rightarrow> bool"
  for L B S b serial where
  run_check: "\<not> rs_crashed s \<Longrightarrow> serial \<longrightarrow> rs_starting s = 0 \<and> rs_stopping s = 0 \<Longrightarrow>
    bundler_step L B S b serial s (Run_check s)"
| run_start: "\<not> rs_crashed s \<Longrightarrow> rs_starting s > 0 \<Longrightarrow> bundler_step L B S b serial s (Run_start s)"
| stop_begin: "\<not> rs_crashed s \<Longrightarrow> serial \<longrightarrow> rs_starting s = 0 \<and> rs_stopping s = 0 \<Longrightarrow>
    bundler_step L B S b serial s (Stop_begin s)"
| stop_done: "\<not> rs_crashed s \<Longrightarrow> rs_stopping s > 0 \<Longrightarrow> i < length (rs_loops s) \<Longrightarrow> lp_todo (rs_loops s ! i) = None \<Longrightarrow>
    bundler_step L B S b serial s (s\<lparr>rs_stopping := rs_stopping s - 1, rs_loops := remove_nth i (rs_loops s)\<rparr>)"
| tick: "\<not> rs_crashed s \<Longrightarrow> i < length (rs_loops s) \<Longrightarrow> lp_todo (rs_loops s ! i) = None \<Longrightarrow>
    lp_ticker (rs_loops s ! i) \<in> rs_live s \<Longrightarrow>
    bundler_step L B S b serial s (set_loop i ((rs_loops s ! i)\<lparr>lp_todo := Some (bu_supportedEntryPoints b)\<rparr>) s)"
| work: "\<not> rs_crashed s \<Longrightarrow> i < length (rs_loops s) \<Longrightarrow>
    work_step L B S b (rs_runs s) (rs_loops s ! i) (rs_world s) = Some (e, l, w') \<Longrightarrow> (\<nexists>p. e = Some (Panicked p)) \<Longrightarrow>
    bundler_step L B S b serial s (set_loop i l (s\<lparr>rs_world := w', rs_runs := rs_runs s + 1\<rparr>))"
| crash: "\<not> rs_crashed s \<Longrightarrow> i < length (rs_loops s) \<Longrightarrow>
    work_step L B S b (rs_runs s) (rs_loops s ! i) (rs_world s) = Some (Some (Panicked p), l, w') \<Longrightarrow>
    bundler_step L B S b serial s (s\<lparr>rs_world := w', rs_crashed := True\<rparr>)"
| rest: "\<not> rs_crashed s \<Longrightarrow> i < length (rs_loops s) \<Longrightarrow> lp_todo (rs_loops s ! i) = Some [] \<Longrightarrow>
    bundler_step L B S b serial s (set_loop i ((rs_loops s ! i)\<lparr>lp_todo := None\<rparr>) s)"
| client_add: "\<not> rs_crashed s \<Longrightarrow> wf_op op \<Longrightarrow>
    bundler_step L B S b serial s (s\<lparr>rs_world := snd (AddOp L B S ep op (rs_world s))\<rparr>)"

subsection \<open>The steps of a run\<close>

definition modules_ok :: "'d badger \<Rightarrow> ('d, 's, 'x) mempool_scheme bundler \<Rightarrow> bool" where
  "modules_ok B b \<longleftrightarrow> (\<forall>h \<in> set (bu_modules b). \<forall>n. batch_runner B (h n))"

lemma modules_ok_handler: "modules_ok B b \<Longrightarrow> batch_runner B (bu_batchHandler b n)"
  by (auto simp: modules_ok_def bu_batchHandler_def intro!: compose_batch_runner)

definition busy_ok :: "'d badger \<Rightarrow> ('d, 's, 'x) mempool_scheme loop \<Rightarrow> bool" where
  "busy_ok B l \<longleftrightarrow> (\<forall>j. lp_job l = Some j \<longrightarrow> (\<forall>h \<in> set (job_modules j). batch_runner B h))"

lemma work_step_cases:
  assumes "work_step L B S b n l w = Some (e, l', w')"
  obtains (taken) ep eps c where "lp_todo l = Some (ep # eps)" "lp_job l = None"
      "take_batch S b n ep w = (Inr (Some c), w')" "e = None"
      "l' = l\<lparr>lp_job := Some \<lparr>job_ctx = c, job_modules = map (\<lambda>h. h n) (bu_modules b)\<rparr>\<rparr>"
  | (skipped) ep eps r where "lp_todo l = Some (ep # eps)" "lp_job l = None"
      "take_batch S b n ep w = (r, w')" "l' = l\<lparr>lp_todo := Some eps\<rparr>"
  | (ran) ep eps j h hs c where "lp_todo l = Some (ep # eps)" "lp_job l = Some j" "job_modules j = h # hs"
      "h (w, job_ctx j) = Some (None, w', c)" "e = None" "l' = l\<lparr>lp_job := Some \<lparr>job_ctx = c, job_modules = hs\<rparr>\<rparr>"
  | (failed) ep eps j h hs c err where "lp_todo l = Some (ep # eps)" "lp_job l = Some j" "job_modules j = h # hs"
      "h (w, job_ctx j) = Some (Some err, w', c)" "e = Some err" "l' = l\<lparr>lp_todo := Some eps, lp_job := None\<rparr>"
  | (finished) ep eps j r where "lp_todo l = Some (ep # eps)" "lp_job l = Some j" "job_modules j = []"
      "finish_batch L B S ep (job_ctx j) w = (r, w')" "e = (case r of Inl err \<Rightarrow> Some err | _ \<Rightarrow> None)"
      "l' = l\<lparr>lp_todo := Some eps, lp_job := None\<rparr>"
  using assms
  by (auto simp: work_step_def split: option.splits list.splits prod.splits sum.splits)

lemma finish_batch_world: "finish_batch L B S ep c w = (r, w') \<Longrightarrow> w' = snd (RemoveOps L B S ep (remaining_ops L c) w)"
  by (auto simp: finish_batch_def split: prod.splits option.splits)

lemma work_step_ticker: "work_step L B S b n l w = Some (e, l', w') \<Longrightarrow> lp_ticker l' = lp_ticker l"
  by (erule work_step_cases) auto

lemma work_step_busy:
  assumes "work_step L B S b n l w = Some (e, l', w')" "modules_ok B b" "busy_ok B l"
  shows "busy_ok B l'"
  using assms(1) by (cases rule: work_step_cases) (use assms(2,3) in \<open>auto simp: busy_ok_def modules_ok_def\<close>)

lemma work_step_world:
  assumes "work_step L B S b n l w = Some (e, l', w')" "busy_ok B l" "pool_inv L B S nodes w"
  shows "pool_inv L B S nodes w'"
  using assms(1)
proof (cases rule: work_step_cases)
  case (taken ep eps c)
  show ?thesis unfolding take_batch_result(1) [OF taken(3)] by (rule pool.dump_inv [OF assms(3)])
next
  case (skipped ep eps r)
  show ?thesis unfolding take_batch_result(1) [OF skipped(3)] by (rule pool.dump_inv [OF assms(3)])
next
  case (ran ep eps j h hs c)
  with assms(2) have "batch_runner B h" by (simp add: busy_ok_def)
  from batch_runner.run_pool_inv(1) [OF this ran(4) assms(3)] show ?thesis .
next
  case (failed ep eps j h hs c err)
  with assms(2) have "batch_runner B h" by (simp add: busy_ok_def)
  from batch_runner.run_pool_inv(1) [OF this failed(4) assms(3)] show ?thesis .
next
  case (finished ep eps j r)
  show ?thesis unfolding finish_batch_world [OF finished(4)] by (rule pool.remove_inv [OF assms(3)])
qed

subsection \<open>The loop\<close>

definition one_loop :: "'w run_state \<Rightarrow> bool" where
  "one_loop s \<longleftrightarrow>
     (if rs_isRunning s then rs_starting s = 0 \<and> rs_stopping s = 0 \<and>
        (\<exists>l. rs_loops s = [l] \<and> rs_stop s = Some (lp_ticker l) \<and> rs_live s = {lp_ticker l})
      else rs_live s = {} \<and> length (rs_loops s) = rs_stopping s \<and> rs_starting s + rs_stopping s \<le> 1)"

text \<open>What every step keeps, whoever calls: the pool's invariant and the modules that are still to run.\<close>

definition run_inv :: "'y userop_lib_scheme \<Rightarrow> 'd badger \<Rightarrow> 's sset \<Rightarrow> ('s \<Rightarrow> user_op node list) \<Rightarrow>
    ('d, 's, 'x) mempool_scheme run_state \<Rightarrow> bool" where
  "run_inv L B S nodes s \<longleftrightarrow> pool_inv L B S nodes (rs_world s) \<and> (\<forall>l \<in> set (rs_loops s). busy_ok B l)"

lemma run_inv_init: "pool_inv L B S nodes w \<Longrightarrow> run_inv L B S nodes (init_run w)"
  by (simp add: run_inv_def init_run_def)

lemma run_inv_world: "run_inv L B S nodes s \<Longrightarrow> pool_inv L B S nodes (rs_world s)"
  by (simp add: run_inv_def)

lemma run_inv_set_world: "run_inv L B S nodes s \<Longrightarrow> pool_inv L B S nodes w \<Longrightarrow> run_inv L B S nodes (s\<lparr>rs_world := w\<rparr>)"
  by (simp add: run_inv_def)

lemma run_inv_set_runs: "run_inv L B S nodes s \<Longrightarrow> pool_inv L B S nodes w \<Longrightarrow> run_inv L B S nodes (s\<lparr>rs_world := w, rs_runs := n\<rparr>)"
  by (simp add: run_inv_def)

lemma run_inv_callers:
  assumes "run_inv L B S nodes s"
  shows "run_inv L B S nodes (Run_check s)" "run_inv L B S nodes (Run_start s)" "run_inv L B S nodes (Stop_begin s)"
  using assms by (auto simp: run_inv_def busy_ok_def Run_check_def Run_start_def Stop_begin_def)

lemma run_inv_loop:
  assumes "run_inv L B S nodes s" "busy_ok B l"
  shows "run_inv L B S nodes (set_loop i l s)"
  using assms set_update_subset_insert [of "rs_loops s" i l] by (fastforce simp: run_inv_def set_loop_def)

lemma run_inv_step:
  assumes "bundler_step L B S b serial s s'" "run_inv L B S nodes s" "modules_ok B b"
  shows "run_inv L B S nodes s'"
  using assms(1)
proof cases
  case (stop_done i)
  have "set (remove_nth i (rs_loops s)) \<subseteq> set (rs_loops s)"
    by (auto simp: remove_nth_def dest: in_set_takeD in_set_dropD)
  with assms(2) show ?thesis unfolding stop_done(1) by (auto simp: run_inv_def)
next
  case (tick i)
  have "busy_ok B (rs_loops s ! i)" using assms(2) tick(3) by (simp add: run_inv_def)
  then have "busy_ok B ((rs_loops s ! i)\<lparr>lp_todo := Some (bu_supportedEntryPoints b)\<rparr>)" by (simp add: busy_ok_def)
  from run_inv_loop [OF assms(2) this] show ?thesis unfolding tick(1) .
next
  case (rest i)
  have "busy_ok B (rs_loops s ! i)" using assms(2) rest(3) by (simp add: run_inv_def)
  then have "busy_ok B ((rs_loops s ! i)\<lparr>lp_todo := None\<rparr>)" by (simp add: busy_ok_def)
  from run_inv_loop [OF assms(2) this] show ?thesis unfolding rest(1) .
next
  case (work i e l w')
  have "busy_ok B (rs_loops s ! i)" using assms(2) work(3) by (simp add: run_inv_def)
  note ok = work_step_busy [OF work(4) assms(3) this] work_step_world [OF work(4) this run_inv_world [OF assms(2)]]
  have "run_inv L B S nodes (s\<lparr>rs_world := w', rs_runs := rs_runs s + 1\<rparr>)"
    using assms(2) ok(2) by (simp add: run_inv_def)
  from run_inv_loop [OF this ok(1)] show ?thesis unfolding work(1) .
next
  case (crash i p l w')
  have "busy_ok B (rs_loops s ! i)" using assms(2) crash(3) by (simp add: run_inv_def)
  from work_step_world [OF crash(4) this run_inv_world [OF assms(2)]] assms(2) show ?thesis by (simp add: crash(1) run_inv_def)
next
  case (client_add op ep)
  from pool.add_inv [OF run_inv_world [OF assms(2)] client_add(3)] run_inv_set_world [OF assms(2)]
  show ?thesis by (simp add: client_add(1))
qed (use run_inv_callers [OF assms(2)] in simp_all)

lemma run_inv_steps:
  assumes "(bundler_step L B S b serial)\<^sup>*\<^sup>* s s'" "run_inv L B S nodes s" "modules_ok B b"
  shows "run_inv L B S nodes s'"
  using assms(1,2) by (induction rule: rtranclp_induct) (auto intro: run_inv_step [OF _ _ assms(3)])

lemma one_loop_world: "one_loop (s\<lparr>rs_world := w\<rparr>) \<longleftrightarrow> one_loop s"
  "one_loop (s\<lparr>rs_world := w, rs_runs := n\<rparr>) \<longleftrightarrow> one_loop s"
  "one_loop (s\<lparr>rs_world := w, rs_crashed := d\<rparr>) \<longleftrightarrow> one_loop s"
  by (simp_all add: one_loop_def)

lemma one_loop_set: "one_loop s \<Longrightarrow> lp_ticker l = lp_ticker (rs_loops s ! i) \<Longrightarrow> one_loop (set_loop i l s)"
  by (cases i) (auto simp: one_loop_def set_loop_def)

lemma one_loop_step:
  assumes "bundler_step L B S b True s s'" "one_loop s"
  shows "one_loop s'"
  using assms
proof (cases rule: bundler_step.cases)
  case run_check
  with assms(2) show ?thesis by (auto simp: one_loop_def Run_check_def)
next
  case run_start
  have "\<not> rs_isRunning s" "rs_starting s = 1" "rs_stopping s = 0"
    using run_start assms(2) by (auto simp: one_loop_def split: if_splits)
  with run_start assms(2) show ?thesis by (simp add: one_loop_def Run_start_def)
next
  case stop_begin
  with assms(2) show ?thesis by (auto simp: one_loop_def Stop_begin_def)
next
  case (stop_done i)
  with assms(2) show ?thesis by (auto simp: one_loop_def length_remove_nth split: if_splits)
next
  case (work i e l w')
  have "one_loop (s\<lparr>rs_world := w', rs_runs := rs_runs s + 1\<rparr>)" using assms(2) by (simp add: one_loop_world)
  from one_loop_set [OF this, of l i] work_step_ticker [OF work(4)] show ?thesis by (simp add: work(1))
qed (simp_all add: one_loop_world one_loop_set)

lemma set_loop_fields [simp]: "rs_world (set_loop i l s) = rs_world s" "rs_crashed (set_loop i l s) = rs_crashed s"
  "rs_runs (set_loop i l s) = rs_runs s" "rs_loops (set_loop i l s) = (rs_loops s)[i := l]"
  by (simp_all add: set_loop_def)


subsection \<open>Steps and runs\<close>

lemma module_step:
  assumes "\<not> rs_crashed s" "i < length (rs_loops s)" "lp_todo (rs_loops s ! i) = Some (ep # eps)"
    and "lp_job (rs_loops s ! i) = Some j" "job_modules j = h # hs" "h (rs_world s, job_ctx j) = Some (None, w1, c1)"
  shows "bundler_step L B S b serial s (set_loop i ((rs_loops s ! i)\<lparr>lp_job := Some \<lparr>job_ctx = c1, job_modules = hs\<rparr>\<rparr>)
    (s\<lparr>rs_world := w1, rs_runs := rs_runs s + 1\<rparr>))"
  by (rule bundler_step.work [where e = None]) (use assms in \<open>simp_all add: work_step_def\<close>)

text \<open>The modules of a run, one after the other with nothing in between.\<close>

lemma modules_steps:
  assumes "\<not> rs_crashed s" "i < length (rs_loops s)" "rs_loops s ! i = l" "lp_todo l = Some (ep # eps)" "lp_job l = Some j"
    and "compose_runs (job_modules j) (rs_world s, job_ctx j) = Some (e, w2, c2)" "\<nexists>p. e = Some (Panicked p)"
  shows "\<exists>n. (bundler_step L B S b serial)\<^sup>*\<^sup>* s (set_loop i
    (case e of None \<Rightarrow> l\<lparr>lp_job := Some \<lparr>job_ctx = c2, job_modules = []\<rparr>\<rparr> | Some err \<Rightarrow> l\<lparr>lp_todo := Some eps, lp_job := None\<rparr>)
    (s\<lparr>rs_world := w2, rs_runs := n\<rparr>))"
  using assms
proof (induction "job_modules j" arbitrary: s l j)
  case Nil
  obtain c where j: "j = \<lparr>job_ctx = c, job_modules = []\<rparr>" using Nil.hyps by (cases j) simp
  have "l\<lparr>lp_job := Some \<lparr>job_ctx = c2, job_modules = []\<rparr>\<rparr> = l" "e = None" "w2 = rs_world s"
    using Nil.prems(5,6) j by (cases l; simp)+
  then have "set_loop i (case e of None \<Rightarrow> l\<lparr>lp_job := Some \<lparr>job_ctx = c2, job_modules = []\<rparr>\<rparr> | Some err \<Rightarrow> l\<lparr>lp_todo := Some eps, lp_job := None\<rparr>)
      (s\<lparr>rs_world := w2, rs_runs := rs_runs s\<rparr>) = s"
    using Nil.prems(3) by (simp add: set_loop_def list_update_same_conv [THEN iffD2, OF Nil.prems(2)])
  then show ?case by (metis rtranclp.rtrancl_refl)
next
  case (Cons h hs)
  obtain e1 w1 c1 where h: "h (rs_world s, job_ctx j) = Some (e1, w1, c1)"
    using Cons.prems(6) unfolding Cons.hyps(2) [symmetric] by (auto split: option.splits)
  show ?case
  proof (cases e1)
    case None
    let ?l = "l\<lparr>lp_job := Some \<lparr>job_ctx = c1, job_modules = hs\<rparr>\<rparr>"
    let ?s = "set_loop i ?l (s\<lparr>rs_world := w1, rs_runs := rs_runs s + 1\<rparr>)"
    have step: "bundler_step L B S b serial s ?s"
      using module_step [OF Cons.prems(1,2), of ep eps j h hs w1 c1] Cons.prems(3-5) Cons.hyps(2) h None by simp
    have run: "compose_runs hs (w1, c1) = Some (e, w2, c2)"
      using Cons.prems(6) h None unfolding Cons.hyps(2) [symmetric] by simp
    let ?last = "\<lambda>l s n. set_loop i
        (case e of None \<Rightarrow> l\<lparr>lp_job := Some \<lparr>job_ctx = c2, job_modules = []\<rparr>\<rparr> | Some err \<Rightarrow> l\<lparr>lp_todo := Some eps, lp_job := None\<rparr>)
        (s\<lparr>rs_world := w2, rs_runs := n\<rparr>)"
    have "\<exists>n. (bundler_step L B S b serial)\<^sup>*\<^sup>* ?s (?last ?l ?s n)"
      by (rule Cons.hyps(1) [of "\<lparr>job_ctx = c1, job_modules = hs\<rparr>"])
        (use Cons.prems run in \<open>simp_all add: nth_list_update\<close>)
    then obtain n where steps: "(bundler_step L B S b serial)\<^sup>*\<^sup>* ?s (?last ?l ?s n)" by blast
    have "?last ?l ?s n = ?last l s n" by (cases e) (simp_all add: set_loop_def)
    with converse_rtranclp_into_rtranclp [OF step steps] show ?thesis by (intro exI [of _ n]) simp
  next
    case (Some err)
    then have e: "e = Some err" "w2 = w1"
      using Cons.prems(6) h unfolding Cons.hyps(2) [symmetric] by simp_all
    have "bundler_step L B S b serial s (set_loop i (l\<lparr>lp_todo := Some eps, lp_job := None\<rparr>)
        (s\<lparr>rs_world := w2, rs_runs := rs_runs s + 1\<rparr>))"
      by (rule bundler_step.work [where e = "Some err"])
        (use Cons.prems Cons.hyps(2) [symmetric] h Some e in \<open>simp_all add: work_step_def\<close>)
    then show ?thesis unfolding e(1) option.case by (intro exI [of _ "rs_runs s + 1"] r_into_rtranclp)
  qed
qed

lemma finish_step:
  assumes "\<not> rs_crashed s" "i < length (rs_loops s)" "rs_loops s ! i = l" "lp_todo l = Some (ep # eps)"
    and "lp_job l = Some \<lparr>job_ctx = c, job_modules = []\<rparr>" "finish_batch L B S ep c (rs_world s) = (r, w')"
    and "\<nexists>p. r = Inl (Panicked p)"
  shows "bundler_step L B S b serial s (set_loop i (l\<lparr>lp_todo := Some eps, lp_job := None\<rparr>)
    (s\<lparr>rs_world := w', rs_runs := rs_runs s + 1\<rparr>))"
proof (rule bundler_step.work)
  show "work_step L B S b (rs_runs s) (rs_loops s ! i) (rs_world s) =
      Some (case r of Inl err \<Rightarrow> Some err | _ \<Rightarrow> None, l\<lparr>lp_todo := Some eps, lp_job := None\<rparr>, w')"
    by (simp add: work_step_def assms(3-6))
  show "\<nexists>p. (case r of Inl err \<Rightarrow> Some err | _ \<Rightarrow> None) = Some (Panicked p)"
    using assms(7) by (cases r) simp_all
qed (use assms in simp_all)

lemma take_step:
  assumes "\<not> rs_crashed s" "i < length (rs_loops s)" "rs_loops s ! i = l" "lp_todo l = Some (ep # eps)" "lp_job l = None"
    and "take_batch S b (rs_runs s) ep (rs_world s) = (Inr (Some c), w')"
  shows "bundler_step L B S b serial s
    (set_loop i (l\<lparr>lp_job := Some \<lparr>job_ctx = c, job_modules = map (\<lambda>h. h (rs_runs s)) (bu_modules b)\<rparr>\<rparr>)
    (s\<lparr>rs_world := w', rs_runs := rs_runs s + 1\<rparr>))"
  by (rule bundler_step.work [where e = None]) (use assms in \<open>simp_all add: work_step_def\<close>)

lemma set_loop_again [simp]: "set_loop i l' ((set_loop i l s)\<lparr>rs_world := w, rs_runs := n\<rparr>) = set_loop i l' (s\<lparr>rs_world := w, rs_runs := n\<rparr>)"
  by (simp add: set_loop_def)


subsection \<open>Properties\<close>

text \<open>
  C32: a run of \<open>Process\<close> is a sequence of steps of the loop with nothing in between: when \<open>Process\<close>
  returns, the loop takes the batch, runs the modules and removes what is done, and ends in the world
  that \<open>Process\<close> returns, with the next EntryPoint to process, whether there was an error or not.
\<close>

theorem Process_steps:
  assumes "\<not> rs_crashed s" "i < length (rs_loops s)" "rs_loops s ! i = l" "lp_todo l = Some (ep # eps)" "lp_job l = None"
    and "Process L B S b (rs_runs s) ep (rs_world s) = Some (r, w')" "\<nexists>p. r = Inl (Panicked p)"
  shows "\<exists>n. (bundler_step L B S b serial)\<^sup>*\<^sup>* s (set_loop i (l\<lparr>lp_todo := Some eps\<rparr>) (s\<lparr>rs_world := w', rs_runs := n\<rparr>))"
proof -
  let ?job = "\<lambda>c hs. l\<lparr>lp_job := Some \<lparr>job_ctx = c, job_modules = hs\<rparr>\<rparr>"
  let ?hs = "map (\<lambda>h. h (rs_runs s)) (bu_modules b)"
  let ?t = "\<lambda>l w n. set_loop i l (s\<lparr>rs_world := w, rs_runs := n\<rparr>)"
  let ?w = "snd (Dump S ep (rs_world s))"
  have idle: "l\<lparr>lp_todo := Some eps, lp_job := None\<rparr> = l\<lparr>lp_todo := Some eps\<rparr>" using assms(5) by (cases l) simp
  have modules: "\<exists>n. (bundler_step L B S b serial)\<^sup>*\<^sup>* s
      (?t (case e of None \<Rightarrow> ?job c' [] | Some err \<Rightarrow> l\<lparr>lp_todo := Some eps\<rparr>) w2 n)"
    if take: "take_batch S b (rs_runs s) ep (rs_world s) = (Inr (Some c), ?w)"
      and h: "bu_batchHandler b (rs_runs s) (?w, c) = Some (e, w2, c')" "\<nexists>p. e = Some (Panicked p)" for c e w2 c'
  proof -
    let ?s1 = "?t (?job c ?hs) ?w (rs_runs s + 1)"
    have "\<exists>n. (bundler_step L B S b serial)\<^sup>*\<^sup>* ?s1 (set_loop i
        (case e of None \<Rightarrow> (?job c ?hs)\<lparr>lp_job := Some \<lparr>job_ctx = c', job_modules = []\<rparr>\<rparr>
         | Some err \<Rightarrow> (?job c ?hs)\<lparr>lp_todo := Some eps, lp_job := None\<rparr>) (?s1\<lparr>rs_world := w2, rs_runs := n\<rparr>))"
      by (rule modules_steps [where j = "\<lparr>job_ctx = c, job_modules = ?hs\<rparr>"])
        (use assms(1-4) h in \<open>simp_all add: bu_batchHandler_def\<close>)
    then obtain n where "(bundler_step L B S b serial)\<^sup>*\<^sup>* ?s1 (?t (case e of None \<Rightarrow> ?job c' [] | Some err \<Rightarrow> l\<lparr>lp_todo := Some eps\<rparr>) w2 n)"
      by (cases e) (auto simp: idle)
    with take_step [OF assms(1-5) take] show ?thesis by (blast intro: converse_rtranclp_into_rtranclp)
  qed
  have finish: ?thesis
    if mods: "(bundler_step L B S b serial)\<^sup>*\<^sup>* s (?t (?job c' []) w2 n)" and fin: "finish_batch L B S ep c' w2 = (r, w')" for c' w2 n
  proof -
    have "bundler_step L B S b serial (?t (?job c' []) w2 n)
      (set_loop i ((?job c' [])\<lparr>lp_todo := Some eps, lp_job := None\<rparr>) ((?t (?job c' []) w2 n)\<lparr>rs_world := w', rs_runs := rs_runs (?t (?job c' []) w2 n) + 1\<rparr>))"
      by (rule finish_step) (use assms fin in simp_all)
    with mods have "(bundler_step L B S b serial)\<^sup>*\<^sup>* s (?t (l\<lparr>lp_todo := Some eps\<rparr>) w' (n + 1))"
      by (simp add: idle)
    then show ?thesis by blast
  qed
  show ?thesis
    using assms(6)
  proof (cases rule: Process_cases)
    case quiet
    have "bundler_step L B S b serial s (?t (l\<lparr>lp_todo := Some eps\<rparr>) w' (rs_runs s + 1))"
      by (rule bundler_step.work [where e = "case r of Inl err \<Rightarrow> Some err | _ \<Rightarrow> None"])
        (use assms quiet(1,3) in \<open>auto simp: work_step_def split: sum.splits option.splits\<close>)
    then show ?thesis by blast
  next
    case (handler_error c err c')
    from modules [OF handler_error(1,2)] handler_error(3) assms(7) show ?thesis by simp
  next
    case (remove_error c c' w2 err)
    from modules [OF remove_error(1,2)] obtain n where "(bundler_step L B S b serial)\<^sup>*\<^sup>* s (?t (?job c' []) w2 n)" by auto
    then show ?thesis by (rule finish) (simp add: finish_batch_def remove_error)
  next
    case (processed c c' w2)
    from modules [OF processed(1,2)] obtain n where "(bundler_step L B S b serial)\<^sup>*\<^sup>* s (?t (?job c' []) w2 n)" by auto
    then show ?thesis by (rule finish) (simp add: finish_batch_def processed)
  qed
qed

theorem Process_steps_witness:
  "\<exists>s'. (bundler_step plain_ref badger_ref sortedset_ref sample_bundler True)\<^sup>*\<^sup>*
      ((Run_start (Run_check (init_run (pool_with plain_ref [sample_op 5 3]))))\<lparr>rs_loops := [\<lparr>lp_ticker = 0, lp_todo = Some [9], lp_job = None\<rparr>]\<rparr>) s' \<and>
    op_id ` set (fst (Dump sortedset_ref 9 (rs_world s'))) = {}"
proof -
  let ?w = "pool_with plain_ref [sample_op 5 3]"
  let ?s = "(Run_start (Run_check (init_run ?w)))\<lparr>rs_loops := [\<lparr>lp_ticker = 0, lp_todo = Some [9], lp_job = None\<rparr>]\<rparr>"
  have s: "rs_world ?s = ?w" "rs_runs ?s = 0" "\<not> rs_crashed ?s"
    by (simp_all add: Run_start_def Run_check_def init_run_def)
  obtain w' c where run: "Process plain_ref badger_ref sortedset_ref sample_bundler 0 9 ?w = Some (Inr (Some c), w')"
    "op_id ` set (fst (Dump sortedset_ref 9 w')) = {}"
    using sample_run by blast
  have "\<exists>n. (bundler_step plain_ref badger_ref sortedset_ref sample_bundler True)\<^sup>*\<^sup>* ?s
      (set_loop 0 (\<lparr>lp_ticker = 0, lp_todo = Some [9], lp_job = None\<rparr>\<lparr>lp_todo := Some []\<rparr>) (?s\<lparr>rs_world := w', rs_runs := n\<rparr>))"
    by (rule Process_steps [where r = "Inr (Some c)"]) (use s run in simp_all)
  then obtain n where "(bundler_step plain_ref badger_ref sortedset_ref sample_bundler True)\<^sup>*\<^sup>* ?s
      (set_loop 0 (\<lparr>lp_ticker = 0, lp_todo = Some [9], lp_job = None\<rparr>\<lparr>lp_todo := Some []\<rparr>) (?s\<lparr>rs_world := w', rs_runs := n\<rparr>))" by blast
  with run(2) show ?thesis by (intro exI conjI) (assumption, simp)
qed


text \<open>
  C33: when no call of \<open>Run\<close> or \<open>Stop\<close> begins while another is under way, and whatever the client adds
  between any two steps, there is one loop with a running ticker while the bundler is running, no loop
  is left once \<open>Stop\<close> has returned, and queues and database of the pool have the same keys at every
  step, also while a batch is being processed.
\<close>

theorem serial_runs:
  assumes "pool_inv L B S nodes w" "modules_ok B b"
    and "(bundler_step L B S b True)\<^sup>*\<^sup>* (init_run w) s"
  shows "(rs_isRunning s \<longrightarrow> (\<exists>l. rs_loops s = [l] \<and> rs_live s = {lp_ticker l})) \<and>
    (\<not> rs_isRunning s \<and> rs_stopping s = 0 \<longrightarrow> rs_loops s = []) \<and> same_keys L B S (rs_world s)"
proof -
  have "one_loop s"
    using assms(3)
  proof (induction rule: rtranclp_induct)
    case base
    show ?case by (simp add: one_loop_def init_run_def)
  next
    case (step s s')
    then show ?case using one_loop_step by blast
  qed
  moreover have "same_keys L B S (rs_world s)"
    using run_inv_steps [OF assms(3) run_inv_init [OF assms(1)] assms(2)] pool_inv_same_keys by (auto simp: run_inv_def)
  ultimately show ?thesis by (auto simp: one_loop_def split: if_splits)
qed

lemma sample_modules_ok: "modules_ok B sample_bundler"
proof -
  have "batch_runner B (returns noop_BatchHandler)"
    by (rule returns_runner [OF noop.batch_module_axioms]) (simp add: noop_BatchHandler_def)
  then show ?thesis by (simp add: modules_ok_def sample_bundler_def SetMaxBatch_def New_bundler_def)
qed

theorem serial_runs_witness:
  "rs_loops (Run_start (Run_check (init_run (pool_with plain_ref [sample_op 5 3])))) =
    [\<lparr>lp_ticker = 0, lp_todo = None, lp_job = None\<rparr>]"
proof -
  let ?w = "pool_with plain_ref [sample_op 5 3]"
  let ?step = "bundler_step plain_ref badger_ref sortedset_ref sample_bundler True"
  have inv: "pool_inv plain_ref badger_ref sortedset_ref ss_nodes ?w"
    by (rule pool_with_inv [OF plain_ref_ok]) (simp add: sample_op_wf)
  have "?step (init_run ?w) (Run_check (init_run ?w))"
    by (rule bundler_step.run_check) (simp_all add: init_run_def)
  moreover have "?step (Run_check (init_run ?w)) (Run_start (Run_check (init_run ?w)))"
    by (rule bundler_step.run_start) (simp_all add: init_run_def Run_check_def)
  ultimately have "?step\<^sup>*\<^sup>* (init_run ?w) (Run_start (Run_check (init_run ?w)))"
    by (blast intro: converse_rtranclp_into_rtranclp)
  from serial_runs [OF inv sample_modules_ok this]
  show ?thesis by (simp add: Run_start_def Run_check_def init_run_def)
qed

text \<open>Two loops that were started by overlapping calls of \<open>Run\<close>.\<close>

definition two_loops :: "'w \<Rightarrow> 'w run_state" where
  "two_loops w = Run_start (Run_start (Run_check (Run_check (init_run w))))"

lemma two_loops_fields:
  "rs_loops (two_loops w) = [\<lparr>lp_ticker = 0, lp_todo = None, lp_job = None\<rparr>, \<lparr>lp_ticker = 1, lp_todo = None, lp_job = None\<rparr>]"
  "rs_live (two_loops w) = {0, 1}" "rs_world (two_loops w) = w" "\<not> rs_crashed (two_loops w)" "rs_runs (two_loops w) = 0"
  "rs_isRunning (two_loops w)" "rs_stop (two_loops w) = Some 1" "rs_starting (two_loops w) = 0" "rs_stopping (two_loops w) = 0"
  by (auto simp: two_loops_def Run_start_def Run_check_def init_run_def)

lemma two_loops_reachable: "(bundler_step L B S b False)\<^sup>*\<^sup>* (init_run w) (two_loops w)"
proof -
  let ?step = "bundler_step L B S b False"
  let ?s0 = "init_run w"
  let ?s2 = "Run_check (Run_check ?s0)"
  note defs = init_run_def Run_check_def Run_start_def
  have "?step ?s0 (Run_check ?s0)" "?step (Run_check ?s0) ?s2"
    by (rule bundler_step.run_check; simp add: defs)+
  moreover have "?step ?s2 (Run_start ?s2)" "?step (Run_start ?s2) (two_loops w)"
    unfolding two_loops_def by (rule bundler_step.run_start; simp add: defs)+
  ultimately show ?thesis by (meson converse_rtranclp_into_rtranclp rtranclp.rtrancl_refl)
qed

lemma Dump_again: "fst (Dump S ep (snd (Dump S ep w))) = fst (Dump S ep w)"
  by (auto simp: Dump_def queue_All_def getEntryPointSet_def Let_def split: prod.splits option.splits)

lemma take_batch_some:
  assumes "fees_known b" "fst (Dump S ep w) \<noteq> []"
  obtains c where "take_batch S b n ep w = (Inr (Some c), snd (Dump S ep w))"
    "Batch c = adjustBatchSize (bu_maxBatch b) (fst (Dump S ep w))"
proof -
  obtain bf gt gp where fees: "bu_gbf b n = Inr bf" "bu_ggt b n = Inr gt" "bu_ggp b n = Inr gp"
    using assms(1) unfolding fees_known_def by blast
  obtain ops w1 where dump: "Dump S ep w = (ops, w1)" by fastforce
  have "\<exists>c. take_batch S b n ep w = (Inr (Some c), w1)"
    using assms(2) fees dump by (simp add: take_batch_def)
  then obtain c where "take_batch S b n ep w = (Inr (Some c), w1)" by blast
  with take_batch_result [OF this] show thesis by (intro that [of c]) simp_all
qed




text \<open>
  C36: an operation that arrives while its predecessor is in a batch is lost. The client adds it to the
  pool in place of the operation with its sender and nonce; when the run that took the batch before it
  arrived ends, with the predecessor still in the batch, the new operation is removed from the pool,
  although the batch was taken without it.
\<close>

theorem run_drops_replacement:
  assumes "pool_inv L B S nodes (rs_world s)" "busy_ok B l" "\<not> rs_crashed s"
    and "i < length (rs_loops s)" "rs_loops s ! i = l" "lp_todo l = Some (ep # eps)" "lp_job l = Some j"
    and "AddOp L B S ep y (rs_world s) = (None, w1)" "wf_op y"
    and "compose_runs (job_modules j) (w1, job_ctx j) = Some (None, w2, c)"
    and "RemoveOps L B S ep (remaining_ops L c) w2 = (None, w3)"
    and "x \<in> set (Batch c)" "\<not> IsUnsolvedIntent L x" "op_id y = op_id x"
  shows "\<exists>s1 s2. bundler_step L B S b serial s s1 \<and> y \<in> set (fst (Dump S ep (rs_world s1))) \<and>
    (bundler_step L B S b serial)\<^sup>*\<^sup>* s1 s2 \<and> lp_job (rs_loops s2 ! i) = None \<and>
    op_id y \<notin> op_id ` set (fst (Dump S ep (rs_world s2)))"
proof -
  let ?s1 = "s\<lparr>rs_world := w1\<rparr>"
  let ?t = "\<lambda>l w n. set_loop i l (s\<lparr>rs_world := w, rs_runs := n\<rparr>)"
  let ?done = "l\<lparr>lp_job := Some \<lparr>job_ctx = c, job_modules = []\<rparr>\<rparr>"
  have add: "bundler_step L B S b serial s ?s1"
    using bundler_step.client_add [OF assms(3,9), of L B S b serial ep] assms(8) by simp
  have w1: "pool_inv L B S nodes w1" using pool.add_inv [OF assms(1,9), of ep] assms(8) by simp
  have y: "y \<in> set (fst (Dump S ep w1))" using pool.dump_after_add(1) [OF assms(1,9), of ep] assms(8) by simp
  have "\<exists>n. (bundler_step L B S b serial)\<^sup>*\<^sup>* ?s1
      (set_loop i (case (None :: go_error option) of None \<Rightarrow> ?done | Some err \<Rightarrow> l\<lparr>lp_todo := Some eps, lp_job := None\<rparr>) (?s1\<lparr>rs_world := w2, rs_runs := n\<rparr>))"
    by (rule modules_steps [where j = j]) (use assms(3-7,10) in simp_all)
  then obtain n where ran: "(bundler_step L B S b serial)\<^sup>*\<^sup>* ?s1 (?t ?done w2 n)" by auto
  have fin: "finish_batch L B S ep c w2 = (Inr (Some c), w3)" by (simp add: finish_batch_def assms(11))
  have "bundler_step L B S b serial (?t ?done w2 n) (set_loop i (?done\<lparr>lp_todo := Some eps, lp_job := None\<rparr>)
      ((?t ?done w2 n)\<lparr>rs_world := w3, rs_runs := rs_runs (?t ?done w2 n) + 1\<rparr>))"
    by (rule finish_step [where r = "Inr (Some c)"]) (use fin assms(3,4,6) in simp_all)
  with ran have steps: "(bundler_step L B S b serial)\<^sup>*\<^sup>* ?s1 (?t (?done\<lparr>lp_todo := Some eps, lp_job := None\<rparr>) w3 (n + 1))" by simp
  have "batch_runner B (compose_runs (job_modules j))"
    by (rule compose_batch_runner) (use assms(2,7) in \<open>simp add: busy_ok_def\<close>)
  from batch_runner.run_pool_inv(1) [OF this assms(10) w1] have w2: "pool_inv L B S nodes w2" .
  have "x \<in> set (remaining_ops L c)" using assms(12,13) by (simp add: remaining_ops_def)
  then have "op_id y \<in> op_id ` set (remaining_ops L c)" using assms(14) by simp
  then have gone: "op_id y \<notin> pooled S ep w3"
    using pooled_remove [OF w2, of ep ep "remaining_ops L c"] assms(11) by simp
  show ?thesis
    by (rule exI [of _ ?s1], rule exI [of _ "?t (?done\<lparr>lp_todo := Some eps, lp_job := None\<rparr>) w3 (n + 1)"])
      (use add y steps gone assms(4) in simp)
qed

theorem run_drops_replacement_witness:
  "\<exists>s1 s2. (bundler_step plain_ref badger_ref sortedset_ref sample_bundler True)\<^sup>*\<^sup>* s1 s2 \<and>
    (sample_op 5 3)\<lparr>CallData := [1]\<rparr> \<in> set (fst (Dump sortedset_ref 9 (rs_world s1))) \<and>
    (5, 3) \<notin> op_id ` set (fst (Dump sortedset_ref 9 (rs_world s2)))"
proof -
  let ?y = "(sample_op 5 3)\<lparr>CallData := [1]\<rparr>"
  let ?c = "NewBatchHandlerContext [sample_op 5 3] 9 1 None None None"
  let ?l = "\<lparr>lp_ticker = 0, lp_todo = Some [9], lp_job = Some \<lparr>job_ctx = ?c, job_modules = [returns noop_BatchHandler]\<rparr>\<rparr>"
  let ?s = "(init_run (pool_with plain_ref [sample_op 5 3]))\<lparr>rs_loops := [?l]\<rparr>"
  have wf: "wf_op (sample_op 5 3)" "wf_op ?y" using sample_op_wf [of 5 3] by (simp_all add: wf_op_def)
  have inv: "pool_inv plain_ref badger_ref sortedset_ref ss_nodes (rs_world ?s)"
    using pool_with_inv [OF plain_ref_ok, of "[sample_op 5 3]"] wf(1) by (simp add: init_run_def)
  have "batch_runner badger_ref (returns noop_BatchHandler)"
    by (rule returns_runner [OF noop.batch_module_axioms]) (simp add: noop_BatchHandler_def)
  then have busy: "busy_ok badger_ref ?l" by (simp add: busy_ok_def)
  obtain w1 where add: "AddOp plain_ref badger_ref sortedset_ref 9 ?y (rs_world ?s) = (None, w1)"
    using badger_ref_never_fails(1) by (metis prod.collapse)
  have run: "compose_runs (job_modules \<lparr>job_ctx = ?c, job_modules = [returns noop_BatchHandler]\<rparr>)
      (w1, job_ctx \<lparr>job_ctx = ?c, job_modules = [returns noop_BatchHandler]\<rparr>) = Some (None, w1, ?c)"
    by (simp add: returns_def noop_BatchHandler_def)
  obtain w3 where rm: "RemoveOps plain_ref badger_ref sortedset_ref 9 (remaining_ops plain_ref ?c) w1 = (None, w3)"
    using badger_ref_never_fails(2) by (metis prod.collapse)
  have "\<not> rs_crashed ?s" by (simp add: init_run_def)
  from run_drops_replacement [OF inv busy this _ _ _ _ add wf(2) run rm, of 0 "[]" "sample_op 5 3" sample_bundler True]
  show ?thesis by (auto simp: NewBatchHandlerContext_def IsUnsolvedIntent_def plain_ref_def op_id_def)
qed

end
