(* ===== verification/Debug_Methods.thy ===== *)
theory Debug_Methods
  imports Client Bundler_Loop
begin

text \<open>
  \<open>pkg/client/debug.go\<close>: the methods that let a test drive the bundler. \<open>SetBundlingMode\<close> acts on the
  state of the loop of \<open>Bundler\<close>; its call of \<open>Stop\<close> returns once a loop has received the message,
  which is the step \<open>stop_done\<close> there. Of the key of the account the code reads the number \<open>D\<close>.
\<close>

record debug =
  dbg_PrivateKey :: int
  dbg_Address :: address
  dbg_chainID :: int
  dbg_entrypoint :: address
  dbg_beneficiary :: address

definition NewDebug :: "int \<Rightarrow> address \<Rightarrow> int \<Rightarrow> address \<Rightarrow> address \<Rightarrow> debug" where
  "NewDebug key eoa chainID entrypoint beneficiary =
     \<lparr>dbg_PrivateKey = key, dbg_Address = eoa, dbg_chainID = chainID, dbg_entrypoint = entrypoint,
      dbg_beneficiary = beneficiary\<rparr>"

definition ClearState :: "'d badger \<Rightarrow> ('d, 's, 'x) mempool_scheme \<Rightarrow> string res \<times> ('d, 's, 'x) mempool_scheme" where
  "ClearState B w =
     (case Clear B w of
        (Some err, w) \<Rightarrow> (Inl err, w)
      | (None, w) \<Rightarrow> (Inr ''ok'', w))"

definition DumpMempool :: "'y userop_lib_scheme \<Rightarrow> 's sset \<Rightarrow> string \<Rightarrow> ('d, 's, 'x) mempool_scheme \<Rightarrow>
    obj list \<times> ('d, 's, 'x) mempool_scheme" where
  "DumpMempool L S ep w =
     (let (ops, w) = Dump S (HexToAddress L ep) w in (map (ToMap L) ops, w))"

definition SendBundleNow :: "'y userop_lib_scheme \<Rightarrow> 'd badger \<Rightarrow> 's sset \<Rightarrow> ('d, 's, 'x) mempool_scheme bundler \<Rightarrow>
    nat \<Rightarrow> debug \<Rightarrow> ('d, 's, 'x) mempool_scheme \<Rightarrow> (string res \<times> ('d, 's, 'x) mempool_scheme) option" where
  "SendBundleNow L B S b n dbg w =
     (case Process L B S b n (dbg_entrypoint dbg) w of
        None \<Rightarrow> None
      | Some (Inl err, w) \<Rightarrow> Some (Inl err, w)
      | Some (Inr None, w) \<Rightarrow> Some (Inr '''', w)
      | Some (Inr (Some c), w) \<Rightarrow>
          (case Data c ''txn_hash'' of
             Some (JStr h) \<Rightarrow> Some (Inr h, w)
           | _ \<Rightarrow> Some (Inl (GoError ''txn_hash not in ctx Data''), w)))"

text \<open>A call of \<open>Run\<close> that no other call interleaves.\<close>

definition Run :: "'w run_state \<Rightarrow> 'w run_state" where
  "Run s = (if rs_isRunning s then s else Run_start (Run_check s))"

definition SetBundlingMode :: "string \<Rightarrow> 'w run_state \<Rightarrow> string res \<times> 'w run_state" where
  "SetBundlingMode mode s =
     (if mode = ''manual'' then (Inr ''ok'', Stop_begin s)
      else if mode = ''auto'' then (Inr ''ok'', Run s)
      else (Inl (GoError (''debug: unrecognized mode '' @ mode)), s))"

definition DumpDebugInfo :: "'y userop_lib_scheme \<Rightarrow> 's sset \<Rightarrow> debug \<Rightarrow> ('d, 's, 'x) mempool_scheme \<Rightarrow>
    obj list \<times> obj \<times> ('d, 's, 'x) mempool_scheme" where
  "DumpDebugInfo L S dbg w =
     (let (mempool, w) = DumpMempool L S (AddressString L (dbg_entrypoint dbg)) w in
      (mempool,
       [''eoaPrivateKey'' \<mapsto> JStr (hex_Encode (big_bytes (dbg_PrivateKey dbg))),
        ''eoaAddress'' \<mapsto> JStr (AddressString L (dbg_Address dbg)),
        ''chainID'' \<mapsto> JStr (Itoa (dbg_chainID dbg)),
        ''entrypoint'' \<mapsto> JStr (AddressString L (dbg_entrypoint dbg)),
        ''beneficiary'' \<mapsto> JStr (AddressString L (dbg_beneficiary dbg))],
       w))"

subsection \<open>What the methods do\<close>

lemma ClearState_empties:
  assumes "pool_inv L B S nodes w" "ClearState B w = (Inr r, w')"
  shows "pool_inv L B S nodes w'" "fst (Dump S ep w') = []"
proof -
  have clear: "fst (Clear B w) = None" "snd (Clear B w) = w'" using assms(2) by (auto simp: ClearState_def split: prod.splits option.splits)
  show inv: "pool_inv L B S nodes w'" using pool.clear_inv [OF assms(1)] clear by simp
  have "pool_look L nodes w' = (\<lambda>ep a n. None)" using pool.clear_look [OF assms(1)] clear by simp
  with pool.dump_set [OF inv, of _ ep] show "fst (Dump S ep w') = []" by (metis list.set_intros(1) neq_Nil_conv option.distinct(1))
qed

lemma DumpMempool_ops:
  assumes "pool_inv L B S nodes w" "DumpMempool L S ep w = (ms, w')"
    and "\<forall>op \<in> set (fst (Dump S (HexToAddress L ep) w)). wf_op op"
  shows "\<exists>ops. ms = map (ToMap L) ops \<and> map (New_userop L) ms = map Inr ops \<and> ops = fst (Dump S (HexToAddress L ep) w)"
proof -
  obtain ops where d: "Dump S (HexToAddress L ep) w = (ops, w')" "ms = map (ToMap L) ops"
    using assms(2) by (auto simp: DumpMempool_def split: prod.splits)
  have "wf_op op" if "op \<in> set ops" for op
    using assms(3) that d(1) by simp
  then have "map (New_userop L) ms = map Inr ops"
    using New_userop_ToMap [OF pool_invD(1) [OF assms(1)]] by (simp add: d(2))
  with d show ?thesis by auto
qed

lemma Run_one_loop: "one_loop s \<Longrightarrow> rs_starting s = 0 \<Longrightarrow> rs_stopping s = 0 \<Longrightarrow> rs_isRunning (Run s) \<and> one_loop (Run s)"
  by (auto simp: Run_def Run_start_def Run_check_def one_loop_def split: if_splits)

lemma manual_mode_rests:
  assumes "SetBundlingMode ''manual'' s = (r, s')" "one_loop s" "rs_starting s = 0" "rs_stopping s = 0"
  shows "\<not> rs_isRunning s'" "rs_live s' = {}"
  using assms by (auto simp: SetBundlingMode_def Stop_begin_def one_loop_def split: if_splits)

end
