(* ===== verification/JsonRpc.thy ===== *)
theory JsonRpc
  imports Debug_Methods
begin

text \<open>
  \<open>pkg/jsonrpc/handler.go\<close>: the controller that maps a JSON-RPC request to a method of an API object by
  reflection, converts its parameters to the kinds of the inputs of the method, and passes every
  other request on to the node. The second part is the API object of the bundler, \<open>RpcAdapter\<close> of
  \<open>pkg/client/rpc.go\<close>. Parsing of JSON texts, \<open>cases.Title\<close>, the format \<open>%v\<close> of other values than strings and
  the calls of the node are parameters. A reply \<open>Crashed\<close> is a panic of the handler.
\<close>

subsection \<open>Requests and replies\<close>

datatype request_body = NoBody | BodyError | Body string

datatype 'v go_out = OutVal 'v | OutErr "go_error option"

datatype 'v reply =
    ErrorReply int string err_data json
  | ResultReply "'v go_out" json
  | HexReply string json
  | RawReply string
  | Crashed string

datatype param_kind =
    PFloat32 | PFloat64
  | PInt | PInt8 | PInt16 | PInt32 | PInt64
  | PInterface | PMap | PSlice | PString
  | PUint | PUint8 | PUint16 | PUint32 | PUint64
  | POther

text \<open>
  An input of a method: its kind, the name of its type, and whether a value of the type that the
  controller builds for the kind can be assigned to it (a defined map type accepts a plain map, a
  defined string type does not accept a plain string).
\<close>

record param_type =
  pt_Kind :: param_kind
  pt_Name :: string
  pt_Assignable :: bool

datatype go_value =
    VFloat64 rat
  | VInt param_kind int
  | VAny json
  | VMap "(string \<times> json) list"
  | VSlice "json list"
  | VString string
  | VZero

record ('w, 'v) api_method =
  am_Inputs :: "param_type list"
  am_Call :: "go_value list \<Rightarrow> 'w \<Rightarrow> ('v go_out list \<times> 'w) option"

record rpc_env = eth_lib +
  re_Unmarshal :: "string \<Rightarrow> obj option"
  re_Title :: "string \<Rightarrow> string"
  re_FloatInt :: "param_kind \<Rightarrow> rat \<Rightarrow> int"
  re_Format :: "json \<Rightarrow> string"
  re_Call :: "string \<Rightarrow> json list \<Rightarrow> string res"
  re_CallContract :: "address option \<Rightarrow> bytes \<Rightarrow> int option \<Rightarrow> bytes res"

subsection \<open>Checks on a request\<close>

definition optionalTypePrefix :: string where
  "optionalTypePrefix = ''optional_''"

definition CutPrefix :: "string \<Rightarrow> string \<Rightarrow> string" where
  "CutPrefix s p = (if HasPrefix s p then drop (length p) s else s)"

definition formatConversionErrMsg :: "nat \<Rightarrow> param_type list \<Rightarrow> string" where
  "formatConversionErrMsg i inputs =
     ''Param ['' @ Itoa (int i) @ ''] can't be converted to '' @ CutPrefix (pt_Name (inputs ! i)) optionalTypePrefix"

definition jsonrpcError :: "int \<Rightarrow> string \<Rightarrow> err_data \<Rightarrow> json \<Rightarrow> 'v reply" where
  "jsonrpcError code message data rid = ErrorReply code message data rid"

definition parseRequestId :: "obj \<Rightarrow> json option" where
  "parseRequestId data =
     (case data ''id'' of
        Some JNull \<Rightarrow> Some JNull
      | Some (JNum q) \<Rightarrow> Some (JNum q)
      | Some (JStr s) \<Rightarrow> Some (JStr s)
      | _ \<Rightarrow> None)"

definition hasOptionalInput :: "param_type list \<Rightarrow> bool" where
  "hasOptionalInput inputs \<longleftrightarrow>
     0 < length inputs \<and> HasPrefix (pt_Name (last inputs)) optionalTypePrefix \<and> pt_Kind (last inputs) = PMap"

definition hasValidParamLength :: "nat \<Rightarrow> nat \<Rightarrow> bool \<Rightarrow> bool" where
  "hasValidParamLength numParams numIn hasOptional \<longleftrightarrow>
     numParams = numIn \<or> (hasOptional \<and> int numParams = int numIn - 1)"

definition isOptionalParamUndefined :: "nat \<Rightarrow> nat \<Rightarrow> bool \<Rightarrow> bool" where
  "isOptionalParamUndefined numParams numIn hasOptional \<longleftrightarrow> hasOptional \<and> int numParams = int numIn - 1"

subsection \<open>Conversion of the parameters\<close>

text \<open>
  A number of a decoded request is a \<open>float64\<close>: the type assertions to the integer kinds and to
  \<open>float32\<close> never hold. \<open>None\<close> is a conversion error.
\<close>

definition conv_float :: "param_kind \<Rightarrow> json \<Rightarrow> go_value option" where
  "conv_float k arg =
     (if k = PFloat32 then None else (case arg of JNum q \<Rightarrow> Some (VFloat64 q) | _ \<Rightarrow> None))"

definition conv_int :: "'y rpc_env_scheme \<Rightarrow> param_kind \<Rightarrow> json \<Rightarrow> go_value option" where
  "conv_int E k arg = (case arg of JNum q \<Rightarrow> Some (VInt k (re_FloatInt E k q)) | _ \<Rightarrow> None)"

definition conv_composite :: "param_kind \<Rightarrow> json \<Rightarrow> go_value option" where
  "conv_composite k arg =
     (if k = PInterface then Some (if arg = JNull then VZero else VAny arg)
      else if k = PMap then (case arg of JObj kvs \<Rightarrow> Some (VMap kvs) | _ \<Rightarrow> None)
      else if k = PSlice then (case arg of JArr vs \<Rightarrow> Some (VSlice vs) | _ \<Rightarrow> None)
      else (case arg of JStr s \<Rightarrow> Some (VString s) | _ \<Rightarrow> None))"

definition conv_uint :: "'y rpc_env_scheme \<Rightarrow> param_kind \<Rightarrow> json \<Rightarrow> go_value option" where
  "conv_uint E k arg = (case arg of JNum q \<Rightarrow> Some (VInt k (re_FloatInt E k q)) | _ \<Rightarrow> None)"

text \<open>
  Any other kind runs into the \<open>default\<close> branch, which tests an \<open>ok\<close> that is true by then: the
  argument stays the zero value.
\<close>

definition conv_arg :: "'y rpc_env_scheme \<Rightarrow> param_kind \<Rightarrow> json \<Rightarrow> go_value option" where
  "conv_arg E k arg =
     (if k \<in> {PFloat32, PFloat64} then conv_float k arg
      else if k \<in> {PInt, PInt8, PInt16, PInt32, PInt64} then conv_int E k arg
      else if k \<in> {PInterface, PMap, PSlice, PString} then conv_composite k arg
      else if k \<in> {PUint, PUint8, PUint16, PUint32, PUint64} then conv_uint E k arg
      else Some VZero)"

fun convert_params :: "'y rpc_env_scheme \<Rightarrow> nat \<Rightarrow> param_type list \<Rightarrow> json list \<Rightarrow> nat + go_value list" where
  "convert_params E i inputs [] = Inr []"
| "convert_params E i inputs (arg # args) =
     (case conv_arg E (pt_Kind (inputs ! i)) arg of
        None \<Rightarrow> Inl i
      | Some v \<Rightarrow> (case convert_params E (i + 1) inputs args of Inl j \<Rightarrow> Inl j | Inr vs \<Rightarrow> Inr (v # vs)))"

text \<open>\<open>reflect.Value.Call\<close> panics on a zero value and on a value that cannot be assigned.\<close>

definition call_ok :: "param_type list \<Rightarrow> go_value list \<Rightarrow> bool" where
  "call_ok inputs args \<longleftrightarrow> list_all2 (\<lambda>p v. v \<noteq> VZero \<and> pt_Assignable p) inputs args"

definition answer :: "'v go_out list \<Rightarrow> json \<Rightarrow> 'v reply" where
  "answer outs rid =
     (if outs = [] then Crashed ''index out of range [-1]''
      else case last outs of
        OutErr (Some (Panicked p)) \<Rightarrow> Crashed p
      | OutErr (Some (RPCError code msg data)) \<Rightarrow> jsonrpcError code msg data rid
      | OutErr (Some err) \<Rightarrow> jsonrpcError (-32601) (Error err) (StrData (Error err)) rid
      | _ \<Rightarrow> ResultReply (hd outs) rid)"

subsection \<open>Requests for the node\<close>

definition bundlerMethods :: "string list" where
  "bundlerMethods =
     [''eth_senduseroperation'', ''eth_estimateuseroperationgas'', ''eth_getuseroperationreceipt'',
      ''eth_getuseroperationbyhash'', ''eth_supportedentrypoints'', ''eth_chainid'',
      ''debug_bundler_clearstate'', ''debug_bundler_dumpmempool'', ''debug_bundler_sendbundlenow'',
      ''debug_bundler_setbundlingmode'']"

definition isStdEthereumRPCMethod :: "string \<Rightarrow> bool" where
  "isStdEthereumRPCMethod mname \<longleftrightarrow> ToLower mname \<notin> set bundlerMethods"

text \<open>What \<open>%v\<close> prints for an id.\<close>

fun format_id :: "'y rpc_env_scheme \<Rightarrow> json \<Rightarrow> string" where
  "format_id E (JStr s) = s"
| "format_id E JNull = ''<nil>''"
| "format_id E j = re_Format E j"

definition rpcCall :: "'y rpc_env_scheme \<Rightarrow> string \<Rightarrow> json list \<Rightarrow> 'v reply + string" where
  "rpcCall E mname params =
     (case re_Call E mname params of
        Inl err \<Rightarrow> Inl (jsonrpcError (-32603) ''Internal error'' (StrData (Error err)) JNull)
      | Inr raw \<Rightarrow> Inr raw)"

definition sendRawJson :: "'y rpc_env_scheme \<Rightarrow> string \<Rightarrow> json \<Rightarrow> 'v reply" where
  "sendRawJson E raw rid =
     RawReply (''{\"result\": '' @ raw @ '', \"jsonrpc\": \"2.0\", \"id\": '' @ format_id E rid @ ''}'')"

definition data_id :: "obj \<Rightarrow> json" where
  "data_id data = (case data ''id'' of None \<Rightarrow> JNull | Some j \<Rightarrow> j)"

definition handleEthRequest :: "'y rpc_env_scheme \<Rightarrow> string \<Rightarrow> obj \<Rightarrow> 'v reply" where
  "handleEthRequest E mname data =
     (case data ''params'' of
        Some (JArr params) \<Rightarrow>
          (case rpcCall E mname params of
             Inl r \<Rightarrow> r
           | Inr raw \<Rightarrow> sendRawJson E raw (data_id data))
      | _ \<Rightarrow> jsonrpcError (-32602) ''Invalid params format'' (StrData ''Expected a slice of parameters'') JNull)"

text \<open>\<open>common.FromHex\<close>: an optional prefix, a leading zero for an odd number of digits.\<close>

definition FromHex :: "string \<Rightarrow> bytes" where
  "FromHex s =
     (let s = (if HasPrefix s ''0x'' \<or> HasPrefix s ''0X'' then drop 2 s else s);
          s = (if length s mod 2 = 1 then CHR ''0'' # s else s)
      in Hex2Bytes s)"

definition call_msg :: "'y rpc_env_scheme \<Rightarrow> json list \<Rightarrow> 'v reply + address option \<times> bytes" where
  "call_msg E params =
     (case params of
        [] \<Rightarrow> Inr (None, [])
      | JObj kvs # _ \<Rightarrow>
          (case map_of kvs ''to'' of
             Some (JStr to_s) \<Rightarrow>
               (case map_of kvs ''data'' of
                  Some (JStr d) \<Rightarrow> Inr (Some (HexToAddress E to_s), FromHex d)
                | _ \<Rightarrow> Inl (jsonrpcError (-32602) ''Invalid params'' (StrData ''Data not provided or invalid'') JNull))
           | _ \<Rightarrow> Inl (jsonrpcError (-32602) ''Invalid params''
                 (StrData ''Contract address (to) not provided or invalid'') JNull))
      | _ \<Rightarrow> Inl (jsonrpcError (-32602) ''Invalid params'' (StrData ''First parameter should be a map'') JNull))"

definition block_param :: "json list \<Rightarrow> 'v reply + int option" where
  "block_param params =
     (if length params > 1 then
        (case params ! 1 of
           JStr b \<Rightarrow>
             (if b \<noteq> ''latest'' then
                (case ParseInt64 b of
                   Inl err \<Rightarrow> Inl (jsonrpcError (-32602) ''Invalid params''
                     (StrData (''Third parameter should be a block number or 'latest'' @ [CHR 0x27])) JNull)
                 | Inr n \<Rightarrow> Inr (Some n))
              else Inr None)
         | _ \<Rightarrow> Inl (Crashed ''interface conversion''))
      else Inr None)"

text \<open>Of the errors of the client only the one with data has a field of that name.\<close>

fun extractDataFromUnexportedError :: "go_error \<Rightarrow> string res" where
  "extractDataFromUnexportedError (DataError msg (JStr s)) = Inr s"
| "extractDataFromUnexportedError (DataError msg j) = Inl (Panicked ''interface conversion'')"
| "extractDataFromUnexportedError err = Inr ''''"

definition handleEthCallRequest :: "'y rpc_env_scheme \<Rightarrow> obj \<Rightarrow> 'v reply" where
  "handleEthCallRequest E data =
     (case data ''params'' of
        Some (JArr params) \<Rightarrow>
          (case call_msg E params of
             Inl r \<Rightarrow> r
           | Inr (to_a, d) \<Rightarrow>
               (case block_param params of
                  Inl r \<Rightarrow> r
                | Inr blockNumber \<Rightarrow>
                    (case re_CallContract E to_a d blockNumber of
                       Inr result \<Rightarrow> HexReply (''0x'' @ hex_Encode result) (data_id data)
                     | Inl err \<Rightarrow>
                         (case (if Error err = ''execution reverted'' then extractDataFromUnexportedError err else Inr '''') of
                            Inl p \<Rightarrow> Crashed (Error p)
                          | Inr s \<Rightarrow>
                              if s \<noteq> '''' then HexReply s (data_id data)
                              else jsonrpcError (-32603) ''Internal error'' (StrData (Error err)) JNull))))
      | _ \<Rightarrow> Crashed ''interface conversion'')"

definition routeStdEthereumRPCRequest :: "'y rpc_env_scheme \<Rightarrow> string \<Rightarrow> obj \<Rightarrow> 'v reply" where
  "routeStdEthereumRPCRequest E mname data =
     (if ToLower mname = ''eth_call'' then handleEthCallRequest E data else handleEthRequest E mname data)"

subsection \<open>The controller\<close>

definition parse_request :: "'y rpc_env_scheme \<Rightarrow> string \<Rightarrow> request_body \<Rightarrow> 'v reply + obj \<times> json \<times> string" where
  "parse_request E http body =
     (if http \<noteq> ''POST'' then Inl (jsonrpcError (-32700) ''Parse error'' (StrData ''POST method excepted'') JNull)
      else case body of
        NoBody \<Rightarrow> Inl (jsonrpcError (-32700) ''Parse error'' (StrData ''No POST data'') JNull)
      | BodyError \<Rightarrow> Inl (jsonrpcError (-32700) ''Parse error'' (StrData ''Error while reading request body'') JNull)
      | Body txt \<Rightarrow>
          (case re_Unmarshal E txt of
             None \<Rightarrow> Inl (jsonrpcError (-32700) ''Parse error'' (StrData ''Error parsing json request'') JNull)
           | Some data \<Rightarrow>
               (case parseRequestId data of
                  None \<Rightarrow> Inl (jsonrpcError (-32600) ''Invalid Request'' (StrData ''No or invalid 'id' in request'') JNull)
                | Some rid \<Rightarrow>
                    if data ''jsonrpc'' \<noteq> Some (JStr ''2.0'') then
                      Inl (jsonrpcError (-32600) ''Invalid Request'' (StrData ''Version of jsonrpc is not 2.0'') rid)
                    else (case data ''method'' of
                       Some (JStr mname) \<Rightarrow> Inr (data, rid, mname)
                     | _ \<Rightarrow> Inl (jsonrpcError (-32600) ''Invalid Request''
                         (StrData ''No or invalid 'method' in request'') rid)))))"

definition bind_params :: "'y rpc_env_scheme \<Rightarrow> param_type list \<Rightarrow> json list \<Rightarrow> json \<Rightarrow> 'v reply + go_value list" where
  "bind_params E inputs params rid =
     (let numIn = length inputs; hasOptional = hasOptionalInput inputs in
      if \<not> hasValidParamLength (length params) numIn hasOptional then
        Inl (jsonrpcError (-32602) ''Invalid params'' (StrData ''Invalid number of params'') rid)
      else
        let params = (if isOptionalParamUndefined (length params) numIn hasOptional then params @ [JObj []] else params) in
        case convert_params E 0 inputs params of
          Inl i \<Rightarrow> Inl (jsonrpcError (-32602) ''Invalid params'' (StrData (formatConversionErrMsg i inputs)) rid)
        | Inr args \<Rightarrow> Inr args)"

text \<open>The result has the value of \<open>json-rpc-request\<close> that the handler leaves in the Gin context.\<close>

definition Controller :: "'y rpc_env_scheme \<Rightarrow> (string \<rightharpoonup> ('w, 'v) api_method) \<Rightarrow> string \<Rightarrow> request_body \<Rightarrow> 'w \<Rightarrow>
    ('v reply \<times> obj option \<times> 'w) option" where
  "Controller E api http body w =
     (case parse_request E http body of
        Inl r \<Rightarrow> Some (r, None, w)
      | Inr (data, rid, mname) \<Rightarrow>
          if isStdEthereumRPCMethod mname then Some (routeStdEthereumRPCRequest E mname data, None, w)
          else (case data ''params'' of
             Some (JArr params) \<Rightarrow>
               (case api (re_Title E mname) of
                  None \<Rightarrow> Some (jsonrpcError (-32601) ''Method not found'' (StrData ''Method not found'') rid, None, w)
                | Some m \<Rightarrow>
                    (case bind_params E (am_Inputs m) params rid of
                       Inl r \<Rightarrow> Some (r, None, w)
                     | Inr args \<Rightarrow>
                         if \<not> call_ok (am_Inputs m) args then Some (Crashed ''reflect: Call'', Some data, w)
                         else (case am_Call m args w of
                            None \<Rightarrow> None
                          | Some (outs, w) \<Rightarrow> Some (answer outs rid, Some data, w))))
           | _ \<Rightarrow> Some (jsonrpcError (-32602) ''Invalid params'' (StrData ''No or invalid 'params' in request'') rid, None, w)))"

subsection \<open>Types of the arguments\<close>

definition int_range :: "param_kind \<Rightarrow> int \<Rightarrow> bool" where
  "int_range k n \<longleftrightarrow>
     (case k of
        PInt \<Rightarrow> - (2 ^ 63) \<le> n \<and> n < 2 ^ 63 | PInt8 \<Rightarrow> - (2 ^ 7) \<le> n \<and> n < 2 ^ 7
      | PInt16 \<Rightarrow> - (2 ^ 15) \<le> n \<and> n < 2 ^ 15 | PInt32 \<Rightarrow> - (2 ^ 31) \<le> n \<and> n < 2 ^ 31
      | PInt64 \<Rightarrow> - (2 ^ 63) \<le> n \<and> n < 2 ^ 63
      | PUint \<Rightarrow> 0 \<le> n \<and> n < 2 ^ 64 | PUint8 \<Rightarrow> 0 \<le> n \<and> n < 2 ^ 8 | PUint16 \<Rightarrow> 0 \<le> n \<and> n < 2 ^ 16
      | PUint32 \<Rightarrow> 0 \<le> n \<and> n < 2 ^ 32 | PUint64 \<Rightarrow> 0 \<le> n \<and> n < 2 ^ 64
      | _ \<Rightarrow> False)"

text \<open>Conversions of Go: a value in range is truncated, any result is a value of the type.\<close>

definition float_int_ok :: "'y rpc_env_scheme \<Rightarrow> bool" where
  "float_int_ok E \<longleftrightarrow>
     (\<forall>k q. k \<in> {PInt, PInt8, PInt16, PInt32, PInt64, PUint, PUint8, PUint16, PUint32, PUint64} \<longrightarrow>
        int_range k (re_FloatInt E k q) \<and> (int_range k (rat_trunc q) \<longrightarrow> re_FloatInt E k q = rat_trunc q))"

fun fits :: "param_kind \<Rightarrow> go_value \<Rightarrow> bool" where
  "fits k (VFloat64 q) \<longleftrightarrow> k = PFloat64"
| "fits k (VInt k' n) \<longleftrightarrow> k' = k \<and> int_range k n"
| "fits k (VAny j) \<longleftrightarrow> k = PInterface"
| "fits k (VMap kvs) \<longleftrightarrow> k = PMap"
| "fits k (VSlice vs) \<longleftrightarrow> k = PSlice"
| "fits k (VString s) \<longleftrightarrow> k = PString"
| "fits k VZero \<longleftrightarrow> False"

text \<open>The inputs with which a call cannot panic: other kinds and \<open>any\<close> can be left a zero value.\<close>

definition callable :: "param_type \<Rightarrow> bool" where
  "callable p \<longleftrightarrow> pt_Assignable p \<and> pt_Kind p \<noteq> POther \<and> pt_Kind p \<noteq> PInterface"

definition well_typed :: "param_type list \<Rightarrow> go_value list \<Rightarrow> bool" where
  "well_typed inputs args \<longleftrightarrow> list_all2 (\<lambda>p v. fits (pt_Kind p) v) inputs args"

lemma conv_float_fits: "conv_float k arg = Some v \<Longrightarrow> k \<in> {PFloat32, PFloat64} \<Longrightarrow> fits k v"
  by (auto simp: conv_float_def split: if_splits json.splits)

lemma conv_composite_fits:
  "conv_composite k arg = Some v \<Longrightarrow> k \<in> {PMap, PSlice, PString} \<Longrightarrow> fits k v"
  by (auto simp: conv_composite_def split: if_splits json.splits)

lemma conv_number_fits:
  assumes "float_int_ok E" "conv_int E k arg = Some v \<or> conv_uint E k arg = Some v"
    and "k \<in> {PInt, PInt8, PInt16, PInt32, PInt64, PUint, PUint8, PUint16, PUint32, PUint64}"
  shows "fits k v"
proof -
  from assms(2) obtain q where "v = VInt k (re_FloatInt E k q)"
    by (auto simp: conv_int_def conv_uint_def split: json.splits)
  moreover have "int_range k (re_FloatInt E k q)" using assms(1,3) unfolding float_int_ok_def by blast
  ultimately show ?thesis by simp
qed

lemma conv_arg_fits:
  assumes "float_int_ok E" "conv_arg E k arg = Some v" "k \<noteq> POther" "k \<noteq> PInterface"
  shows "fits k v"
proof -
  consider "k \<in> {PFloat32, PFloat64}" | "k \<in> {PMap, PSlice, PString}" | "k \<in> {PInt, PInt8, PInt16, PInt32, PInt64}"
    | "k \<in> {PUint, PUint8, PUint16, PUint32, PUint64}"
    using assms(3,4) by (cases k) auto
  then show ?thesis
  proof cases
    case 1
    with assms(2) conv_float_fits [OF _ 1] show ?thesis by (simp add: conv_arg_def)
  next
    case 2
    with assms(2) have "conv_composite k arg = Some v" by (auto simp: conv_arg_def)
    from conv_composite_fits [OF this 2] show ?thesis .
  next
    case 3
    with assms(2) have "conv_int E k arg = Some v" by (auto simp: conv_arg_def)
    with conv_number_fits [OF assms(1)] 3 show ?thesis by blast
  next
    case 4
    with assms(2) have "conv_uint E k arg = Some v" by (auto simp: conv_arg_def)
    with conv_number_fits [OF assms(1)] 4 show ?thesis by blast
  qed
qed

lemma convert_params_fits:
  assumes "float_int_ok E" "\<forall>p \<in> set inputs. callable p"
  shows "convert_params E i inputs args = Inr vs \<Longrightarrow> i + length args \<le> length inputs \<Longrightarrow>
    well_typed (take (length args) (drop i inputs)) vs"
proof (induction args arbitrary: i vs)
  case Nil
  then show ?case by (simp add: well_typed_def)
next
  case (Cons arg args)
  from Cons.prems(1) obtain v ws where v: "conv_arg E (pt_Kind (inputs ! i)) arg = Some v"
    "convert_params E (i + 1) inputs args = Inr ws" "vs = v # ws"
    by (auto split: option.splits sum.splits)
  have i: "i < length inputs" using Cons.prems(2) by simp
  then have "callable (inputs ! i)" using assms(2) by simp
  then have "fits (pt_Kind (inputs ! i)) v" using conv_arg_fits [OF assms(1) v(1)] by (simp add: callable_def)
  with Cons.IH [OF v(2)] Cons.prems(2) v(3) show ?case
    by (simp add: well_typed_def Cons_nth_drop_Suc [OF i, symmetric])
qed

lemma bind_params_typed:
  assumes "float_int_ok E" "\<forall>p \<in> set inputs. callable p" "bind_params E inputs params rid = Inr args"
  shows "well_typed inputs args" "call_ok inputs args"
proof -
  let ?params = "if isOptionalParamUndefined (length params) (length inputs) (hasOptionalInput inputs)
    then params @ [JObj []] else params"
  from assms(3) have conv: "convert_params E 0 inputs ?params = Inr args"
    and len: "length ?params = length inputs"
    by (auto simp: bind_params_def hasValidParamLength_def isOptionalParamUndefined_def Let_def split: sum.splits if_splits)
  show typed: "well_typed inputs args"
    using convert_params_fits [OF assms(1,2) conv] len by (metis add_0 drop0 order_refl take_all)
  have "v \<noteq> VZero" if "fits k v" for k v using that by auto
  with typed assms(2) show "call_ok inputs args"
    unfolding call_ok_def well_typed_def callable_def by (auto simp: list_all2_conv_all_nth)
qed

lemma bind_params_error: "bind_params E inputs params rid = Inl r \<Longrightarrow> \<exists>c m d j. r = ErrorReply c m d j"
  by (auto simp: bind_params_def jsonrpcError_def Let_def split: if_splits sum.splits)

lemma parse_request_error: "parse_request E http body = Inl r \<Longrightarrow> \<exists>c m d j. r = ErrorReply c m d j"
  by (auto simp: parse_request_def jsonrpcError_def split: if_splits request_body.splits option.splits json.splits)

lemma handleEthRequest_reply: "handleEthRequest E mname data \<noteq> Crashed p"
  by (auto simp: handleEthRequest_def jsonrpcError_def rpcCall_def sendRawJson_def split: option.splits json.splits sum.splits)

subsection \<open>What the controller does with a request\<close>

lemma Controller_cases:
  fixes api :: "string \<rightharpoonup> ('w, 'v) api_method"
  assumes "float_int_ok E" "\<forall>m \<in> ran api. \<forall>p \<in> set (am_Inputs m). callable p"
  obtains (called) data rid mname m args where "parse_request E http body = (Inr (data, rid, mname) :: 'v reply + _)"
      "\<not> isStdEthereumRPCMethod mname" "api (re_Title E mname) = Some m" "well_typed (am_Inputs m) args"
      "Controller E api http body w = map_option (\<lambda>(outs, w'). (answer outs rid, Some data, w')) (am_Call m args w)"
  | (refused) c m d j where "Controller E api http body w = Some (ErrorReply c m d j, None, w)"
  | (proxied) data rid mname where "parse_request E http body = (Inr (data, rid, mname) :: 'v reply + _)"
      "isStdEthereumRPCMethod mname" "Controller E api http body w = Some (routeStdEthereumRPCRequest E mname data, None, w)"
proof (cases "parse_request E http body :: 'v reply + _")
  case (Inl r)
  then have "Controller E api http body w = Some (r, None, w)" by (simp add: Controller_def)
  moreover obtain c m d j where "r = ErrorReply c m d j" using parse_request_error [OF Inl] by blast
  ultimately show thesis by (intro refused) simp
next
  case (Inr req)
  obtain data rid mname where req: "req = (data, rid, mname)" by (cases req)
  note parse = Inr [unfolded req]
  show thesis
  proof (cases "isStdEthereumRPCMethod mname")
    case True
    with parse show thesis by (intro proxied) (simp_all add: Controller_def)
  next
    case std: False
    show thesis
    proof (cases "\<exists>params m args. data ''params'' = Some (JArr params) \<and> api (re_Title E mname) = Some m \<and>
        bind_params E (am_Inputs m) params rid = (Inr args :: 'v reply + _)")
      case True
      then obtain params m args where call: "data ''params'' = Some (JArr params)" "api (re_Title E mname) = Some m"
        "bind_params E (am_Inputs m) params rid = (Inr args :: 'v reply + _)" by blast
      have "\<forall>p \<in> set (am_Inputs m). callable p" using assms(2) call(2) by (auto simp: ran_def)
      note typed = bind_params_typed [OF assms(1) this call(3)]
      show thesis
        by (rule called [OF parse std call(2) typed(1)])
          (use parse std call typed(2) in \<open>simp add: Controller_def split: option.splits\<close>)
    next
      case False
      have "\<exists>c m d j. Controller E api http body w = Some (ErrorReply c m d j, None, w)"
        using parse std False bind_params_error
        by (fastforce simp: Controller_def jsonrpcError_def split: option.splits json.splits sum.splits)
      with refused show thesis by blast
    qed
  qed
qed

lemma handleEthCallRequest_missing: "data ''params'' = None \<Longrightarrow> ToLower mname = ''eth_call'' \<Longrightarrow>
    routeStdEthereumRPCRequest E mname data = Crashed ''interface conversion''"
  by (simp add: routeStdEthereumRPCRequest_def handleEthCallRequest_def)

lemma block_param_hex: "block_param [p, JStr ''0x10''] = Inl (jsonrpcError (-32602) ''Invalid params''
    (StrData (''Third parameter should be a block number or 'latest'' @ [CHR 0x27])) JNull)"
  by (simp add: block_param_def ParseInt64_def parse_nat_def digit_value_def)

text \<open>The characters with which a JSON value begins.\<close>

definition json_start :: "char \<Rightarrow> bool" where
  "json_start c \<longleftrightarrow> c \<in> set ''{[-0123456789tfn'' \<or> c = CHR 0x22"

text \<open>
  the reply to a request that is passed on to the node is not JSON when the id of the request is
  null, or a string that does not begin like a JSON value: the id is printed without quotes.
\<close>

lemma proxied_reply_not_json:
  assumes "parse_request E http body = (Inr (data, rid, mname) :: 'v reply + _)"
    and "isStdEthereumRPCMethod mname" "ToLower mname \<noteq> ''eth_call''"
    and "data ''params'' = Some (JArr params)" "re_Call E mname params = Inr raw"
    and "rid = JNull \<or> (\<exists>c s. rid = JStr (c # s) \<and> \<not> json_start c)"
  shows "\<exists>c rest. Controller E (api :: string \<rightharpoonup> ('w, 'v) api_method) http body w
      = Some (RawReply (''{\"result\": '' @ raw @ '', \"jsonrpc\": \"2.0\", \"id\": '' @ c # rest), None, w) \<and> \<not> json_start c"
proof -
  have rid: "data_id data = rid"
    using assms(1) by (auto simp: parse_request_def parseRequestId_def data_id_def split: if_splits request_body.splits
        option.splits json.splits)
  obtain c rest where "format_id E rid @ ''}'' = c # rest" "\<not> json_start c"
    using assms(6) by (auto simp: json_start_def)
  moreover have "Controller E api http body w = Some (RawReply (''{\"result\": '' @ raw @ '', \"jsonrpc\": \"2.0\", \"id\": ''
      @ format_id E rid @ ''}''), None, w)"
    using assms(1-5) rid
    by (simp add: Controller_def routeStdEthereumRPCRequest_def handleEthRequest_def rpcCall_def sendRawJson_def)
  ultimately show ?thesis by fastforce
qed

definition sample_env :: "obj \<Rightarrow> rpc_env" where
  "sample_env data = eth_lib.extend eth_ref
     \<lparr>re_Unmarshal = \<lambda>s. Some data, re_Title = \<lambda>s. (case s of [] \<Rightarrow> [] | c # cs \<Rightarrow> (if c = CHR ''e'' then CHR ''E'' else c) # cs),
      re_FloatInt = \<lambda>k q. (if int_range k (rat_trunc q) then rat_trunc q else 0), re_Format = \<lambda>j. ''1'',
      re_Call = \<lambda>m ps. Inr ''1'', re_CallContract = \<lambda>a d n. Inr []\<rparr>"

lemma sample_env_simps:
  "re_Unmarshal (sample_env data) s = Some data" "re_Title (sample_env data) (CHR ''e'' # s) = CHR ''E'' # s"
  "re_Call (sample_env data) m ps = Inr ''1''"
  "re_FloatInt (sample_env data) k q = (if int_range k (rat_trunc q) then rat_trunc q else 0)"
  by (simp_all add: sample_env_def eth_lib.defs)

lemma sample_env_ok: "float_int_ok (sample_env data)"
  unfolding float_int_ok_def sample_env_simps by (simp add: int_range_def)

lemma proxied_reply_not_json_example:
  "\<exists>c rest. Controller (sample_env [''id'' \<mapsto> JStr ''a'', ''jsonrpc'' \<mapsto> JStr ''2.0'', ''method'' \<mapsto> JStr ''eth_blockNumber'',
        ''params'' \<mapsto> JArr []]) (Map.empty :: string \<rightharpoonup> (unit, unit) api_method) ''POST'' (Body '''') ()
      = Some (RawReply (''{\"result\": '' @ ''1'' @ '', \"jsonrpc\": \"2.0\", \"id\": '' @ c # rest), None, ()) \<and> \<not> json_start c"
proof (rule proxied_reply_not_json)
  let ?data = "[''id'' \<mapsto> JStr ''a'', ''jsonrpc'' \<mapsto> JStr ''2.0'', ''method'' \<mapsto> JStr ''eth_blockNumber'', ''params'' \<mapsto> JArr []]"
  show "parse_request (sample_env ?data) ''POST'' (Body '''') = (Inr (?data, JStr ''a'', ''eth_blockNumber'') :: unit reply + _)"
    by (simp add: parse_request_def sample_env_simps parseRequestId_def)
  show "isStdEthereumRPCMethod ''eth_blockNumber''" by (simp add: isStdEthereumRPCMethod_def bundlerMethods_def ToLower_def lower_char_def)
  show "ToLower ''eth_blockNumber'' \<noteq> ''eth_call''" by (simp add: ToLower_def lower_char_def)
qed (simp_all add: sample_env_simps json_start_def)

end
