(* ===== verification/Rpc_Adapter.thy ===== *)
theory Rpc_Adapter
  imports JsonRpc
begin

text \<open>
  \<open>pkg/client/rpc.go\<close>: the API object of the controller. Each method passes its arguments on to the
  client or, when debug mode is enabled, to the debug methods. \<open>rpc_api\<close> is the method table that
  reflection gives, with the named map types \<open>userOperation\<close> and \<open>optional_stateOverride\<close>, to which
  plain maps can be assigned. The state is that of the bundler with the pool in it.
\<close>

datatype 'log rpc_value =
    RNil
  | RString string
  | REstimates gas_estimates
  | RReceipt "'log user_op_receipt"
  | RLookup hash_lookup_result
  | RStrings "string list"
  | RObjs "obj list"
  | RInfo "obj list" obj

record ('d, 's, 'x, 'log) rpc_adapter =
  ra_client :: "(('d, 's, 'x) mempool_scheme, 'log) client"
  ra_debug :: "debug option"
  ra_bundler :: "('d, 's, 'x) mempool_scheme bundler"
  ra_badger :: "'d badger"
  ra_sset :: "'s sset"
  ra_IsHexAddress :: "string \<Rightarrow> bool"
  ra_decode_account :: "json \<Rightarrow> override_account res"

text \<open>The two results of a method: a value and an error.\<close>

fun outs :: "('a \<Rightarrow> 'v rpc_value) \<Rightarrow> 'a res \<Rightarrow> 'v rpc_value go_out list" where
  "outs f (Inr v) = [OutVal (f v), OutErr None]"
| "outs f (Inl err) = [OutVal RNil, OutErr (Some err)]"

type_synonym ('d, 's, 'x, 'log) rpc_call =
  "('d, 's, 'x) mempool_scheme run_state \<Rightarrow> ('log rpc_value go_out list \<times> ('d, 's, 'x) mempool_scheme run_state) option"

definition debug_disabled :: go_error where
  "debug_disabled = GoError ''rpc: debug mode is not enabled''"

definition Eth_sendUserOperation :: "'y userop_lib_scheme \<Rightarrow> ('d, 's, 'x, 'log) rpc_adapter \<Rightarrow> (string \<times> json) list \<Rightarrow> string \<Rightarrow>
    ('d, 's, 'x, 'log) rpc_call" where
  "Eth_sendUserOperation L r op ep s =
     (let (res, w) = SendUserOperation L (ra_badger r) (ra_sset r) (ra_client r) (map_of op) ep (rs_world s)
      in Some (outs RString res, s\<lparr>rs_world := w\<rparr>))"

definition Eth_estimateUserOperationGas :: "'y userop_lib_scheme \<Rightarrow> ('d, 's, 'x, 'log) rpc_adapter \<Rightarrow> (string \<times> json) list \<Rightarrow>
    string \<Rightarrow> (string \<times> json) list \<Rightarrow> ('d, 's, 'x, 'log) rpc_call" where
  "Eth_estimateUserOperationGas L r op ep os s =
     (case EstimateUserOperationGas L (ra_IsHexAddress r) (ra_decode_account r) (ra_client r) (map_of op) ep os of
        None \<Rightarrow> None
      | Some res \<Rightarrow> Some (outs REstimates res, s))"

definition Eth_getUserOperationReceipt :: "('d, 's, 'x, 'log) rpc_adapter \<Rightarrow> string \<Rightarrow> ('d, 's, 'x, 'log) rpc_call" where
  "Eth_getUserOperationReceipt r userOpHash s =
     Some (outs RReceipt (client_GetUserOperationReceipt (ra_badger r) (ra_client r) userOpHash (rs_world s)), s)"

definition Eth_getUserOperationByHash :: "('d, 's, 'x, 'log) rpc_adapter \<Rightarrow> string \<Rightarrow> ('d, 's, 'x, 'log) rpc_call" where
  "Eth_getUserOperationByHash r userOpHash s =
     Some (outs RLookup (client_GetUserOperationByHash (ra_client r) userOpHash), s)"

definition Eth_supportedEntryPoints :: "'y eth_lib_scheme \<Rightarrow> ('d, 's, 'x, 'log) rpc_adapter \<Rightarrow> ('d, 's, 'x, 'log) rpc_call" where
  "Eth_supportedEntryPoints L r s = Some (outs RStrings (Inr (SupportedEntryPoints L (ra_client r))), s)"

definition Eth_chainId :: "'y eth_lib_scheme \<Rightarrow> ('d, 's, 'x, 'log) rpc_adapter \<Rightarrow> ('d, 's, 'x, 'log) rpc_call" where
  "Eth_chainId L r s = Some (outs RString (Inr (client_ChainID L (ra_client r))), s)"

definition Debug_bundler_clearState :: "('d, 's, 'x, 'log) rpc_adapter \<Rightarrow> ('d, 's, 'x, 'log) rpc_call" where
  "Debug_bundler_clearState r s =
     (case ra_debug r of
        None \<Rightarrow> Some (outs RString (Inl debug_disabled), s)
      | Some dbg \<Rightarrow>
          (let (res, w) = ClearState (ra_badger r) (rs_world s) in Some (outs RString res, s\<lparr>rs_world := w\<rparr>)))"

definition Debug_bundler_dumpMempool :: "'y userop_lib_scheme \<Rightarrow> ('d, 's, 'x, 'log) rpc_adapter \<Rightarrow> string \<Rightarrow>
    ('d, 's, 'x, 'log) rpc_call" where
  "Debug_bundler_dumpMempool L r ep s =
     (case ra_debug r of
        None \<Rightarrow> Some (outs RObjs (Inl debug_disabled), s)
      | Some dbg \<Rightarrow>
          (let (ms, w) = DumpMempool L (ra_sset r) ep (rs_world s) in Some (outs RObjs (Inr ms), s\<lparr>rs_world := w\<rparr>)))"

definition DebugDumpBundlerState :: "'y userop_lib_scheme \<Rightarrow> ('d, 's, 'x, 'log) rpc_adapter \<Rightarrow> ('d, 's, 'x, 'log) rpc_call" where
  "DebugDumpBundlerState L r s =
     (case ra_debug r of
        None \<Rightarrow> Some (outs RString (Inl debug_disabled), s)
      | Some dbg \<Rightarrow>
          (let (ms, info, w) = DumpDebugInfo L (ra_sset r) dbg (rs_world s)
           in Some (outs (\<lambda>(ms, info). RInfo ms info) (Inr (ms, info)), s\<lparr>rs_world := w\<rparr>)))"

definition Debug_bundler_sendBundleNow :: "'y userop_lib_scheme \<Rightarrow> ('d, 's, 'x, 'log) rpc_adapter \<Rightarrow>
    ('d, 's, 'x, 'log) rpc_call" where
  "Debug_bundler_sendBundleNow L r s =
     (case ra_debug r of
        None \<Rightarrow> Some (outs RString (Inl debug_disabled), s)
      | Some dbg \<Rightarrow>
          (case SendBundleNow L (ra_badger r) (ra_sset r) (ra_bundler r) (rs_runs s) dbg (rs_world s) of
             None \<Rightarrow> None
           | Some (res, w) \<Rightarrow> Some (outs RString res, s\<lparr>rs_world := w, rs_runs := rs_runs s + 1\<rparr>)))"

definition Debug_bundler_setBundlingMode :: "('d, 's, 'x, 'log) rpc_adapter \<Rightarrow> string \<Rightarrow> ('d, 's, 'x, 'log) rpc_call" where
  "Debug_bundler_setBundlingMode r mode s =
     (case ra_debug r of
        None \<Rightarrow> Some (outs RString (Inl debug_disabled), s)
      | Some dbg \<Rightarrow> (let (res, s) = SetBundlingMode mode s in Some (outs RString res, s)))"

subsection \<open>The mname table\<close>

definition string_input :: param_type where
  "string_input = \<lparr>pt_Kind = PString, pt_Name = ''string'', pt_Assignable = True\<rparr>"

definition userOperation :: param_type where
  "userOperation = \<lparr>pt_Kind = PMap, pt_Name = ''userOperation'', pt_Assignable = True\<rparr>"

definition optional_stateOverride :: param_type where
  "optional_stateOverride = \<lparr>pt_Kind = PMap, pt_Name = ''optional_stateOverride'', pt_Assignable = True\<rparr>"

definition rpc_api :: "'y userop_lib_scheme \<Rightarrow> ('d, 's, 'x, 'log) rpc_adapter \<Rightarrow>
    string \<rightharpoonup> (('d, 's, 'x) mempool_scheme run_state, 'log rpc_value) api_method" where
  "rpc_api L r = map_of
     [(''Eth_sendUserOperation'', \<lparr>am_Inputs = [userOperation, string_input],
         am_Call = \<lambda>args s. case args of [VMap op, VString ep] \<Rightarrow> Eth_sendUserOperation L r op ep s | _ \<Rightarrow> None\<rparr>),
      (''Eth_estimateUserOperationGas'', \<lparr>am_Inputs = [userOperation, string_input, optional_stateOverride],
         am_Call = \<lambda>args s. case args of [VMap op, VString ep, VMap os] \<Rightarrow> Eth_estimateUserOperationGas L r op ep os s | _ \<Rightarrow> None\<rparr>),
      (''Eth_getUserOperationReceipt'', \<lparr>am_Inputs = [string_input],
         am_Call = \<lambda>args s. case args of [VString h] \<Rightarrow> Eth_getUserOperationReceipt r h s | _ \<Rightarrow> None\<rparr>),
      (''Eth_getUserOperationByHash'', \<lparr>am_Inputs = [string_input],
         am_Call = \<lambda>args s. case args of [VString h] \<Rightarrow> Eth_getUserOperationByHash r h s | _ \<Rightarrow> None\<rparr>),
      (''Eth_supportedEntryPoints'', \<lparr>am_Inputs = [],
         am_Call = \<lambda>args s. case args of [] \<Rightarrow> Eth_supportedEntryPoints L r s | _ \<Rightarrow> None\<rparr>),
      (''Eth_chainId'', \<lparr>am_Inputs = [],
         am_Call = \<lambda>args s. case args of [] \<Rightarrow> Eth_chainId L r s | _ \<Rightarrow> None\<rparr>),
      (''Debug_bundler_clearState'', \<lparr>am_Inputs = [],
         am_Call = \<lambda>args s. case args of [] \<Rightarrow> Debug_bundler_clearState r s | _ \<Rightarrow> None\<rparr>),
      (''Debug_bundler_dumpMempool'', \<lparr>am_Inputs = [string_input],
         am_Call = \<lambda>args s. case args of [VString ep] \<Rightarrow> Debug_bundler_dumpMempool L r ep s | _ \<Rightarrow> None\<rparr>),
      (''DebugDumpBundlerState'', \<lparr>am_Inputs = [],
         am_Call = \<lambda>args s. case args of [] \<Rightarrow> DebugDumpBundlerState L r s | _ \<Rightarrow> None\<rparr>),
      (''Debug_bundler_sendBundleNow'', \<lparr>am_Inputs = [],
         am_Call = \<lambda>args s. case args of [] \<Rightarrow> Debug_bundler_sendBundleNow L r s | _ \<Rightarrow> None\<rparr>),
      (''Debug_bundler_setBundlingMode'', \<lparr>am_Inputs = [string_input],
         am_Call = \<lambda>args s. case args of [VString mode] \<Rightarrow> Debug_bundler_setBundlingMode r mode s | _ \<Rightarrow> None\<rparr>)]"

lemmas rpc_inputs = string_input_def userOperation_def optional_stateOverride_def

text \<open>The names of the methods with what remains of a call when the arguments have the types of the inputs.\<close>

lemma fits_PMap: "fits PMap v \<longleftrightarrow> (\<exists>kvs. v = VMap kvs)"
  by (cases v) (auto simp: int_range_def)

lemma fits_PString: "fits PString v \<longleftrightarrow> (\<exists>s. v = VString s)"
  by (cases v) (auto simp: int_range_def)

lemma rpc_api_callable:
  assumes "m \<in> ran (rpc_api L r)"
  shows "\<forall>p \<in> set (am_Inputs m). callable p"
proof -
  from assms obtain name where "rpc_api L r name = Some m" by (auto simp: ran_def)
  from map_of_SomeD [OF this [unfolded rpc_api_def]] show ?thesis
    by (simp only: list.set insert_iff empty_iff prod.inject) (elim disjE conjE FalseE; simp add: rpc_inputs callable_def)
qed

lemmas rpc_methods = Eth_sendUserOperation_def Eth_getUserOperationReceipt_def Eth_getUserOperationByHash_def
  Eth_supportedEntryPoints_def Eth_chainId_def Debug_bundler_clearState_def Debug_bundler_dumpMempool_def
  DebugDumpBundlerState_def Debug_bundler_setBundlingMode_def

lemma rpc_methods_return [simp]:
  "Eth_sendUserOperation L r op ep s \<noteq> None" "Eth_getUserOperationReceipt r h s \<noteq> None"
  "Eth_getUserOperationByHash r h s \<noteq> None" "Eth_supportedEntryPoints L r s \<noteq> None" "Eth_chainId L r s \<noteq> None"
  "Debug_bundler_clearState r s \<noteq> None" "Debug_bundler_dumpMempool L r ep s \<noteq> None"
  "DebugDumpBundlerState L r s \<noteq> None" "Debug_bundler_setBundlingMode r mode s \<noteq> None"
  by (simp_all add: rpc_methods case_prod_unfold Let_def split: option.splits)

lemma rpc_api_calls:
  assumes "rpc_api L r name = Some m" "well_typed (am_Inputs m) args" "am_Call m args s = None"
  shows "(\<exists>op ep os. Eth_estimateUserOperationGas L r op ep os s = None) \<or> Debug_bundler_sendBundleNow L r s = None"
  using map_of_SomeD [OF assms(1) [unfolded rpc_api_def]] assms(2,3)
  by (simp only: list.set insert_iff empty_iff prod.inject)
    (elim disjE conjE FalseE; auto simp: rpc_inputs well_typed_def list_all2_Cons1 fits_PMap fits_PString; blast)

subsection \<open>What the controller does with a request to the bundler\<close>

lemma Controller_calls:
  fixes r :: "('d, 's, 'x, 'log) rpc_adapter"
  assumes "float_int_ok E"
  shows "case Controller E (rpc_api L r) http body s of
      None \<Rightarrow> (\<exists>op ep os. Eth_estimateUserOperationGas L r op ep os s = None) \<or> Debug_bundler_sendBundleNow L r s = None
    | Some (rep, ctx, s') \<Rightarrow>
        (\<exists>data rid mname m args outs.
           parse_request E http body = (Inr (data, rid, mname) :: 'log rpc_value reply + _) \<and>
           \<not> isStdEthereumRPCMethod mname \<and> rpc_api L r (re_Title E mname) = Some m \<and> well_typed (am_Inputs m) args \<and>
           am_Call m args s = Some (outs, s') \<and> rep = answer outs rid \<and> ctx = Some data) \<or>
        s' = s \<and> ctx = None \<and> (\<forall>p. rep = Crashed p \<longrightarrow> (\<exists>data rid mname.
           parse_request E http body = (Inr (data, rid, mname) :: 'log rpc_value reply + _) \<and> ToLower mname = ''eth_call''))"
proof -
  have callable: "\<forall>m \<in> ran (rpc_api L r). \<forall>p \<in> set (am_Inputs m). callable p" using rpc_api_callable by blast
  show ?thesis
    using assms callable
  proof (cases rule: Controller_cases [of E "rpc_api L r" http body s])
    case (called data rid mname m args)
    show ?thesis
    proof (cases "am_Call m args s")
      case None
      with called(5) rpc_api_calls [OF called(3,4) None] show ?thesis by simp
    next
      case (Some res)
      obtain vs s' where "res = (vs, s')" by (cases res)
      with Some called(5) have "Controller E (rpc_api L r) http body s = Some (answer vs rid, Some data, s')"
        "am_Call m args s = Some (vs, s')" by simp_all
      with called(1-4) show ?thesis by (simp only: option.case prod.case) blast
    qed
  next
    case (refused c m d j)
    then show ?thesis by simp
  next
    case (proxied data rid mname)
    have "ToLower mname = ''eth_call''" if "routeStdEthereumRPCRequest E mname data = (Crashed p :: 'log rpc_value reply)" for p
      using that handleEthRequest_reply [of E mname data p] by (auto simp: routeStdEthereumRPCRequest_def split: if_splits)
    with proxied show ?thesis by (simp only: option.case prod.case) blast
  qed
qed

text \<open>The debug dump is a method of the adapter that no request reaches.\<close>

lemma DebugDumpBundlerState_unreachable:
  assumes "\<And>s. ToLower (re_Title E s) = ToLower s" "re_Title E mname = ''DebugDumpBundlerState''"
  shows "isStdEthereumRPCMethod mname"
proof -
  have "ToLower mname = ''debugdumpbundlerstate''"
    using assms(1) [of mname, unfolded assms(2)] by (rule trans [OF sym]) code_simp
  then show ?thesis by (simp add: isStdEthereumRPCMethod_def bundlerMethods_def)
qed

end
