(* ===== verification/Server.thy ===== *)
theory Server
  imports Rpc_Adapter
begin

text \<open>
  The HTTP server that \<open>internal/start\<close> puts around the controller: its routes, the middleware in the
  order in which it is installed (\<open>cors\<close>, the logger of \<open>internal/logger\<close>, \<open>gin.Recovery\<close>) and the two
  handlers of a request. What \<open>gin\<close> does with a path that has no route, what \<open>cors\<close> answers by
  itself, \<open>net.ParseIP\<close> and the size of a response are parameters; so are the times before and after
  the handlers. A response has the reply of the controller, if any, and the attribute that the span of
  OpenTelemetry gets.
\<close>

record http_request =
  hr_Method :: string
  hr_Path :: string
  hr_RawQuery :: string
  hr_ForwardedFor :: string
  hr_ClientIP :: string
  hr_Body :: request_body

record 'v http_response =
  hp_Status :: nat
  hp_Body :: "'v reply option"
  hp_Attribute :: "string option"

record 'v http_lib =
  hl_Redirect :: "http_request \<Rightarrow> nat option"
  hl_Cors :: "http_request \<Rightarrow> nat option"
  hl_ParseIP :: "string \<Rightarrow> bool"
  hl_Size :: "'v http_response \<Rightarrow> int"

record log_entry =
  le_client_id :: string
  le_method :: string
  le_status_code :: nat
  le_body_size :: int
  le_path :: string
  le_latency :: int
  le_rpc_method :: "json option"
  le_error :: bool

subsection \<open>The middleware\<close>

definition GetClientIPFromXFF :: "'v http_lib \<Rightarrow> http_request \<Rightarrow> string" where
  "GetClientIPFromXFF H r =
     (let firstAddress = hd (Split1 (hr_ForwardedFor r) (CHR '','')) in
      if hl_ParseIP H (TrimSpace firstAddress) then firstAddress else hr_ClientIP r)"

text \<open>A latency of more than a minute is cut to whole seconds; times are in nanoseconds.\<close>

definition log_latency :: "int \<Rightarrow> int \<Rightarrow> int" where
  "log_latency began ended = (let d = ended - began in if d > 60 * 10 ^ 9 then d - d mod 10 ^ 9 else d)"

definition WithLogr :: "'v http_lib \<Rightarrow> int \<Rightarrow> int \<Rightarrow> http_request \<Rightarrow> 'v http_response \<Rightarrow> obj option \<Rightarrow> log_entry" where
  "WithLogr H began ended r resp ctx =
     \<lparr>le_client_id = GetClientIPFromXFF H r, le_method = hr_Method r, le_status_code = hp_Status resp,
      le_body_size = hl_Size H resp,
      le_path = (if hr_RawQuery r \<noteq> '''' then hr_Path r @ ''?'' @ hr_RawQuery r else hr_Path r),
      le_latency = log_latency began ended,
      le_rpc_method = (case ctx of None \<Rightarrow> None | Some data \<Rightarrow> Some (case data ''method'' of None \<Rightarrow> JNull | Some j \<Rightarrow> j)),
      le_error = (500 \<le> hp_Status resp)\<rparr>"

definition WithOTELTracerAttributes :: "obj option \<Rightarrow> string option res" where
  "WithOTELTracerAttributes ctx =
     (case ctx of
        None \<Rightarrow> Inr None
      | Some data \<Rightarrow> (case data ''method'' of Some (JStr mname) \<Rightarrow> Inr (Some mname) | _ \<Rightarrow> Inl (Panicked ''interface conversion'')))"

subsection \<open>The handlers\<close>

text \<open>
  A handler that panics before it has written a response is answered by \<open>gin.Recovery\<close> with status 500;
  the status of a response that has been written stays. An error reply aborts the chain of handlers.
\<close>

definition rpc_handlers :: "'y rpc_env_scheme \<Rightarrow> (string \<rightharpoonup> ('w, 'v) api_method) \<Rightarrow> http_request \<Rightarrow> 'w \<Rightarrow>
    ('v http_response \<times> obj option \<times> 'w) option" where
  "rpc_handlers E api r w =
     (case Controller E api (hr_Method r) (hr_Body r) w of
        None \<Rightarrow> None
      | Some (rep, ctx, w) \<Rightarrow>
          Some (case rep of
             Crashed p \<Rightarrow> \<lparr>hp_Status = 500, hp_Body = None, hp_Attribute = None\<rparr>
           | ErrorReply code message data rid \<Rightarrow> \<lparr>hp_Status = 200, hp_Body = Some rep, hp_Attribute = None\<rparr>
           | _ \<Rightarrow> \<lparr>hp_Status = 200, hp_Body = Some rep, hp_Attribute =
                     (case WithOTELTracerAttributes ctx of Inl err \<Rightarrow> None | Inr attribute \<Rightarrow> attribute)\<rparr>,
           ctx, w))"

datatype route = Ping | Rpc

definition find_route :: "http_request \<Rightarrow> route option" where
  "find_route r =
     (if hr_Method r = ''GET'' \<and> hr_Path r = ''/ping'' then Some Ping
      else if hr_Method r = ''POST'' \<and> hr_Path r \<in> {''/'', ''/rpc''} then Some Rpc
      else None)"

definition run_route :: "'y rpc_env_scheme \<Rightarrow> (string \<rightharpoonup> ('w, 'v) api_method) \<Rightarrow> http_request \<Rightarrow> 'w \<Rightarrow>
    ('v http_response \<times> obj option \<times> 'w) option" where
  "run_route E api r w =
     (case find_route r of
        None \<Rightarrow> Some (\<lparr>hp_Status = 404, hp_Body = None, hp_Attribute = None\<rparr>, None, w)
      | Some Ping \<Rightarrow> Some (\<lparr>hp_Status = 200, hp_Body = None, hp_Attribute = None\<rparr>, None, w)
      | Some Rpc \<Rightarrow> rpc_handlers E api r w)"

definition serve :: "'v http_lib \<Rightarrow> 'y rpc_env_scheme \<Rightarrow> (string \<rightharpoonup> ('w, 'v) api_method) \<Rightarrow> int \<Rightarrow> int \<Rightarrow>
    http_request \<Rightarrow> 'w \<Rightarrow> ('v http_response \<times> log_entry option \<times> 'w) option" where
  "serve H E api began ended r w =
     (case if find_route r = None then hl_Redirect H r else None of
        Some status \<Rightarrow> Some (\<lparr>hp_Status = status, hp_Body = None, hp_Attribute = None\<rparr>, None, w)
      | None \<Rightarrow>
          (case hl_Cors H r of
             Some status \<Rightarrow> Some (\<lparr>hp_Status = status, hp_Body = None, hp_Attribute = None\<rparr>, None, w)
           | None \<Rightarrow> map_option (\<lambda>(resp, ctx, w). (resp, Some (WithLogr H began ended r resp ctx), w)) (run_route E api r w)))"

subsection \<open>Properties\<close>

lemma parse_request_method:
  "parse_request E http body = (Inr (data, rid, mname) :: 'v reply + _) \<Longrightarrow> http = ''POST'' \<and> data ''method'' = Some (JStr mname)"
  by (auto simp: parse_request_def split: if_splits request_body.splits option.splits json.splits)

lemma find_route_Rpc: "find_route req = Some Rpc \<Longrightarrow> hr_Method req = ''POST''"
  by (auto simp: find_route_def split: if_splits)

lemma serve_elsewhere:
  "find_route req \<noteq> Some Rpc \<or> hl_Cors H req \<noteq> None \<Longrightarrow> \<exists>resp entry. serve H E api began ended req w = Some (resp, entry, w) \<and>
     (\<forall>e. entry = Some e \<longrightarrow> le_rpc_method e = None)"
  by (cases "find_route req"; cases "hl_Cors H req"; cases "hl_Redirect H req"; cases "the (find_route req)")
    (auto simp: serve_def run_route_def WithLogr_def)

lemma serve_rpc:
  "find_route req = Some Rpc \<Longrightarrow> hl_Cors H req = None \<Longrightarrow> serve H E api began ended req w =
     map_option (\<lambda>(resp, ctx, w). (resp, Some (WithLogr H began ended req resp ctx), w)) (rpc_handlers E api req w)"
  by (simp add: serve_def run_route_def)

lemma serve_changes:
  assumes "serve H E api began ended req w = Some (resp, entry, w')" "w' \<noteq> w"
  shows "\<exists>rep ctx. Controller E api (hr_Method req) (hr_Body req) w = Some (rep, ctx, w')"
proof -
  have rpc: "find_route req = Some Rpc \<and> hl_Cors H req = None"
    using serve_elsewhere [of req H E api began ended w] assms by (auto simp del: not_None_eq)
  with assms(1) show ?thesis
    by (auto simp: serve_rpc rpc_handlers_def split: option.splits)
qed

text \<open>The response to the reply of the controller; the attribute never fails, since the method is a text.\<close>

definition reply_response :: "string option \<Rightarrow> 'v reply \<Rightarrow> 'v http_response" where
  "reply_response mname rep =
     (case rep of
        Crashed p \<Rightarrow> \<lparr>hp_Status = 500, hp_Body = None, hp_Attribute = None\<rparr>
      | ErrorReply c msg d j \<Rightarrow> \<lparr>hp_Status = 200, hp_Body = Some rep, hp_Attribute = None\<rparr>
      | _ \<Rightarrow> \<lparr>hp_Status = 200, hp_Body = Some rep, hp_Attribute = mname\<rparr>)"

lemma rpc_handlers_reply:
  assumes "Controller E api (hr_Method req) (hr_Body req) w = Some (rep, ctx, w')"
    and "WithOTELTracerAttributes ctx = Inr mname"
  shows "rpc_handlers E api req w = Some (reply_response mname rep, ctx, w')"
  using assms by (simp add: rpc_handlers_def reply_response_def split: reply.splits)

lemma reply_response_status:
  "(\<exists>p. rep = Crashed p) \<and> hp_Status (reply_response mname rep) = 500 \<or>
   hp_Status (reply_response mname rep) = 200 \<and> hp_Body (reply_response mname rep) = Some rep"
  by (cases rep) (simp_all add: reply_response_def)


definition sample_adapter :: "((string \<times> db_value) list, user_op node list, unit, unit) rpc_adapter" where
  "sample_adapter = \<lparr>ra_client = sample_client, ra_debug = None, ra_bundler = sample_bundler, ra_badger = badger_ref,
     ra_sset = sortedset_ref, ra_IsHexAddress = \<lambda>s. True, ra_decode_account = \<lambda>j. Inl (GoError '''')\<rparr>"

definition chainId_request :: obj where
  "chainId_request = [''id'' \<mapsto> JNum 1, ''jsonrpc'' \<mapsto> JStr ''2.0'', ''method'' \<mapsto> JStr ''eth_chainId'', ''params'' \<mapsto> JArr []]"

definition plain_http :: "'v http_lib" where
  "plain_http = \<lparr>hl_Redirect = \<lambda>r. None, hl_Cors = \<lambda>r. None, hl_ParseIP = \<lambda>s. False, hl_Size = \<lambda>r. 0\<rparr>"

definition rpc_post :: "string \<Rightarrow> http_request" where
  "rpc_post path = \<lparr>hr_Method = ''POST'', hr_Path = path, hr_RawQuery = '''', hr_ForwardedFor = '''', hr_ClientIP = ''::1'', hr_Body = Body ''''\<rparr>"


end
