(* ===== verification/Config.thy ===== *)
theory Config
  imports Ext
begin

text \<open>
  \<open>internal/config\<close> and \<open>pkg/signer\<close>: the account of the bundler, the chain identifiers and the values read from the environment. The package
  \<open>viper\<close> is a parameter: a store with its setters and getters. A \<open>panic\<close> of \<open>GetValues\<close> is an error
  \<open>Panicked\<close>.
\<close>

subsection \<open>constants.go\<close>

definition EthereumChainID :: int where "EthereumChainID = 1"
definition GoerliChainID :: int where "GoerliChainID = 5"
definition SepoliaChainID :: int where "SepoliaChainID = 11155111"
definition ArbitrumOneChainID :: int where "ArbitrumOneChainID = 42161"
definition ArbitrumGoerliChainID :: int where "ArbitrumGoerliChainID = 421613"
definition ArbitrumSepoliaChainID :: int where "ArbitrumSepoliaChainID = 421614"
definition OptimismChainID :: int where "OptimismChainID = 10"
definition OptimismGoerliChainID :: int where "OptimismGoerliChainID = 420"
definition OptimismSepoliaChainID :: int where "OptimismSepoliaChainID = 11155420"
definition BaseChainID :: int where "BaseChainID = 8453"
definition BaseGoerliChainID :: int where "BaseGoerliChainID = 84531"
definition BaseSepoliaChainID :: int where "BaseSepoliaChainID = 84532"
definition LyraChainID :: int where "LyraChainID = 957"
definition LyraSepoliaChainID :: int where "LyraSepoliaChainID = 902"

subsection \<open>The account (\<open>pkg/signer\<close>)\<close>

text \<open>Keys are the numbers of \<open>crypto/ecdsa\<close>; parsing one and deriving its address are parameters.\<close>

record crypto =
  HexToECDSA :: "string \<Rightarrow> int res"
  PubkeyToAddress :: "int \<Rightarrow> address"

record EOA =
  eoa_PrivateKey :: int
  eoa_Address :: address

definition New_signer :: "crypto \<Rightarrow> string \<Rightarrow> EOA res" where
  "New_signer K pk =
     bind_res (HexToECDSA K pk) (\<lambda>privateKey.
       Inr \<lparr>eoa_PrivateKey = privateKey, eoa_Address = PubkeyToAddress K privateKey\<rparr>)"

subsection \<open>values.go\<close>

record conf =
  PrivateKey :: string
  EthClientUrl :: string
  Port :: int
  DataDirectory :: string
  cf_SupportedEntryPoints :: "address list"
  MaxVerificationGas :: int
  MaxBatchGasLimit :: int
  MaxOpTTL :: int
  MaxOpsForUnstakedSender :: int
  Beneficiary :: string
  SolverUrl :: string
  EthBuilderUrls :: "string list"
  BlocksInTheFuture :: int
  OTELServiceName :: string
  OTELCollectorHeaders :: "string \<rightharpoonup> string"
  OTELCollectorUrl :: string
  OTELInsecureMode :: bool
  AltMempoolIPFSGateway :: string
  AltMempoolIds :: "string list"
  DebugMode :: bool
  GinMode :: string

fun read_pairs :: "string list \<Rightarrow> (string \<rightharpoonup> string) \<Rightarrow> (string \<rightharpoonup> string)" where
  "read_pairs [] out = out"
| "read_pairs (pair # ps) out =
     (case Split1 pair (CHR ''='') of
        [k, v] \<Rightarrow> read_pairs ps (out(k \<mapsto> v))
      | _ \<Rightarrow> out)"

definition envKeyValStringToMap :: "string \<Rightarrow> (string \<rightharpoonup> string)" where
  "envKeyValStringToMap s = read_pairs (Split1 s (CHR ''&'')) Map.empty"

definition envArrayToAddressSlice :: "'y eth_lib_scheme \<Rightarrow> string \<Rightarrow> address list" where
  "envArrayToAddressSlice L s = map (\<lambda>ep. HexToAddress L (TrimSpace ep)) (Split1 s (CHR '',''))"

definition envArrayToStringSlice :: "string \<Rightarrow> string list" where
  "envArrayToStringSlice s = (if s = '''' then [] else Split1 s (CHR '',''))"

datatype cfg_value = CfgInt int | CfgStr string | CfgBool bool

text \<open>\<open>vp_ReadInConfig\<close> answers with an error and whether it says that there is no file.\<close>

record 'v viper =
  vp_SetDefault :: "string \<Rightarrow> cfg_value \<Rightarrow> 'v \<Rightarrow> 'v"
  vp_ReadInConfig :: "'v \<Rightarrow> (go_error \<times> bool) option \<times> 'v"
  vp_BindEnv :: "string \<Rightarrow> 'v \<Rightarrow> 'v"
  vp_IsSet :: "'v \<Rightarrow> string \<Rightarrow> bool"
  vp_GetString :: "'v \<Rightarrow> string \<Rightarrow> string"
  vp_GetInt :: "'v \<Rightarrow> string \<Rightarrow> int"
  vp_GetBool :: "'v \<Rightarrow> string \<Rightarrow> bool"
  vp_GetDuration :: "'v \<Rightarrow> string \<Rightarrow> int"

definition variableNotSetOrIsNil :: "'v viper \<Rightarrow> 'v \<Rightarrow> string \<Rightarrow> bool" where
  "variableNotSetOrIsNil V v env \<longleftrightarrow> \<not> vp_IsSet V v env \<or> vp_GetString V v env = ''''"

definition default_values :: "(string \<times> cfg_value) list" where
  "default_values =
     [(''erc4337_bundler_port'', CfgInt 4337),
      (''erc4337_bundler_data_directory'', CfgStr ''/tmp/stackup_bundler''),
      (''erc4337_bundler_supported_entry_points'', CfgStr ''0x5FF137D4b0FDCD49DcA30c7CF57E578a026d2789''),
      (''erc4337_bundler_max_verification_gas'', CfgInt 3000000),
      (''erc4337_bundler_max_batch_gas_limit'', CfgInt 25000000),
      (''erc4337_bundler_max_op_ttl_seconds'', CfgInt 180),
      (''erc4337_bundler_max_ops_for_unstaked_sender'', CfgInt 4),
      (''erc4337_bundler_blocks_in_the_future'', CfgInt 6),
      (''erc4337_bundler_otel_insecure_mode'', CfgBool False),
      (''erc4337_bundler_debug_mode'', CfgBool False),
      (''erc4337_bundler_gin_mode'', CfgStr ''release''),
      (''solver_url'', CfgStr ''http://localhost:7322/solve'')]"

definition bound_variables :: "string list" where
  "bound_variables =
     [''erc4337_bundler_eth_client_url'', ''erc4337_bundler_private_key'', ''erc4337_bundler_port'',
      ''erc4337_bundler_data_directory'', ''erc4337_bundler_supported_entry_points'', ''erc4337_bundler_beneficiary'',
      ''erc4337_bundler_max_verification_gas'', ''erc4337_bundler_max_batch_gas_limit'',
      ''erc4337_bundler_max_op_ttl_seconds'', ''erc4337_bundler_max_ops_for_unstaked_sender'',
      ''erc4337_bundler_eth_builder_urls'', ''erc4337_bundler_blocks_in_the_future'',
      ''erc4337_bundler_otel_service_name'', ''erc4337_bundler_otel_collector_headers'',
      ''erc4337_bundler_otel_collector_url'', ''erc4337_bundler_otel_insecure_mode'',
      ''erc4337_bundler_alt_mempool_ipfs_gateway'', ''erc4337_bundler_alt_mempool_ids'',
      ''erc4337_bundler_debug_mode'', ''erc4337_bundler_gin_mode'', ''solver_url'']"

text \<open>The checks after the beneficiary has its default.\<close>

definition validate_values :: "'v viper \<Rightarrow> 'v \<Rightarrow> go_error option" where
  "validate_values V v =
     (if vp_GetString V v ''mode'' = ''searcher'' \<and> variableNotSetOrIsNil V v ''erc4337_bundler_eth_builder_urls'' then
        Some (Panicked ''Fatal config error: erc4337_bundler_eth_builder_urls not set'')
      else if vp_IsSet V v ''erc4337_bundler_otel_service_name'' \<and>
          variableNotSetOrIsNil V v ''erc4337_bundler_otel_collector_url'' then
        Some (Panicked ''Fatal config error: erc4337_bundler_otel_service_name is set without a collector URL'')
      else if vp_IsSet V v ''erc4337_bundler_alt_mempool_ids'' \<and>
          variableNotSetOrIsNil V v ''erc4337_bundler_alt_mempool_ipfs_gateway'' then
        Some (Panicked ''Fatal config error: erc4337_bundler_alt_mempool_ids is set without specifying an IPFS gateway'')
      else if variableNotSetOrIsNil V v ''solver_url'' \<and> \<not> Contains (vp_GetString V v ''solver_url'') ''/solve'' then
        Some (Panicked ''Fatal config error: solver_url not set'')
      else None)"

definition read_values :: "'y eth_lib_scheme \<Rightarrow> 'v viper \<Rightarrow> 'v \<Rightarrow> conf" where
  "read_values L V v =
     \<lparr>PrivateKey = vp_GetString V v ''erc4337_bundler_private_key'',
      EthClientUrl = vp_GetString V v ''erc4337_bundler_eth_client_url'',
      Port = vp_GetInt V v ''erc4337_bundler_port'',
      DataDirectory = vp_GetString V v ''erc4337_bundler_data_directory'',
      cf_SupportedEntryPoints = envArrayToAddressSlice L (vp_GetString V v ''erc4337_bundler_supported_entry_points''),
      MaxVerificationGas = vp_GetInt V v ''erc4337_bundler_max_verification_gas'',
      MaxBatchGasLimit = vp_GetInt V v ''erc4337_bundler_max_batch_gas_limit'',
      MaxOpTTL = wrap64 (1000000000 * vp_GetDuration V v ''erc4337_bundler_max_op_ttl_seconds''),
      MaxOpsForUnstakedSender = vp_GetInt V v ''erc4337_bundler_max_ops_for_unstaked_sender'',
      Beneficiary = vp_GetString V v ''erc4337_bundler_beneficiary'',
      SolverUrl = vp_GetString V v ''solver_url'',
      EthBuilderUrls = envArrayToStringSlice (vp_GetString V v ''erc4337_bundler_eth_builder_urls''),
      BlocksInTheFuture = vp_GetInt V v ''erc4337_bundler_blocks_in_the_future'',
      OTELServiceName = vp_GetString V v ''erc4337_bundler_otel_service_name'',
      OTELCollectorHeaders = envKeyValStringToMap (vp_GetString V v ''erc4337_bundler_otel_collector_headers''),
      OTELCollectorUrl = vp_GetString V v ''erc4337_bundler_otel_collector_url'',
      OTELInsecureMode = vp_GetBool V v ''erc4337_bundler_otel_insecure_mode'',
      AltMempoolIPFSGateway = vp_GetString V v ''erc4337_bundler_alt_mempool_ipfs_gateway'',
      AltMempoolIds = envArrayToStringSlice (vp_GetString V v ''erc4337_bundler_alt_mempool_ids''),
      DebugMode = vp_GetBool V v ''erc4337_bundler_debug_mode'',
      GinMode = vp_GetString V v ''erc4337_bundler_gin_mode''\<rparr>"

definition GetValues :: "'y eth_lib_scheme \<Rightarrow> crypto \<Rightarrow> 'v viper \<Rightarrow> 'v \<Rightarrow> conf res" where
  "GetValues L K V v =
     (let v = fold (\<lambda>(k, d). vp_SetDefault V k d) default_values v;
          (err, v) = vp_ReadInConfig V v in
      case err of
        Some (e, False) \<Rightarrow> Inl (Panicked (''fatal error config file: '' @ Error e))
      | _ \<Rightarrow>
          let v = fold (vp_BindEnv V) bound_variables v in
          if variableNotSetOrIsNil V v ''erc4337_bundler_eth_client_url'' then
            Inl (Panicked ''Fatal config error: erc4337_bundler_eth_client_url not set'')
          else if variableNotSetOrIsNil V v ''erc4337_bundler_private_key'' then
            Inl (Panicked ''Fatal config error: erc4337_bundler_private_key not set'')
          else
            case (if \<not> vp_IsSet V v ''erc4337_bundler_beneficiary'' then
                    (case New_signer K (vp_GetString V v ''erc4337_bundler_private_key'') of
                       Inl e \<Rightarrow> Inl (Panicked (Error e))
                     | Inr a \<Rightarrow> Inr (vp_SetDefault V ''erc4337_bundler_beneficiary'' (CfgStr (AddressString L (eoa_Address a))) v))
                  else Inr v) of
              Inl e \<Rightarrow> Inl e
            | Inr v \<Rightarrow>
                (case validate_values V v of
                   Some e \<Rightarrow> Inl e
                 | None \<Rightarrow> Inr (read_values L V v)))"

subsection \<open>What the checks accept\<close>

lemma envArrayToAddressSlice_nonempty: "envArrayToAddressSlice L s \<noteq> []"
  by (simp add: envArrayToAddressSlice_def Split1_nonempty)

text \<open>Any text but the empty one is accepted as URL of the solver.\<close>

lemma solver_url_unchecked:
  assumes "vp_IsSet V v ''solver_url''" "vp_GetString V v ''solver_url'' \<noteq> ''''"
  shows "validate_values V v \<noteq> Some (Panicked ''Fatal config error: solver_url not set'')"
  using assms by (simp add: validate_values_def variableNotSetOrIsNil_def)

lemma GetValues_checked:
  assumes "GetValues L K V v0 = Inr cf"
  obtains v where "cf = read_values L V v" "validate_values V v = None"
  using assms by (auto simp: GetValues_def Let_def split: option.splits prod.splits if_splits sum.splits bool.splits)

lemma GetValues_entry_points: "GetValues L K V v = Inr cf \<Longrightarrow> cf_SupportedEntryPoints cf \<noteq> []"
  by (elim GetValues_checked) (simp add: read_values_def envArrayToAddressSlice_nonempty)

lemma GetValues_searcher:
  assumes "GetValues L K V v0 = Inr cf" "\<And>v. vp_GetString V v ''mode'' = ''searcher''"
  shows "EthBuilderUrls cf \<noteq> []"
  using assms(1)
proof (rule GetValues_checked)
  fix v assume "cf = read_values L V v" "validate_values V v = None"
  with assms(2) [of v] show ?thesis
    by (auto simp: validate_values_def read_values_def variableNotSetOrIsNil_def envArrayToStringSlice_def Split1_nonempty
        split: if_splits)
qed

end
