(* ===== verification/Start.thy ===== *)
theory Start
  imports Server Config
begin

text \<open>
  \<open>internal/start\<close>: how the parts are put together in private mode (batches are sent as transactions)
  and in searcher mode (batches go to block builders), and the whole program as a step relation: the
  loop of the bundler and the requests to the server. The answers of the node, of the solver and of
  the clock are an environment that differs from run to run and from request to request. A failure
  before the server listens (\<open>log.Fatal\<close>) is an error. The settings of debug mode, which the source
  makes after the loop has started and before its first tick, are those of the bundler that runs.
  The libraries \<open>L\<close>, \<open>LT\<close> and \<open>LE\<close> are the same packages, with the calls that each part needs.
\<close>

record run_env =
  rv_now :: "nat \<Rightarrow> int"
  rv_view :: node_view
  rv_hash :: "user_op \<Rightarrow> address \<Rightarrow> int \<Rightarrow> string"
  rv_solver :: solver
  rv_toSlice :: "address set \<Rightarrow> address list"
  rv_clk :: "nat \<Rightarrow> int"
  rv_builders :: builder_node
  rv_join :: "go_error list \<Rightarrow> string"
  rv_baseFee :: "int option res"
  rv_tip :: "int res"
  rv_price :: "int res"

record ('log, 'tx) request_env =
  qv_view :: node_view
  qv_pick :: "go_error list \<Rightarrow> go_error"
  qv_titles :: "string list"
  qv_now :: int
  qv_statusClk :: "nat \<Rightarrow> int"
  qv_seenClk :: "nat \<Rightarrow> int"
  qv_baseFee :: "int option res"
  qv_tip :: "int res"
  qv_price :: "int res"
  qv_estimate :: estimate_node
  qv_filter :: "('log, 'tx) filter_node"

record 'd start_io =
  io_OpenDB :: "'d res"
  io_Dial :: "go_error option"
  io_ChainID :: "int res"
  io_dummy :: address
  io_Validate :: "obj \<Rightarrow> go_error option"
  io_DecodeBig :: "string \<Rightarrow> int res"
  io_fetch :: "string \<Rightarrow> obj res"
  io_Health :: health_web

record ('d, 's, 'log, 'tx) system =
  sys_bundler :: "('d, 's) world bundler"
  sys_client :: "('log, 'tx) request_env \<Rightarrow> (('d, 's) world, 'log) client"
  sys_debug :: "debug option"
  sys_run :: "('d, 's) world run_state"

subsection \<open>The parts\<close>

definition chain_overhead :: "('t, 'y) rollup_lib_scheme \<Rightarrow> int \<Rightarrow> address list \<Rightarrow> address \<Rightarrow> overhead res" where
  "chain_overhead L chain eps dummy =
     (let ov = NewDefaultOverhead in
      if chain \<in> {ArbitrumOneChainID, ArbitrumGoerliChainID, ArbitrumSepoliaChainID} then
        (if eps = [] then Inl (Panicked ''index out of range'')
         else Inr (SetPreVerificationGasBufferFactor 16
           (SetCalcPreVerificationGasFunc (CalcArbitrumPVGWithEthClient L (hd eps) dummy) ov)))
      else if chain \<in> {OptimismChainID, OptimismGoerliChainID, OptimismSepoliaChainID, BaseChainID, BaseGoerliChainID,
             BaseSepoliaChainID, LyraChainID, LyraSepoliaChainID} then
        (if eps = [] then Inl (Panicked ''index out of range'')
         else Inr (SetPreVerificationGasBufferFactor 1
           (SetCalcPreVerificationGasFunc (CalcOptimismPVGWithEthClient L chain (hd eps) dummy) ov)))
      else Inr ov)"

definition start_client :: "('t, 'y) rollup_lib_scheme \<Rightarrow> 'z trace_lib_scheme \<Rightarrow> ('ev, 'u) exec_lib_scheme \<Rightarrow> 'd badger \<Rightarrow>
    conf \<Rightarrow> standalone \<Rightarrow> overhead \<Rightarrow> int \<Rightarrow> ('log, 'tx) request_env \<Rightarrow> (('d, 's, 'x) mempool_scheme, 'log) client" where
  "start_client L LT LE B cf chk ov chain q =
     client_UseModules
       [ValidateOpValues L (qv_view q) (qv_pick q) chk,
        CheckStatus L B (qv_statusClk q),
        SimulateOp LT B (qv_view q) (qv_pick q) (qv_titles q) (qv_now q) chk,
        IncOpsSeen L B (qv_seenClk q)]
     (SetGetUserOpByHashFunc (GetUserOpByHashWithEthClient L (qv_filter q))
     (SetGetGasEstimateFunc (GetGasEstimateWithEthClient LE (qv_estimate q) ov (MaxBatchGasLimit cf))
     (SetGetGasPricesFunc (GetGasPricesWithEthClient (qv_baseFee q) (qv_tip q) (qv_price q))
     (SetGetUserOpReceiptFunc (GetUserOpReceiptWithEthClient L (qv_filter q))
     (New_client ov chain (cf_SupportedEntryPoints cf))))))"

definition batch_modules :: "('t, 'y) rollup_lib_scheme \<Rightarrow> 'd badger \<Rightarrow> conf \<Rightarrow> (nat \<Rightarrow> run_env) \<Rightarrow>
    (nat \<Rightarrow> ('d, 's, 'x) world_scheme batch_run) \<Rightarrow> (nat \<Rightarrow> ('d, 's, 'x) world_scheme batch_run) list" where
  "batch_modules L B cf env sender =
     [\<lambda>n. returns (DropExpired L (MaxOpTTL cf) (rv_now (env n))),
      \<lambda>n. returns SortByGasPrice,
      \<lambda>n. returns (FilterUnderpriced L),
      \<lambda>n. returns SortByNonce,
      \<lambda>n. returns (MaintainGasLimit L (MaxBatchGasLimit cf)),
      \<lambda>n. returns (CodeHashes L B (rv_view (env n))),
      \<lambda>n. returns (PaymasterDeposit L (rv_view (env n))),
      \<lambda>n. returns (SolveIntents L (rv_hash (env n)) (rv_solver (env n))),
      sender,
      \<lambda>n. returns (IncOpsIncluded L B (rv_toSlice (env n)) (rv_clk (env n))),
      \<lambda>n. returns (Clean L B)]"

definition start_bundler :: "('t, 'y) rollup_lib_scheme \<Rightarrow> 'd badger \<Rightarrow> conf \<Rightarrow> int \<Rightarrow> (nat \<Rightarrow> run_env) \<Rightarrow>
    (nat \<Rightarrow> ('d, 's, 'x) world_scheme batch_run) \<Rightarrow> ('d, 's, 'x) world_scheme bundler" where
  "start_bundler L B cf chain env sender =
     bundler_UseModules (batch_modules L B cf env sender)
     (SetGetLegacyGasPriceFunc (\<lambda>n. GetLegacyGasPriceWithEthClient (rv_price (env n)))
     (SetGetGasTipFunc (\<lambda>n. GetGasTipWithEthClient (rv_tip (env n)))
     (SetGetBaseFeeFunc (\<lambda>n. GetBaseFeeWithEthClient (rv_baseFee (env n)))
     (New_bundler chain (cf_SupportedEntryPoints cf)))))"

definition open_pool :: "'y userop_lib_scheme \<Rightarrow> 'd badger \<Rightarrow> 's sset \<Rightarrow> 'd \<Rightarrow> ('d, 's) world res" where
  "open_pool L B S d = bind_res (New_mempool L B S d) (\<lambda>mem. Inr (mempool.extend mem (world.fields Map.empty)))"

definition fatal :: "go_error option \<Rightarrow> unit res" where
  "fatal e = (case e of None \<Rightarrow> Inr () | Some err \<Rightarrow> Inl err)"

definition start_debug :: "conf \<Rightarrow> EOA \<Rightarrow> int \<Rightarrow> address \<Rightarrow> debug option res" where
  "start_debug cf eoa chain beneficiary =
     (if \<not> DebugMode cf then Inr None
      else if cf_SupportedEntryPoints cf = [] then Inl (Panicked ''index out of range'')
      else Inr (Some (NewDebug (eoa_PrivateKey eoa) (eoa_Address eoa) chain (hd (cf_SupportedEntryPoints cf)) beneficiary)))"

definition PrivateMode :: "('t, 'y) rollup_lib_scheme \<Rightarrow> 'z trace_lib_scheme \<Rightarrow> ('ev, 'u) exec_lib_scheme \<Rightarrow> 'd badger \<Rightarrow>
    's sset \<Rightarrow> crypto \<Rightarrow> 'd start_io \<Rightarrow> (nat \<Rightarrow> run_env) \<Rightarrow> conf \<Rightarrow> ('d, 's, 'log, 'tx) system res" where
  "PrivateMode L LT LE B S K io env cf =
     bind_res (New_signer K (PrivateKey cf)) (\<lambda>eoa.
     bind_res (io_OpenDB io) (\<lambda>db.
     bind_res (fatal (io_Dial io)) (\<lambda>_.
     bind_res (io_ChainID io) (\<lambda>chain.
     bind_res (chain_overhead L chain (cf_SupportedEntryPoints cf) (io_dummy io)) (\<lambda>ov.
     bind_res (open_pool L B S db) (\<lambda>mem.
     bind_res (NewFromIPFS (io_Validate io) (io_DecodeBig io) (io_fetch io) chain (AltMempoolIPFSGateway cf) (AltMempoolIds cf)) (\<lambda>alt.
     bind_res (fatal (ReportSolverHealth (io_Health io) (SolverUrl cf))) (\<lambda>_.
     let beneficiary = HexToAddress L (Beneficiary cf);
         chk = New_standalone ov alt (MaxVerificationGas cf) (MaxBatchGasLimit cf) (MaxOpsForUnstakedSender cf);
         relayer = (if DebugMode cf then relay_SetWaitTimeout 0 (New_relayer beneficiary) else New_relayer beneficiary);
         b = start_bundler L B cf chain env (\<lambda>n. relay_SendUserOperation L relayer) in
     bind_res (start_debug cf eoa chain beneficiary) (\<lambda>d.
       Inr \<lparr>sys_bundler = (if DebugMode cf then SetMaxBatch 1 b else b), sys_client = start_client L LT LE B cf chk ov chain,
         sys_debug = d, sys_run = Run (init_run mem)\<rparr>)))))))))"

definition SearcherMode :: "('t, 'y) rollup_lib_scheme \<Rightarrow> 'z trace_lib_scheme \<Rightarrow> ('ev, 'u) exec_lib_scheme \<Rightarrow> 'd badger \<Rightarrow>
    's sset \<Rightarrow> crypto \<Rightarrow> 'd start_io \<Rightarrow> (nat \<Rightarrow> run_env) \<Rightarrow> conf \<Rightarrow> ('d, 's, 'log, 'tx) system res" where
  "SearcherMode L LT LE B S K io env cf =
     bind_res (New_signer K (PrivateKey cf)) (\<lambda>eoa.
     bind_res (io_OpenDB io) (\<lambda>db.
     bind_res (fatal (io_Dial io)) (\<lambda>_.
     bind_res (io_ChainID io) (\<lambda>chain.
     if uwrap64 chain \<notin> CompatibleChainIDs then
       Inl (GoError (''error: network with chainID '' @ Itoa (uwrap64 chain) @ '' is not compatible with the Block Builder API.''))
     else
     bind_res (open_pool L B S db) (\<lambda>mem.
     bind_res (NewFromIPFS (io_Validate io) (io_DecodeBig io) (io_fetch io) chain (AltMempoolIPFSGateway cf) (AltMempoolIds cf)) (\<lambda>alt.
     bind_res (fatal (ReportSolverHealth (io_Health io) (SolverUrl cf))) (\<lambda>_.
     let ov = NewDefaultOverhead;
         beneficiary = HexToAddress L (Beneficiary cf);
         chk = New_standalone ov alt (MaxVerificationGas cf) (MaxBatchGasLimit cf) (MaxOpsForUnstakedSender cf);
         bld = New_builder beneficiary (BlocksInTheFuture cf);
         b = start_bundler L B cf chain env (\<lambda>n. builder_SendUserOperation L (rv_builders (env n)) (rv_join (env n)) bld) in
     bind_res (start_debug cf eoa chain beneficiary) (\<lambda>d.
       Inr \<lparr>sys_bundler = (if DebugMode cf then SetMaxBatch 1 b else b), sys_client = start_client L LT LE B cf chk ov chain,
         sys_debug = d, sys_run = Run (init_run mem)\<rparr>))))))))"

text \<open>\<open>cmd/start.go\<close>: the mode is a required flag.\<close>

definition start_cmd :: "('t, 'y) rollup_lib_scheme \<Rightarrow> 'z trace_lib_scheme \<Rightarrow> ('ev, 'u) exec_lib_scheme \<Rightarrow> 'd badger \<Rightarrow>
    's sset \<Rightarrow> crypto \<Rightarrow> 'd start_io \<Rightarrow> (nat \<Rightarrow> run_env) \<Rightarrow> string \<Rightarrow> conf \<Rightarrow> ('d, 's, 'log, 'tx) system res" where
  "start_cmd L LT LE B S K io env mode cf =
     (if mode = ''private'' then PrivateMode L LT LE B S K io env cf
      else if mode = ''searcher'' then SearcherMode L LT LE B S K io env cf
      else Inl (Panicked (''Fatal flag error: '' @ [CHR 0x22] @ mode @ [CHR 0x22] @ '' mode not supported'')))"

subsection \<open>The running program\<close>

definition server_api :: "('t, 'y) rollup_lib_scheme \<Rightarrow> 'd badger \<Rightarrow> 's sset \<Rightarrow> (string \<Rightarrow> bool) \<Rightarrow> (json \<Rightarrow> override_account res) \<Rightarrow>
    ('d, 's, 'log, 'tx) system \<Rightarrow> ('log, 'tx) request_env \<Rightarrow>
    string \<rightharpoonup> (('d, 's) world run_state, 'log rpc_value) api_method" where
  "server_api L B S isHex decode sys q =
     rpc_api L \<lparr>ra_client = sys_client sys q, ra_debug = sys_debug sys, ra_bundler = sys_bundler sys, ra_badger = B,
       ra_sset = S, ra_IsHexAddress = isHex, ra_decode_account = decode\<rparr>"

text \<open>
  A tick of \<open>db.go\<close>: garbage is collected again until there is none. It may not end; \<open>badger\<close> keeps the
  values of all keys.
\<close>

partial_function (option) gc_again :: "('d \<Rightarrow> go_error option \<times> 'd) \<Rightarrow> 'd \<Rightarrow> 'd option" where
  "gc_again RunValueLogGC d =
     (case RunValueLogGC d of
        (None, d') \<Rightarrow> gc_again RunValueLogGC d'
      | (Some err, d') \<Rightarrow> Some d')"

definition gc_ok :: "'d badger \<Rightarrow> ('d \<Rightarrow> go_error option \<times> 'd) \<Rightarrow> bool" where
  "gc_ok B gc \<longleftrightarrow> (\<forall>d k. txn_Get B (snd (gc d)) k = txn_Get B d k)"

text \<open>
  The loop of the bundler and its \<open>Run\<close> and \<open>Stop\<close>, the requests, and the ticks of the garbage collection;
  any two interleave.
\<close>

inductive system_step :: "('t, 'y) rollup_lib_scheme \<Rightarrow> 'd badger \<Rightarrow> 's sset \<Rightarrow> (string \<Rightarrow> bool) \<Rightarrow> (json \<Rightarrow> override_account res) \<Rightarrow>
    ('d, 's, 'log, 'tx) system \<Rightarrow> ('d, 's) world run_state \<Rightarrow> ('d, 's) world run_state \<Rightarrow> bool"
  for L B S isHex decode sys where
  loop: "bundler_step L B S (sys_bundler sys) False s s' \<Longrightarrow> system_step L B S isHex decode sys s s'"
| request: "\<not> rs_crashed s \<Longrightarrow>
    serve H (E :: rpc_env) (server_api L B S isHex decode sys q) began ended req s = Some (resp, entry, s') \<Longrightarrow> float_int_ok E \<Longrightarrow>
    system_step L B S isHex decode sys s s'"
| collect: "\<not> rs_crashed s \<Longrightarrow> gc_again gc (mp_db (rs_world s)) = Some d \<Longrightarrow> gc_ok B gc \<Longrightarrow>
    system_step L B S isHex decode sys s (s\<lparr>rs_world := (rs_world s)\<lparr>mp_db := d\<rparr>\<rparr>)"

subsection \<open>The stacks of modules\<close>

lemma batch_modules_runners:
  assumes "badger_ok B" "\<And>n. batch_runner B (sender n)" "h \<in> set (batch_modules L B cf env sender)"
  shows "batch_runner B (h n)"
  using assms(3)
  by (auto simp: batch_modules_def intro: assms(2) sort_nonce_runner sort_price_runner underpriced_runner gas_limit_runner
      expire_runner code_hashes_runner paymaster_deposit_runner solve_intents_runner
      clean_runner [OF assms(1)] inc_included_runner [OF assms(1)])

lemma start_bundler_runner:
  assumes "badger_ok B" "\<And>n. batch_runner B (sender n)"
  shows "modules_ok B (start_bundler L B cf chain env sender)"
  using batch_modules_runners [OF assms]
  by (auto simp: start_bundler_def bundler_UseModules_def modules_ok_def)

lemma start_client_op_module:
  assumes "badger_ok B"
  shows "op_module B (cl_userOpHandler (start_client L LT LE B cf chk ov chain q))"
  by (auto simp: start_client_def client_UseModules_def intro!: compose_op_module validate_values.op_module_axioms
      check_status_op_module [OF assms] simulate_op_module [OF assms] inc_seen_op_module [OF assms])

subsection \<open>The pool of the running program\<close>

text \<open>What the start guarantees of the parts.\<close>

definition well_built :: "'y userop_lib_scheme \<Rightarrow> 'd badger \<Rightarrow> ('d, 's, 'log, 'tx) system \<Rightarrow> bool" where
  "well_built L B sys \<longleftrightarrow> modules_ok B (sys_bundler sys) \<and>
     (\<forall>q. op_module B (cl_userOpHandler (sys_client sys q)))"

lemma SetMaxBatch_modules [simp]: "modules_ok B (SetMaxBatch m b) = modules_ok B b"
  by (simp add: SetMaxBatch_def modules_ok_def)

lemmas mode_parts = bind_res_eq_Inr Let_def well_built_def

lemma PrivateMode_built:
  assumes "PrivateMode L LT LE B S K io env cf = Inr sys" "badger_ok B"
  shows "well_built L B sys \<and> (\<exists>d mem. io_OpenDB io = Inr d \<and> open_pool L B S d = Inr mem \<and> sys_run sys = Run (init_run mem))"
  using assms(1) start_bundler_runner [OF assms(2) relay_runner] start_client_op_module [OF assms(2)]
  by (auto simp: PrivateMode_def mode_parts)

lemma SearcherMode_built:
  assumes "SearcherMode L LT LE B S K io env cf = Inr sys" "badger_ok B"
  shows "well_built L B sys \<and> (\<exists>d mem. io_OpenDB io = Inr d \<and> open_pool L B S d = Inr mem \<and> sys_run sys = Run (init_run mem))"
  using assms(1) start_bundler_runner [OF assms(2) builder_runner] start_client_op_module [OF assms(2)]
  by (auto simp: SearcherMode_def mode_parts split: if_splits)

lemma start_cmd_built:
  assumes "start_cmd L LT LE B S K io env mode cf = Inr sys" "badger_ok B"
  shows "well_built L B sys \<and> (\<exists>d mem. io_OpenDB io = Inr d \<and> open_pool L B S d = Inr mem \<and> sys_run sys = Run (init_run mem))"
proof -
  have "PrivateMode L LT LE B S K io env cf = Inr sys \<or> SearcherMode L LT LE B S K io env cf = Inr sys"
    using assms(1) by (simp add: start_cmd_def split: if_splits)
  then show ?thesis by (rule disjE) (erule PrivateMode_built [OF _ assms(2)] SearcherMode_built [OF _ assms(2)])+
qed

lemma open_pool_inv:
  fixes m :: "('d, 's) mempool"
  assumes "pool_inv L B S nodes m" "\<forall>k e. (k, Inl e) \<notin> set (txn_Iterate B (mp_db m) mempool_keyPrefix)"
    and "open_pool L B S (mp_db m) = Inr w"
  shows "pool_inv L B S nodes w" "pool_look L nodes w = pool_stored L nodes m"
proof -
  obtain m' :: "('d, 's) mempool" where "New_mempool L B S (mp_db m) = Inr m'" "pool_inv L B S nodes m'"
    "pool_look L nodes m' = pool_stored L nodes m"
    by (rule New_mempool_reload [OF assms(1,2)])
  with assms(3) show "pool_inv L B S nodes w" "pool_look L nodes w = pool_stored L nodes m"
    by (auto simp: open_pool_def pool_inv_def pool_look_def mempool.defs world.defs)
qed

lemma run_state_world [simp]:
  "rs_world (Run s) = rs_world s" "rs_world (Stop_begin s) = rs_world s" "rs_world (init_run w) = w"
  by (simp_all add: Run_def Run_start_def Run_check_def Stop_begin_def init_run_def)

lemma SetBundlingMode_inv:
  assumes "run_inv L B S nodes s" "SetBundlingMode mode s = (r, s')"
  shows "run_inv L B S nodes s'"
  using assms(2) run_inv_callers [OF assms(1)] run_inv_callers(2) [OF run_inv_callers(1) [OF assms(1)]] assms(1)
  by (auto simp: SetBundlingMode_def Run_def split: if_splits)

lemma Clear_pool_inv: "pool_inv L B S nodes w \<Longrightarrow> ClearState B w = (r, w') \<Longrightarrow> pool_inv L B S nodes w'"
  using pool.clear_inv [of L B S nodes w] by (auto simp: ClearState_def split: prod.splits option.splits)

lemma Dump_pool_inv: "pool_inv L B S nodes w \<Longrightarrow> DumpMempool L S ep w = (r, w') \<Longrightarrow> pool_inv L B S nodes w'"
  using pool.dump_inv [of L B S nodes w] by (auto simp: DumpMempool_def split: prod.splits) (metis snd_conv)

lemma SendBundleNow_pool_inv:
  assumes "pool_inv L B S nodes w" "batch_runner B (bu_batchHandler b n)" "SendBundleNow L B S b n dbg w = Some (r, w')"
  shows "pool_inv L B S nodes w'"
proof -
  from assms(3) obtain res where "Process L B S b n (dbg_entrypoint dbg) w = Some (res, w')"
    by (auto simp: SendBundleNow_def split: option.splits sum.splits prod.splits json.splits)
  from Process_world(1) [OF assms(1,2) this] show ?thesis .
qed

lemma rpc_method_inv:
  fixes r :: "('d, 's, 'x, 'log) rpc_adapter"
  assumes inv: "run_inv L (ra_badger r) (ra_sset r) nodes s"
    and mods: "op_module (ra_badger r) (cl_userOpHandler (ra_client r))" "modules_ok (ra_badger r) (ra_bundler r)"
  shows "Eth_sendUserOperation L r op ep s = Some (vs, s') \<Longrightarrow> run_inv L (ra_badger r) (ra_sset r) nodes s'"
    "Eth_estimateUserOperationGas L r op ep os s = Some (vs, s') \<Longrightarrow> run_inv L (ra_badger r) (ra_sset r) nodes s'"
    "Eth_getUserOperationReceipt r h s = Some (vs, s') \<Longrightarrow> run_inv L (ra_badger r) (ra_sset r) nodes s'"
    "Eth_getUserOperationByHash r h s = Some (vs, s') \<Longrightarrow> run_inv L (ra_badger r) (ra_sset r) nodes s'"
    "Eth_supportedEntryPoints L r s = Some (vs, s') \<Longrightarrow> run_inv L (ra_badger r) (ra_sset r) nodes s'"
    "Eth_chainId L r s = Some (vs, s') \<Longrightarrow> run_inv L (ra_badger r) (ra_sset r) nodes s'"
    "Debug_bundler_clearState r s = Some (vs, s') \<Longrightarrow> run_inv L (ra_badger r) (ra_sset r) nodes s'"
    "Debug_bundler_dumpMempool L r ep s = Some (vs, s') \<Longrightarrow> run_inv L (ra_badger r) (ra_sset r) nodes s'"
    "DebugDumpBundlerState L r s = Some (vs, s') \<Longrightarrow> run_inv L (ra_badger r) (ra_sset r) nodes s'"
    "Debug_bundler_sendBundleNow L r s = Some (vs, s') \<Longrightarrow> run_inv L (ra_badger r) (ra_sset r) nodes s'"
    "Debug_bundler_setBundlingMode r mode s = Some (vs, s') \<Longrightarrow> run_inv L (ra_badger r) (ra_sset r) nodes s'"
proof -
  note world = run_inv_world [OF inv]
  show "Eth_sendUserOperation L r op ep s = Some (vs, s') \<Longrightarrow> run_inv L (ra_badger r) (ra_sset r) nodes s'"
    using SendUserOperation_result [OF world mods(1)] run_inv_set_world [OF inv]
    by (auto simp: Eth_sendUserOperation_def split: prod.splits)
  show "Debug_bundler_clearState r s = Some (vs, s') \<Longrightarrow> run_inv L (ra_badger r) (ra_sset r) nodes s'"
    using Clear_pool_inv [OF world] run_inv_set_world [OF inv] inv
    by (auto simp: Debug_bundler_clearState_def split: option.splits prod.splits)
  show "Debug_bundler_dumpMempool L r ep s = Some (vs, s') \<Longrightarrow> run_inv L (ra_badger r) (ra_sset r) nodes s'"
    using Dump_pool_inv [OF world] run_inv_set_world [OF inv] inv
    by (auto simp: Debug_bundler_dumpMempool_def split: option.splits prod.splits)
  show "DebugDumpBundlerState L r s = Some (vs, s') \<Longrightarrow> run_inv L (ra_badger r) (ra_sset r) nodes s'"
    using Dump_pool_inv [OF world] run_inv_set_world [OF inv] inv
    by (auto simp: DebugDumpBundlerState_def DumpDebugInfo_def split: option.splits prod.splits)
  show "Debug_bundler_sendBundleNow L r s = Some (vs, s') \<Longrightarrow> run_inv L (ra_badger r) (ra_sset r) nodes s'"
    using SendBundleNow_pool_inv [OF world modules_ok_handler [OF mods(2)]] run_inv_set_runs [OF inv] inv
    by (auto simp: Debug_bundler_sendBundleNow_def split: option.splits prod.splits)
  show "Debug_bundler_setBundlingMode r mode s = Some (vs, s') \<Longrightarrow> run_inv L (ra_badger r) (ra_sset r) nodes s'"
    using SetBundlingMode_inv [OF inv] inv by (auto simp: Debug_bundler_setBundlingMode_def split: option.splits prod.splits)
qed (use inv in \<open>auto simp: Eth_estimateUserOperationGas_def Eth_getUserOperationReceipt_def Eth_getUserOperationByHash_def
  Eth_supportedEntryPoints_def Eth_chainId_def split: option.splits\<close>)

lemma rpc_api_inv:
  fixes r :: "('d, 's, 'x, 'log) rpc_adapter"
  assumes inv: "run_inv L (ra_badger r) (ra_sset r) nodes s"
    and mods: "op_module (ra_badger r) (cl_userOpHandler (ra_client r))" "modules_ok (ra_badger r) (ra_bundler r)"
    and call: "rpc_api L r name = Some m" "well_typed (am_Inputs m) args" "am_Call m args s = Some (vs, s')"
  shows "run_inv L (ra_badger r) (ra_sset r) nodes s'"
  using map_of_SomeD [OF call(1) [unfolded rpc_api_def]] call(2,3)
  by (simp only: list.set insert_iff empty_iff prod.inject)
    (elim disjE conjE FalseE; auto simp: rpc_inputs well_typed_def list_all2_Cons1 fits_PMap fits_PString
      dest: rpc_method_inv [OF inv mods])

lemma gc_again_keeps:
  assumes "gc_again gc d = Some d'" "gc_ok B gc"
  shows "txn_Get B d' k = txn_Get B d k"
proof -
  have "gc_ok B gc \<longrightarrow> txn_Get B d' k = txn_Get B d k"
  proof (rule gc_again.raw_induct [where P = "\<lambda>gc d d'. gc_ok B gc \<longrightarrow> txn_Get B d' k = txn_Get B d k", OF _ assms(1)])
    fix again gc d d'
    assume IH: "\<And>gc d d'. again gc d = Some d' \<Longrightarrow> gc_ok B gc \<longrightarrow> txn_Get B d' k = txn_Get B d k"
      and step: "(case gc d of (None, d') \<Rightarrow> again gc d' | (Some err, d') \<Rightarrow> Some d') = Some d'"
    show "gc_ok B gc \<longrightarrow> txn_Get B d' k = txn_Get B d k"
    proof
      assume ok: "gc_ok B gc"
      then have "txn_Get B (snd (gc d)) k = txn_Get B d k" by (simp add: gc_ok_def)
      with step IH ok show "txn_Get B d' k = txn_Get B d k" by (auto split: prod.splits option.splits)
    qed
  qed
  with assms(2) show ?thesis by simp
qed

lemma collect_pool_inv:
  assumes "pool_inv L B S nodes w" "gc_ok B gc" "gc_again gc (mp_db w) = Some d"
  shows "pool_inv L B S nodes (w\<lparr>mp_db := d\<rparr>)"
  using assms(1) gc_again_keeps [OF assms(3,2)] by (simp add: pool_inv_def db_agrees_def)

lemma system_step_inv:
  assumes step: "system_step L B S isHex decode sys s s'" and inv: "run_inv L B S nodes s" and built: "well_built L B sys"
  shows "run_inv L B S nodes s'"
  using step
proof cases
  case loop
  from run_inv_step [OF this inv] built show ?thesis by (simp add: well_built_def)
next
  case (collect gc d)
  from run_inv_set_world [OF inv collect_pool_inv [OF run_inv_world [OF inv] collect(4,3)]] collect(1) show ?thesis by simp
next
  case (request H E q began ended req resp entry)
  let ?r = "\<lparr>ra_client = sys_client sys q, ra_debug = sys_debug sys, ra_bundler = sys_bundler sys, ra_badger = B,
       ra_sset = S, ra_IsHexAddress = isHex, ra_decode_account = decode\<rparr>"
  have callable: "\<forall>m \<in> ran (rpc_api L ?r). \<forall>p \<in> set (am_Inputs m). callable p" using rpc_api_callable by blast
  have serve: "serve H E (rpc_api L ?r) began ended req s = Some (resp, entry, s')" using request(2) by (simp add: server_api_def)
  show ?thesis
  proof (cases "s' = s")
    case True
    with inv show ?thesis by simp
  next
    case False
    from serve_changes [OF serve False] obtain rep ctx where
      ctl: "Controller E (rpc_api L ?r) (hr_Method req) (hr_Body req) s = Some (rep, ctx, s')" by blast
    from request(3) callable show ?thesis
    proof (cases rule: Controller_cases [of E "rpc_api L ?r" "hr_Method req" "hr_Body req" s])
      case (called data rid mname m args)
      from called(5) ctl obtain vs where "am_Call m args s = Some (vs, s')" by (cases "am_Call m args s") auto
      from rpc_api_inv [OF _ _ _ called(3,4) this, of nodes] inv built show ?thesis by (simp add: well_built_def)
    qed (use ctl inv in auto)
  qed
qed

lemma system_steps_inv:
  assumes "(system_step L B S isHex decode sys)\<^sup>*\<^sup>* s s'" "run_inv L B S nodes s" "well_built L B sys"
  shows "run_inv L B S nodes s'"
  using assms(1,2) by (induction rule: rtranclp_induct) (auto intro: system_step_inv [OF _ _ assms(3)])

subsection \<open>Properties\<close>


definition rollup_ref :: "unit rollup_lib" where
  "rollup_ref = chain_lib.extend good_chain (rollup_lib.fields [] (\<lambda>ops b. Inr []) [] (\<lambda>a c bs. Inr []) (\<lambda>bs. Inr (0, 0, 0))
     [] (\<lambda>bs. Inr []) (\<lambda>bs. Inr 0) (\<lambda>a s. Inr JNull) (Inr None) (Inr 1))"

lemma rollup_ref_ok: "eth_lib_ok rollup_ref"
  using good_chain_ok by (simp add: eth_lib_ok_def rollup_ref_def chain_lib.defs rollup_lib.defs) metis

definition sample_run_env :: run_env where
  "sample_run_env = \<lparr>rv_now = \<lambda>i. 0, rv_view = sample_node, rv_hash = \<lambda>op ep chain. '''', rv_solver = \<lambda>body. Inl (GoError ''''),
     rv_toSlice = sorted_list_of_set, rv_clk = \<lambda>i. 0, rv_builders = \<lparr>bn_BlockNumber = Inr 1, bn_BroadcastBundle = \<lambda>s n. []\<rparr>,
     rv_join = \<lambda>errs. '''', rv_baseFee = Inr (Some 10), rv_tip = Inr 1, rv_price = Inr 11\<rparr>"

definition sample_web :: health_web where
  "sample_web = \<lparr>hw_Parse = \<lambda>s. Inr \<lparr>url_Path = ''/solve'', url_RawQuery = '''', url_Fragment = '''', url_rest = s\<rparr>,
     hw_String = \<lambda>u. url_rest u @ url_Path u, hw_NewRequest = \<lambda>m u. Inr u, hw_Do = \<lambda>u. Inr (''200 OK'', []), hw_Copy = \<lambda>bs. None\<rparr>"

definition sample_io :: "((string \<times> db_value) list) start_io" where
  "sample_io = \<lparr>io_OpenDB = Inr (mp_db (pool_with rollup_ref [sample_op 5 3])), io_Dial = None, io_ChainID = Inr 1, io_dummy = 8,
     io_Validate = \<lambda>j. None, io_DecodeBig = \<lambda>s. Inr 1, io_fetch = \<lambda>s. Inl (GoError ''''), io_Health = sample_web\<rparr>"

definition sample_conf :: conf where
  "sample_conf = \<lparr>PrivateKey = ''01'', EthClientUrl = ''http'', Port = 4337, DataDirectory = '''', cf_SupportedEntryPoints = [9],
     MaxVerificationGas = 3000000, MaxBatchGasLimit = 25000000, MaxOpTTL = 180000000000, MaxOpsForUnstakedSender = 4,
     Beneficiary = ''0x8'', SolverUrl = ''http'', EthBuilderUrls = [], BlocksInTheFuture = 6, OTELServiceName = '''',
     OTELCollectorHeaders = Map.empty, OTELCollectorUrl = '''', OTELInsecureMode = False, AltMempoolIPFSGateway = '''',
     AltMempoolIds = [], DebugMode = False, GinMode = ''release''\<rparr>"

definition sample_crypto :: crypto where
  "sample_crypto = \<lparr>HexToECDSA = \<lambda>s. Inr 1, PubkeyToAddress = \<lambda>k. 8\<rparr>"


end
