(* ===== verification/Tracer.thy ===== *)
theory Tracer
  imports Go_Strings Prelude
begin

text \<open>
  \<open>pkg/tracer/load.go\<close>: the JavaScript tracers are read from the files of the program and shortened.
  \<open>ReplaceAllString\<close> with an empty replacement scans the text from left to right; a regular expression
  is the length of its match at a position, given the character before it. The text is ASCII, and the
  files of the program are a parameter.
\<close>

subsection \<open>The two regular expressions\<close>

definition word_char :: "char \<Rightarrow> bool" where
  "word_char c \<longleftrightarrow> (let n = (of_char c :: nat) in 48 \<le> n \<and> n \<le> 57 \<or> 65 \<le> n \<and> n \<le> 90 \<or> n = 95 \<or> 97 \<le> n \<and> n \<le> 122)"

text \<open>\<open>\s\<close>, which has no vertical tab.\<close>

definition re_space :: "char \<Rightarrow> bool" where
  "re_space c \<longleftrightarrow> (of_char c :: nat) \<in> {9, 10, 12, 13, 32}"

definition word_at :: "char option \<Rightarrow> bool" where
  "word_at ch = (case ch of None \<Rightarrow> False | Some c \<Rightarrow> word_char c)"

definition first_char :: "string \<Rightarrow> char option" where
  "first_char s = (case s of [] \<Rightarrow> None | c # _ \<Rightarrow> Some c)"

text \<open>
  \<open>(?m)^.*//.*$[\r\n]+\<close>: at the beginning of a line that has two slashes, the line and the line ends
  after it. The last line of a text has no line end, and no match.
\<close>

definition comment_match :: "char option \<Rightarrow> string \<Rightarrow> nat option" where
  "comment_match prev s =
     (let line = takeWhile (\<lambda>c. c \<noteq> CHR 0x0A) s; rest = drop (length line) s;
          ends = takeWhile (\<lambda>c. c \<in> {CHR 0x0A, CHR 0x0D}) rest in
      if prev \<in> {None, Some (CHR 0x0A)} \<and> Contains line ''//'' \<and> rest \<noteq> [] then Some (length line + length ends) else None)"

text \<open>
  \<open>\B\s+|\s+\B\<close>: \<open>\B\<close> is a position between two word characters or two others, the ends of the text
  being others. The first alternative that matches is taken; the second gives back a character when it
  runs into a word.
\<close>

definition whitespace_match :: "char option \<Rightarrow> string \<Rightarrow> nat option" where
  "whitespace_match prev s =
     (let n = length (takeWhile re_space s) in
      if n = 0 then None
      else if \<not> word_at prev then Some n
      else if \<not> word_at (first_char (drop n s)) then Some n
      else if 2 \<le> n then Some (n - 1) else None)"

function remove_all :: "(char option \<Rightarrow> string \<Rightarrow> nat option) \<Rightarrow> char option \<Rightarrow> string \<Rightarrow> string" where
  "remove_all m prev [] = []"
| "remove_all m prev (c # cs) =
     (case m prev (c # cs) of
        Some (Suc n) \<Rightarrow> remove_all m (Some (last (take (Suc n) (c # cs)))) (drop n cs)
      | _ \<Rightarrow> c # remove_all m (Some c) cs)"
  by pat_completeness auto
termination
  by (relation "measure (\<lambda>(m, prev, s). length s)") auto

subsection \<open>The loader\<close>

definition parse_tracer :: "string \<Rightarrow> string" where
  "parse_tracer code =
     (let m = remove_all comment_match None code;
          m = TrimSpace m;
          m = TrimPrefix m ''var tracer ='';
          m = TrimSuffix m '';''
      in remove_all whitespace_match None m)"

record tracers =
  tr_BundlerCollectorTracer :: string
  tr_BundlerExecutionTracer :: string

text \<open>Walking over one of the two files visits that file and nothing else.\<close>

definition load_tracer :: "(string \<Rightarrow> string res) \<Rightarrow> string \<Rightarrow> string res" where
  "load_tracer files path = bind_res (files path) (\<lambda>code. Inr (parse_tracer code))"

definition NewTracers :: "(string \<Rightarrow> string res) \<Rightarrow> tracers res" where
  "NewTracers files =
     bind_res (load_tracer files ''BundlerCollectorTracer.js'') (\<lambda>bct.
     bind_res (load_tracer files ''BundlerExecutionTracer.js'') (\<lambda>et.
       Inr \<lparr>tr_BundlerCollectorTracer = bct, tr_BundlerExecutionTracer = et\<rparr>))"

text \<open>The error is dropped: without a file \<open>Loaded\<close> is a nil pointer.\<close>

definition Loaded :: "(string \<Rightarrow> string res) \<Rightarrow> tracers option" where
  "Loaded files = (case NewTracers files of Inl _ \<Rightarrow> None | Inr t \<Rightarrow> Some t)"

subsection \<open>What is removed\<close>

lemma whitespace_match_spaces:
  assumes "whitespace_match prev s = Some n" shows "\<forall>c \<in> set (take n s). re_space c"
proof -
  have "n \<le> length (takeWhile re_space s)" using assms by (auto simp: whitespace_match_def Let_def split: if_splits)
  then have "set (take n s) \<subseteq> set (takeWhile re_space s)"
    by (metis set_take_subset takeWhile_eq_take take_take min.absorb1)
  then show ?thesis by (auto dest: set_takeWhileD)
qed

text \<open>Only whitespace is removed by the second expression.\<close>

lemma remove_whitespace_keeps:
  "filter (\<lambda>c. \<not> re_space c) (remove_all whitespace_match prev s) = filter (\<lambda>c. \<not> re_space c) s"
proof (induction "whitespace_match" prev s rule: remove_all.induct)
  case (2 prev c cs)
  show ?case
  proof (cases "\<exists>n. whitespace_match prev (c # cs) = Some (Suc n)")
    case True
    then obtain n where n: "whitespace_match prev (c # cs) = Some (Suc n)" by blast
    have "filter (\<lambda>c. \<not> re_space c) (take (Suc n) (c # cs)) = []"
      using whitespace_match_spaces [OF n] by (simp add: filter_empty_conv)
    then have "filter (\<lambda>c. \<not> re_space c) (c # cs) = filter (\<lambda>c. \<not> re_space c) (drop n cs)"
      by (metis append_Nil append_take_drop_id drop_Suc_Cons filter_append)
    with 2(3) [OF n refl] n show ?thesis by simp
  next
    case False
    with 2(1,2) show ?thesis by (cases "whitespace_match prev (c # cs)") (auto split: nat.splits)
  qed
qed simp


text \<open>What stays of the whitespace: single characters between two words.\<close>

fun tight :: "char option \<Rightarrow> string \<Rightarrow> bool" where
  "tight prev [] = True"
| "tight prev (c # cs) = ((re_space c \<longrightarrow> word_at prev \<and> word_at (first_char cs)) \<and> tight (Some c) cs)"

lemma word_not_space: "word_char c \<Longrightarrow> \<not> re_space c"
  by (auto simp: word_char_def re_space_def Let_def)

lemma whitespace_match_word: "\<not> re_space c \<Longrightarrow> whitespace_match prev (c # cs) = None"
  by (simp add: whitespace_match_def)

lemma whitespace_match_kept:
  assumes "re_space c" "whitespace_match prev (c # cs) = None"
  shows "word_at prev \<and> (\<exists>d ds. cs = d # ds \<and> word_char d)"
  using assms
  by (cases cs) (auto simp: whitespace_match_def Let_def first_char_def word_at_def split: if_splits option.splits)

lemma whitespace_match_pos: "whitespace_match prev s \<noteq> Some 0"
  by (simp add: whitespace_match_def Let_def)

lemma remove_whitespace_tight:
  "(word_at prev \<longrightarrow> word_at out) \<Longrightarrow> tight out (remove_all whitespace_match prev s)"
proof (induction "whitespace_match" prev s arbitrary: out rule: remove_all.induct)
  case (2 prev c cs)
  show ?case
  proof (cases "whitespace_match prev (c # cs)")
    case None
    have rest: "tight (Some c) (remove_all whitespace_match (Some c) cs)" using 2(1) [OF None] by simp
    have "word_at out \<and> word_at (first_char (remove_all whitespace_match (Some c) cs))" if "re_space c"
    proof -
      from whitespace_match_kept [OF that None] obtain d ds where d: "word_at prev" "cs = d # ds" "word_char d" by blast
      with 2(4) show ?thesis
        by (simp add: whitespace_match_word [OF word_not_space] first_char_def word_at_def)
    qed
    with None rest show ?thesis by simp
  next
    case (Some k)
    then obtain n where n: "whitespace_match prev (c # cs) = Some (Suc n)"
      using whitespace_match_pos by (cases k) auto
    have "last (take (Suc n) (c # cs)) \<in> set (take (Suc n) (c # cs))" by (rule last_in_set) simp
    with whitespace_match_spaces [OF n] have "re_space (last (take (Suc n) (c # cs)))" by blast
    then have "\<not> word_at (Some (last (take (Suc n) (c # cs))))" using word_not_space by (auto simp: word_at_def)
    with 2(3) [OF n refl] n show ?thesis by simp
  qed
qed simp

text \<open>
  Two words that one space separates stay apart; with more whitespace in between, a line end and an
  indentation say, they become one.
\<close>

lemma words_apart: "remove_all whitespace_match None ''in x'' = ''in x''" by code_simp

lemma words_joined: "remove_all whitespace_match None (''return'' @ [CHR 0x0A] @ '' x'') = ''returnx''" by code_simp

text \<open>A line with a URL is taken for a comment.\<close>

lemma url_line_removed: "parse_tracer (''var tracer = {'' @ [CHR 0x0A] @ ''url: u + '//' + h,'' @ [CHR 0x0A] @ ''};'') = ''{}''"
  by code_simp

end
