(* ===== verification/Spec2Isabelle.thy ===== *)
theory Spec2Isabelle
  imports Start Tracer
begin

text \<open>
  A model of the ERC-4337 bundler in \<open>src/\<close> (Go) and the theorems that make it correct, or that show
  where it is not.

  \<^bold>\<open>The program.\<close> A JSON-RPC server takes UserOperations. The \<^emph>\<open>client\<close> checks each through a stack of
  modules and adds it to the \<^emph>\<open>pool\<close>, which keeps it in sorted queues and in an embedded database. Every
  second the \<^emph>\<open>bundler\<close> takes a batch from the pool, runs a stack of batch modules over it (expiry,
  sorting, price and gas filters, code hashes, paymaster deposits, the solver of intents, the sender,
  reputation, cleaning) and removes from the pool what was sent or marked for removal. The sender is the
  \<^emph>\<open>relayer\<close> (private mode) or the \<^emph>\<open>block builder\<close> client (searcher mode). \<open>internal/start\<close> puts the
  parts together.

  \<^bold>\<open>The theories, in the order of their imports.\<close>
  \<^item> \<open>Prelude\<close>: errors as values (\<open>go_error\<close>, \<open>'a res\<close>), machine integers (\<open>wrap64\<close>, \<open>uwrap64\<close>), JSON values
    and the lemma collections. \<open>Go_Sort\<close>: \<open>sort.SliceStable\<close> with its own algorithm, proved equal to a
    stable sort for keys. \<open>Go_Strings\<close>: \<open>strings\<close>, \<open>strconv\<close>, \<open>encoding/hex\<close>. \<open>Ext\<close>: the packages outside
    \<open>src/\<close> as records of operations, each with the law that the code relies on.
  \<^item> \<open>UserOp\<close>: \<open>pkg/userop\<close>. The record \<open>user_op\<close>, parsing, validation, gas and fee arithmetic, packing.
  \<^item> \<open>Mempool\<close>: \<open>pkg/mempool\<close>. The record \<open>mempool\<close> (database, queues, and the present contents of the
    objects that the queues point to), \<open>AddOp\<close>, \<open>RemoveOps\<close>, \<open>Dump\<close>, \<open>GetOps\<close>, \<open>Clear\<close>, \<open>New_mempool\<close>. The
    invariant \<open>pool_inv\<close> and the interface \<open>op_pool\<close>.
  \<^item> \<open>Modules_Ctx\<close>: \<open>pkg/modules/context.go\<close>, \<open>modules.go\<close> and \<open>noop\<close>. The contexts of the two kinds of modules, marking
    for removal, composition; the interfaces \<open>batch_module\<close> (no operation is invented) and
    \<open>marking_module\<close> (none is lost either).
  \<^item> \<open>Reverts\<close>: \<open>pkg/errors\<close> and \<open>pkg/entrypoint/reverts\<close>. \<open>Transaction\<close>: \<open>pkg/entrypoint/transaction\<close>.
    \<open>Gas\<close>: \<open>pkg/gas\<close> without the estimates, with the decoders of Arbitrum and Optimism.
    \<open>State_Override\<close>: \<open>pkg/state\<close>. \<open>AltMempools\<close>: \<open>pkg/altmempools\<close>.
  \<^item> \<open>Batch_Modules\<close>: \<open>pkg/modules/batch\<close>, \<open>gasprice\<close>, \<open>expire\<close>; the \<open>world\<close> (pool and table of first sightings)
    that modules act on. \<open>Simulation\<close>: \<open>pkg/entrypoint/simulation\<close>. \<open>Checks\<close>: \<open>pkg/modules/checks\<close>.
    \<open>Paymaster\<close>: \<open>pkg/modules/paymaster\<close>.
  \<^item> \<open>Execution\<close>: \<open>pkg/entrypoint/execution\<close>. \<open>Estimate\<close>: \<open>pkg/gas/estimate.go\<close>.
  \<^item> \<open>Sending\<close>: \<open>pkg/modules/relay\<close> and \<open>builder\<close>; the interface \<open>batch_runner\<close> of modules that may not
    return. \<open>Solution\<close>: \<open>pkg/modules/solution\<close>.
  \<^item> \<open>Bundler\<close>: \<open>pkg/bundler\<close>, with \<open>Process\<close> on one batch. \<open>Bundler_Loop\<close>: the loop with \<open>Run\<close> and \<open>Stop\<close> as
    the step relation \<open>bundler_step\<close>; taking a batch, each of its modules and the removal are steps of
    their own, with which other loops and additions of the client interleave.
  \<^item> \<open>Event_Filter\<close>: \<open>pkg/entrypoint/filter\<close>. \<open>Client\<close>: \<open>pkg/client\<close> and \<open>pkg/fees\<close>, with the interface
    \<open>op_module\<close> of its modules. \<open>Debug_Methods\<close>: \<open>pkg/client/debug.go\<close>.
  \<^item> \<open>JsonRpc\<close>: the controller of \<open>pkg/jsonrpc/handler.go\<close>. \<open>Rpc_Adapter\<close>: the API object of \<open>pkg/client/rpc.go\<close>.
    \<open>Server\<close>: the HTTP server around it, with \<open>internal/logger\<close>, \<open>internal/ginutils\<close> and \<open>pkg/jsonrpc/otel.go\<close>.
  \<^item> \<open>Config\<close>: \<open>internal/config\<close> and \<open>pkg/signer\<close>. \<open>Start\<close>: \<open>internal/start\<close> and \<open>cmd/start.go\<close>, and the running
    program as the step relation \<open>system_step\<close>: steps of the loop, HTTP requests and ticks of the
    database's garbage collection, in any order.
  \<^item> \<open>Tracer\<close>: \<open>pkg/tracer/load.go\<close>, the loading and shortening of the JavaScript tracers.

  \<^bold>\<open>What is shown.\<close> The numbers are those of the properties.
  \<^item> The pool acts as a map keyed by EntryPoint, sender and nonce, in order of arrival, and survives a restart (1, 2, 4).
    Parsing is the inverse of printing and lets only well-formed operations pass (3, 5).
  \<^item> The checks accept exactly the operations that their conditions describe (6 to 9); the module for
    code hashes removes those whose code changed, and what a trace may not show is listed in 10 and 11.
  \<^item> Gas estimates end, are backed by a simulation that passed, and are near the threshold of a node
    that has one (12 to 14). Overheads equal a closed form (23); fees of a transaction are in range (24).
  \<^item> The batch modules sort and cut as they should, and where they do not the theorem gives the input
    (18 to 22). Reputation counts and bans (25, 26). The solver's answer is written to the right
    operations as long as none is dropped before (27, 28).
  \<^item> A run of \<open>Process\<close> acts on the pool as a removal from a map (29), drains it (30), and is the steps of
    the loop with nothing in between (32). The loop has one runner as long as calls of \<open>Run\<close> and \<open>Stop\<close> do
    not overlap (33), and may have two, with the same batch, when they do (34). What is lost: solutions,
    at a restart (31), solved intents in a mixed batch (35), an operation that replaces one of a batch
    (36). Sending: what is sent, and how it can fail to end or drop operations (15 to 17).
  \<^item> Look-ups return an operation with the hash asked for (37); an accepted operation is in the pool, a
    refused one leaves it alone (38); an HTTP request calls a procedure only with arguments of its kinds,
    and a panic is answered (39); the whole program keeps the pool (40).
  \<^item> Lemmas outside the properties: only whitespace goes when a tracer is shortened, and what stays of it
    separates words (\<open>remove_whitespace_keeps\<close>, \<open>remove_whitespace_tight\<close>), garbage collection keeps the
    pool (\<open>collect_pool_inv\<close>), replies of the node are passed on garbled (\<open>proxied_reply_not_json\<close>).

  \<^bold>\<open>Interfaces.\<close> \<open>op_pool\<close> is interpreted on the pool (\<open>pool\<close>), \<open>batch_module\<close> and \<open>marking_module\<close> on every
  batch module, \<open>batch_runner\<close> on the relayer and the builder client, \<open>op_module\<close> on the modules of the
  client. \<open>compose_batch_module\<close>, \<open>compose_batch_runner\<close> and \<open>compose_op_module\<close> carry the contracts through
  the stacks that \<open>Start\<close> builds.

  \<^bold>\<open>Bounds and fuel.\<close> \<open>gas_search\<close> has the fuel \<open>search_fuel\<close> = 65: each step halves an \<open>int64\<close> interval and
  stops below 30000, and property 12 shows that it never runs out for limits below \<open>2 ^ 62\<close>. The retries
  of \<open>EstimateGas\<close> are the at most seven of the code. The loops of the relayer and the builder client
  are partial functions, and \<open>None\<close> is a call that does not return; property 15 shows that it happens.

  \<^bold>\<open>Decisions.\<close> Third-party code is a record of functions with a law (\<open>eth_lib_ok\<close>, \<open>badger_ok\<close>,
  \<open>sortedset_ok\<close>, \<open>float_int_ok\<close>, \<open>gc_ok\<close>) that theorems have as a hypothesis where they need it. Answers of the
  node and readings of the clock are arguments, indexed where the source asks more than once. The
  goroutines of an error group all run, and \<open>pick\<close> chooses which error is reported. The order of a range
  over a Go map is a list argument. Operations are values; that the queues of the pool and a batch point to
  the same objects is the field \<open>mp_content\<close> of the pool, through which the pool reads and into which
  \<open>write_object\<close> writes a solution. \<open>float64\<close> computations that are exact at the
  sizes that occur are on rationals. A panic is the error \<open>Panicked\<close>.

  \<^bold>\<open>Not modelled.\<close>
  \<^item> Identity of objects beyond the pool: an object is known by what it was when it was added, and a
    batch holds copies, so a second loop that races with the first does not see what that one writes
    into its batch.
  \<^item> Interleaving inside one module and inside one request: each is a step, also the forced bundle of the
    debug methods. Everything else interleaves.
  \<^item> Generated bindings (\<open>pkg/entrypoint/bindings.go\<close>), tables of ABI types: data. The set-up of logging
    and of the OpenTelemetry exporters, flags and environment files: only calls of libraries. Scripts,
    mocks and tests are not part of the bundler.
\<close>

end
